(* ===== verification/Research.thy ===== *)
theory Research
  imports RG_Prelude "HOL-Library.Multiset"
begin

text \<open>
  The link predictor of the HeteroSplit example (\<open>examples/heterosplit/research.py\<close>): the ranking metrics, the combined
  node space, the negative sampler and the edge decoder. Tensors are lists, floating point numbers are real
  numbers, and what \<open>torch\<close> computes beyond that (sorting permutations, random integers) is a parameter.
\<close>

section \<open>Metrics\<close>

text \<open>What \<open>argsort\<close> promises: a permutation of the positions that puts the values in ascending order. The order
  of equal values is open.\<close>

definition sorts :: "(real list \<Rightarrow> nat list) \<Rightarrow> bool" where
  "sorts argsort \<longleftrightarrow> (\<forall>xs. mset (argsort xs) = mset [0..<length xs] \<and> sorted (map ((!) xs) (argsort xs)))"

definition select :: "real list \<Rightarrow> nat list \<Rightarrow> nat \<Rightarrow> real list" where
  "select scores labels l = map fst (filter (\<lambda>sl. snd sl = l) (zip scores labels))"

text \<open>\<open>None\<close> is the not-a-number the code returns without positives or negatives.\<close>

definition roc_auc :: "(real list \<Rightarrow> nat list) \<Rightarrow> real list \<Rightarrow> nat list \<Rightarrow> real option" where
  "roc_auc argsort scores labels =
    (let pos = select scores labels 1; neg = select scores labels 0 in
     if pos = [] \<or> neg = [] then None
     else
       let ranks = map (\<lambda>r. real r + 1) (argsort (map real (argsort (pos @ neg)))); n_pos = real (length pos) in
       Some ((sum_list (take (length pos) ranks) - n_pos * (n_pos + 1) / 2) / (n_pos * real (length neg))))"

definition average_precision :: "(real list \<Rightarrow> nat list) \<Rightarrow> real list \<Rightarrow> nat list \<Rightarrow> real option" where
  "average_precision argsort_descending scores labels =
    (let lab = map (\<lambda>i. real (labels ! i)) (argsort_descending scores) in
     if sum_list lab = 0 then None
     else
       let precision = map (\<lambda>i. sum_list (take (Suc i) lab) / real (Suc i)) [0..<length lab] in
       Some (sum_list (map2 (*) precision lab) / sum_list lab))"

text \<open>The reference: the share of pairs of a positive and a negative in which the positive scores higher.\<close>

definition better :: "real list \<Rightarrow> real list \<Rightarrow> nat" where
  "better pos neg = sum_list (map (\<lambda>p. length (filter (\<lambda>n. n < p) neg)) pos)"

definition not_worse :: "real list \<Rightarrow> real list \<Rightarrow> nat" where
  "not_worse pos neg = sum_list (map (\<lambda>p. length (filter (\<lambda>n. n \<le> p) neg)) pos)"

section \<open>The rank statistic\<close>

lemma sortsD:
  assumes "sorts argsort"
  shows "mset (argsort xs) = mset [0..<length xs]" "sorted (map ((!) xs) (argsort xs))" "length (argsort xs) = length xs"
    "distinct (argsort xs)" "set (argsort xs) = {..<length xs}"
proof -
  show m: "mset (argsort xs) = mset [0..<length xs]" and "sorted (map ((!) xs) (argsort xs))" using assms unfolding sorts_def by blast+
  show "length (argsort xs) = length xs" using arg_cong [OF m, of size] by simp
  show "distinct (argsort xs)" using mset_eq_imp_distinct_iff [OF m] by simp
  show "set (argsort xs) = {..<length xs}" using mset_eq_setD [OF m] by (simp add: lessThan_atLeast0)
qed

text \<open>Sorting the positions twice gives the rank of every value.\<close>

lemma double_argsort:
  assumes "sorts argsort" and r: "r = argsort (map real (argsort xs))"
  shows "length r = length xs" "bij_betw ((!) r) {..<length xs} {..<length xs}"
    "\<And>i j. i < length xs \<Longrightarrow> j < length xs \<Longrightarrow> r ! i < r ! j \<Longrightarrow> xs ! i \<le> xs ! j"
    "\<And>i j. i < length xs \<Longrightarrow> j < length xs \<Longrightarrow> xs ! i < xs ! j \<Longrightarrow> r ! i < r ! j"
proof -
  define s where "s = argsort xs"
  let ?n = "length xs"
  note S = sortsD [OF assms(1)]
  have s: "mset s = mset [0..<?n]" "sorted (map ((!) xs) s)" and ls: "length s = ?n" unfolding s_def by (rule S)+
  have r': "mset r = mset [0..<?n]" "sorted (map ((!) (map real s)) r)" and lr: "length r = ?n" and dr: "distinct r" "set r = {..<?n}"
    using S [of "map real s"] ls by (simp_all add: r s_def)
  show "length r = ?n" by (rule lr)
  show "bij_betw ((!) r) {..<?n} {..<?n}" by (rule bij_betw_nth [OF dr(1)]) (simp_all only: lr dr(2))
  have "map ((!) (map real s)) r = map real (map ((!) s) r)" using dr(2) ls by auto
  with r'(2) have "sorted (map ((!) s) r)" by (simp add: sorted_wrt_map)
  moreover have "mset (map ((!) s) r) = mset [0..<?n]"
  proof -
    have "mset (map ((!) s) r) = image_mset ((!) s) (mset r)" by simp
    also have "\<dots> = mset (map ((!) s) [0..<?n])" unfolding r'(1) by (simp only: mset_map)
    also have "map ((!) s) [0..<?n] = s" unfolding ls [symmetric] by (rule map_nth)
    finally show ?thesis by (simp only: s(1))
  qed
  ultimately have inv: "map ((!) s) r = [0..<?n]" by (metis properties_for_sort sort_upt)
  then have inv': "s ! (r ! k) = k" if "k < ?n" for k using that lr by (metis nth_map nth_upt add_0 length_map)
  have rk: "r ! k < ?n" if "k < ?n" for k using that lr dr(2) by (metis lessThan_iff nth_mem)
  show le: "xs ! i \<le> xs ! j" if "i < ?n" "j < ?n" "r ! i < r ! j" for i j
  proof -
    have "map ((!) xs) s ! (r ! i) \<le> map ((!) xs) s ! (r ! j)"
      by (rule sorted_nth_mono [OF s(2)]) (use that rk ls in auto)
    then show ?thesis using that rk ls inv' by simp
  qed
  show "r ! i < r ! j" if "i < ?n" "j < ?n" "xs ! i < xs ! j" for i j
  proof -
    have "r ! i \<noteq> r ! j" using that inv' by (metis less_irrefl)
    then show ?thesis using le [of j i] that by fastforce
  qed
qed


lemma rank_card:
  assumes f: "bij_betw f {..<n} {..<n :: nat}" and i: "i < n"
  shows "f i = card {j \<in> {..<n}. f j < f i}"
proof -
  have "f ` {j \<in> {..<n}. f j < f i} = {..<f i}"
  proof
    show "{..<f i} \<subseteq> f ` {j \<in> {..<n}. f j < f i}"
    proof
      fix y assume y: "y \<in> {..<f i}"
      have "f i \<in> {..<n}" using f i by (auto simp: bij_betw_def)
      with y have "y \<in> f ` {..<n}" using f by (auto simp: bij_betw_def)
      then show "y \<in> f ` {j \<in> {..<n}. f j < f i}" using y by auto
    qed
  qed auto
  moreover have "inj_on f {j \<in> {..<n}. f j < f i}" using f by (auto simp: bij_betw_def inj_on_def)
  ultimately show ?thesis by (metis card_image card_lessThan)
qed

lemma pair_count:
  assumes "finite A" "inj_on (f :: 'a \<Rightarrow> nat) A"
  shows "2 * (\<Sum>i \<in> A. card {j \<in> A. f j < f i}) = card A * (card A - 1)"
  using assms
proof (induction A rule: finite_induct)
  case (insert x A)
  have ne: "f i \<noteq> f x" if "i \<in> A" for i using insert.prems insert.hyps(2) that by (auto simp: inj_on_def)
  have split: "card {j \<in> insert x A. f j < f i} = card {j \<in> A. f j < f i} + of_bool (f x < f i)" if "i \<in> A" for i
  proof -
    have "{j \<in> insert x A. f j < f i} = (if f x < f i then insert x {j \<in> A. f j < f i} else {j \<in> A. f j < f i})" by auto
    then show ?thesis using insert.hyps by simp
  qed
  have "{j \<in> insert x A. f j < f x} = {j \<in> A. f j < f x}" by auto
  then have "(\<Sum>i \<in> insert x A. card {j \<in> insert x A. f j < f i})
      = card {j \<in> A. f j < f x} + (\<Sum>i \<in> A. card {j \<in> A. f j < f i} + of_bool (f x < f i))"
    using insert.hyps split by simp
  also have "\<dots> = card {j \<in> A. f j < f x} + card {i \<in> A. f x < f i} + (\<Sum>i \<in> A. card {j \<in> A. f j < f i})"
    using insert.hyps(1) by (simp add: sum.distrib sum_of_bool_eq Int_def conj_commute)
  also have "card {j \<in> A. f j < f x} + card {i \<in> A. f x < f i} = card A"
  proof -
    have "A = {j \<in> A. f j < f x} \<union> {i \<in> A. f x < f i}" using ne by (auto simp: neq_iff)
    moreover have "{j \<in> A. f j < f x} \<inter> {i \<in> A. f x < f i} = {}" by auto
    ultimately show ?thesis using insert.hyps(1) by (metis card_Un_disjoint finite_Un)
  qed
  finally have "2 * (\<Sum>i \<in> insert x A. card {j \<in> insert x A. f j < f i}) = 2 * card A + card A * (card A - 1)"
    using insert.IH insert.prems by (simp add: inj_on_def)
  then show ?case using insert.hyps by (cases "card A") (simp_all add: algebra_simps)
qed simp

lemma twice_real: "2 * m = k * (k - 1) \<Longrightarrow> 2 * real m = real k * (real k - 1)" for m k :: nat
proof -
  assume "2 * m = k * (k - 1)"
  then have "real (2 * m) = real (k * (k - 1))" by simp
  then show ?thesis by (cases k) (simp_all add: algebra_simps)
qed

lemma rank_sum:
  assumes f: "bij_betw f {..<n} {..<n :: nat}" and k: "k \<le> n"
  shows "(\<Sum>i<k. real (f i) + 1) - real k * (real k + 1) / 2 = real (\<Sum>i<k. card {j \<in> {k..<n}. f j < f i})"
proof -
  have one: "f i = card {j \<in> {..<k}. f j < f i} + card {j \<in> {k..<n}. f j < f i}" if "i < k" for i
  proof -
    have "{j \<in> {..<n}. f j < f i} = {j \<in> {..<k}. f j < f i} \<union> {j \<in> {k..<n}. f j < f i}" using k by auto
    moreover have "card ({j \<in> {..<k}. f j < f i} \<union> {j \<in> {k..<n}. f j < f i})
        = card {j \<in> {..<k}. f j < f i} + card {j \<in> {k..<n}. f j < f i}"
      by (rule card_Un_disjoint) auto
    moreover have "f i = card {j \<in> {..<n}. f j < f i}" using that k by (intro rank_card [OF f]) simp
    ultimately show ?thesis by (simp only:)
  qed
  have "inj_on f {..<k}" using f k by (auto simp: bij_betw_def intro: inj_on_subset)
  from pair_count [OF _ this] have "2 * (\<Sum>i<k. card {j \<in> {..<k}. f j < f i}) = k * (k - 1)" by simp
  then have "2 * real (\<Sum>i<k. card {j \<in> {..<k}. f j < f i}) = real k * (real k - 1)"
    by (rule twice_real)
  moreover have "(\<Sum>i<k. real (f i) + 1) = real k + real (\<Sum>i<k. card {j \<in> {..<k}. f j < f i}) + real (\<Sum>i<k. card {j \<in> {k..<n}. f j < f i})"
  proof -
    have "(\<Sum>i<k. real (f i)) = (\<Sum>i<k. real (card {j \<in> {..<k}. f j < f i} + card {j \<in> {k..<n}. f j < f i}))"
      by (rule sum.cong) (use one in auto)
    then show ?thesis by (simp add: sum.distrib)
  qed
  ultimately show ?thesis by (simp add: field_simps)
qed


lemma filter_count:
  assumes "k = length pos" "n = length (pos @ neg)"
  shows "length (filter P neg) = card {j \<in> {k..<n}. P ((pos @ neg) ! j)}"
proof -
  have "bij_betw ((+) k) {j. j < length neg \<and> P (neg ! j)} {j \<in> {k..<n}. P ((pos @ neg) ! j)}"
    by (rule bij_betw_byWitness [where f' = "\<lambda>j. j - k"]) (auto simp: assms nth_append)
  from bij_betw_same_card [OF this] show ?thesis by (simp add: length_filter_conv_card)
qed

lemma pair_sum:
  assumes "k = length pos" "n = length (pos @ neg)"
  shows "sum_list (map (\<lambda>p. length (filter (P p) neg)) pos)
    = (\<Sum>i<k. card {j \<in> {k..<n}. P ((pos @ neg) ! i) ((pos @ neg) ! j)})"
proof -
  have "sum_list (map (\<lambda>p. length (filter (P p) neg)) pos) = (\<Sum>i<k. length (filter (P (pos ! i)) neg))"
    by (simp add: sum_list_sum_nth lessThan_atLeast0 assms(1))
  also have "\<dots> = (\<Sum>i<k. card {j \<in> {k..<n}. P ((pos @ neg) ! i) ((pos @ neg) ! j)})"
    by (rule sum.cong) (simp_all add: filter_count [OF assms] nth_append assms(1))
  finally show ?thesis .
qed

lemma rank_statistic:
  assumes srt: "sorts argsort" and r: "r = argsort (map real (argsort (pos @ neg)))" and k: "k = length pos"
  shows "real (better pos neg) \<le> sum_list (take k (map (\<lambda>r. real r + 1) r)) - real k * (real k + 1) / 2"
    "sum_list (take k (map (\<lambda>r. real r + 1) r)) - real k * (real k + 1) / 2 \<le> real (not_worse pos neg)"
proof -
  define n where "n = length (pos @ neg)"
  note d = double_argsort [OF srt r, folded n_def]
  have kn: "k \<le> n" by (simp add: k n_def)
  have "sum_list (take k (map (\<lambda>r. real r + 1) r)) = (\<Sum>i<k. real (r ! i) + 1)"
    using kn by (simp add: sum_list_sum_nth lessThan_atLeast0 d(1))
  then have e: "sum_list (take k (map (\<lambda>r. real r + 1) r)) - real k * (real k + 1) / 2
      = real (\<Sum>i<k. card {j \<in> {k..<n}. r ! j < r ! i})" using rank_sum [OF d(2) kn] by simp
  note c = pair_sum [OF k n_def]
  have "better pos neg \<le> (\<Sum>i<k. card {j \<in> {k..<n}. r ! j < r ! i})"
    unfolding better_def c using kn by (intro sum_mono card_mono) (auto intro: d(4))
  moreover have "(\<Sum>i<k. card {j \<in> {k..<n}. r ! j < r ! i}) \<le> not_worse pos neg"
    unfolding not_worse_def c using kn by (intro sum_mono card_mono) (auto intro: d(3))
  ultimately show "real (better pos neg) \<le> sum_list (take k (map (\<lambda>r. real r + 1) r)) - real k * (real k + 1) / 2"
    "sum_list (take k (map (\<lambda>r. real r + 1) r)) - real k * (real k + 1) / 2 \<le> real (not_worse pos neg)"
    unfolding e by (simp_all del: of_nat_sum)
qed

lemma not_worse_le: "not_worse pos neg \<le> length pos * length neg"
  unfolding not_worse_def by (induction pos) (auto intro: add_mono)

lemma untied: "set pos \<inter> set neg = {} \<Longrightarrow> not_worse pos neg = better pos neg"
  unfolding not_worse_def better_def by (intro arg_cong [of _ _ sum_list] map_cong refl arg_cong [of _ _ length] filter_cong) (auto simp: le_less)


lemma roc_auc_pairs:
  assumes "sorts argsort" "pos = select scores labels 1" "neg = select scores labels 0"
  shows "(roc_auc argsort scores labels = None \<longleftrightarrow> pos = [] \<or> neg = [])
    \<and> (\<forall>a. roc_auc argsort scores labels = Some a \<longrightarrow>
        0 \<le> a \<and> a \<le> 1
      \<and> real (better pos neg) \<le> a * real (length pos * length neg)
      \<and> a * real (length pos * length neg) \<le> real (not_worse pos neg)
      \<and> (set pos \<inter> set neg = {} \<longrightarrow> a = real (better pos neg) / real (length pos * length neg)))"
proof (intro conjI allI impI)
  show "roc_auc argsort scores labels = None \<longleftrightarrow> pos = [] \<or> neg = []" by (simp add: roc_auc_def Let_def assms(2,3))
next
  fix a assume a: "roc_auc argsort scores labels = Some a"
  let ?d = "real (length pos * length neg)"
  have ne: "pos \<noteq> []" "neg \<noteq> []" using a by (auto simp: roc_auc_def Let_def assms(2,3) split: if_splits)
  then have d: "?d > 0" by simp
  note b = rank_statistic [OF assms(1) refl refl, of pos neg]
  have e: "a * ?d = sum_list (take (length pos) (map (\<lambda>r. real r + 1) (argsort (map real (argsort (pos @ neg))))))
      - real (length pos) * (real (length pos) + 1) / 2"
    using a ne by (auto simp: roc_auc_def Let_def assms(2,3))
  show lo: "real (better pos neg) \<le> a * ?d" and up: "a * ?d \<le> real (not_worse pos neg)" unfolding e by (rule b)+
  have "a * ?d \<le> 1 * ?d" using up of_nat_mono [OF not_worse_le [of pos neg], where 'a = real] by linarith
  then show "a \<le> 1" using d by (rule mult_right_le_imp_le)
  have "0 * ?d \<le> a * ?d" using lo by simp
  then show "0 \<le> a" using d by (rule mult_right_le_imp_le)
  assume "set pos \<inter> set neg = {}"
  then have "a * ?d = real (better pos neg)" using lo up untied by fastforce
  then show "a = real (better pos neg) / ?d" using ne by (simp only: eq_divide_eq) simp
qed


section \<open>Average precision\<close>

lemma average_precision_range:
  assumes "average_precision argsort scores labels = Some a" "\<And>i. i \<in> set (argsort scores) \<Longrightarrow> labels ! i \<le> 1"
  shows "0 < a" "a \<le> 1"
proof -
  define lab where "lab = map (\<lambda>i. real (labels ! i)) (argsort scores)"
  define pr where "pr = (\<lambda>i. sum_list (take (Suc i) lab) / real (Suc i))"
  have l01: "0 \<le> lab ! i" "lab ! i \<le> 1" if "i < length lab" for i using that assms(2) by (auto simp: lab_def)
  have ne: "sum_list lab \<noteq> 0" and a: "a = (\<Sum>i<length lab. pr i * lab ! i) / sum_list lab"
    using assms(1) by (auto simp: average_precision_def Let_def pr_def sum_list_sum_nth lessThan_atLeast0 simp flip: lab_def split: if_splits)
  have nn: "0 \<le> x" if "x \<in> set lab" for x using that by (auto simp: lab_def)
  have pos: "0 < sum_list lab" using ne sum_list_nonneg [of lab] nn by force
  have t: "0 \<le> sum_list (take n lab)" "sum_list (take n lab) \<le> real n" for n
  proof -
    show "0 \<le> sum_list (take n lab)" using nn by (intro sum_list_nonneg) (auto dest: in_set_takeD)
    have "(\<Sum>i = 0..<length (take n lab). take n lab ! i) \<le> (\<Sum>i = 0..<length (take n lab). 1)" using l01 by (intro sum_mono) auto
    then show "sum_list (take n lab) \<le> real n" by (simp add: sum_list_sum_nth)
  qed
  have pr: "0 \<le> pr i" "pr i \<le> 1" for i using t [of "Suc i"] by (auto simp: pr_def divide_simps)
  have s: "sum_list lab = (\<Sum>i<length lab. lab ! i)" by (simp add: sum_list_sum_nth lessThan_atLeast0)
  have "(\<Sum>i<length lab. pr i * lab ! i) \<le> (\<Sum>i<length lab. lab ! i)"
    using pr l01 by (intro sum_mono mult_left_le_one_le) auto
  then show "a \<le> 1" using pos s by (simp add: a)
  obtain i where i: "i < length lab" "0 < lab ! i" using pos s l01(1) by (metis lessThan_iff sum_nonpos not_le)
  have "0 < sum_list (take (Suc i) lab)" using i t(1) [of i] by (simp add: take_Suc_conv_app_nth)
  then have "0 < pr i" by (simp add: pr_def)
  then have "0 < (\<Sum>i<length lab. pr i * lab ! i)" using i pr l01 by (intro sum_pos2 [of _ i]) auto
  then show "0 < a" using pos by (simp add: a)
qed


definition stable_argsort :: "real list \<Rightarrow> nat list" where
  "stable_argsort xs = sort_key ((!) xs) [0..<length xs]"

lemma stable_argsort_sorts: "sorts stable_argsort"
  unfolding sorts_def stable_argsort_def by simp


section \<open>The combined node space\<close>

text \<open>An edge index is the list of its columns. A split result is read through the methods of the \<open>heterosplit\<close>
  library that \<open>_prepare\<close> calls.\<close>

type_synonym edges = "(nat \<times> nat) list"

record split_data =
  is_self_relation :: bool
  n_source :: nat
  n_destination :: nat
  message_passing :: edges
  train_supervision :: edges
  test_supervision :: edges
  record_codes :: edges

record prep =
  num_nodes :: nat
  n_src :: nat
  offset :: nat
  self_rel :: bool
  mp :: edges
  train_pos :: edges
  test_pos :: edges
  positives :: "(nat \<times> nat) set"

definition combine :: "nat \<Rightarrow> edges \<Rightarrow> edges" where
  "combine off es = map (\<lambda>(x, y). (x, y + off)) es"

definition pair_of :: "bool \<Rightarrow> nat \<Rightarrow> nat \<Rightarrow> nat \<times> nat" where
  "pair_of self x y = (if self then (min x y, max x y) else (x, y))"

definition positive_set :: "edges \<Rightarrow> bool \<Rightarrow> (nat \<times> nat) set" where
  "positive_set all_pos self = set (map (\<lambda>(x, y). pair_of self x y) all_pos)"

definition prepare :: "split_data \<Rightarrow> prep" where
  "prepare r =
    (let self = is_self_relation r; ns = n_source r; nd = (if self then ns else n_destination r); off = (if self then 0 else ns);
         mp_dir = combine off (message_passing r) in
     \<lparr>num_nodes = (if self then ns else ns + nd), n_src = ns, offset = off, self_rel = self,
      mp = mp_dir @ map (\<lambda>(x, y). (y, x)) mp_dir,
      train_pos = combine off (train_supervision r), test_pos = combine off (test_supervision r),
      positives = positive_set (combine off (record_codes r)) self\<rparr>)"

text \<open>What the library promises of a result: codes in range, and every supervision edge stems from a record.\<close>

definition in_space :: "split_data \<Rightarrow> (nat \<times> nat) \<Rightarrow> bool" where
  "in_space r e \<longleftrightarrow> fst e < n_source r \<and> snd e < (if is_self_relation r then n_source r else n_destination r)"

definition split_data_ok :: "split_data \<Rightarrow> bool" where
  "split_data_ok r \<longleftrightarrow> (\<forall>e \<in> set (record_codes r) \<union> set (message_passing r). in_space r e)
    \<and> set (train_supervision r) \<subseteq> set (record_codes r) \<and> set (test_supervision r) \<subseteq> set (record_codes r)"

section \<open>The negative sampler\<close>

text \<open>\<open>randint bound count g\<close> draws \<open>count\<close> indices and gives the generator's next state.\<close>

type_synonym 'g randint = "nat \<Rightarrow> nat \<Rightarrow> 'g \<Rightarrow> nat list \<times> 'g"

definition draws_below :: "'g randint \<Rightarrow> bool" where
  "draws_below randint \<longleftrightarrow> (\<forall>b n g. 0 < b \<longrightarrow> length (fst (randint b n g)) = n \<and> (\<forall>i \<in> set (fst (randint b n g)). i < b))"

fun pick :: "bool \<Rightarrow> (nat \<times> nat) set \<Rightarrow> nat \<Rightarrow> edges \<Rightarrow> edges \<Rightarrow> edges" where
  "pick self posi k [] out = out"
| "pick self posi k ((x, y) # ps) out =
    (if self \<and> x = y then pick self posi k ps out
     else if pair_of self x y \<in> posi then pick self posi k ps out
     else let out = out @ [(x, y)] in if k \<le> length out then out else pick self posi k ps out)"

definition draw :: "'g randint \<Rightarrow> nat list \<Rightarrow> nat list \<Rightarrow> nat \<Rightarrow> 'g \<Rightarrow> edges \<times> 'g" where
  "draw randint src_pool dst_pool k g =
    (let (i, g) = randint (length src_pool) (4 * k) g; (j, g) = randint (length dst_pool) (4 * k) g in
     (zip (map ((!) src_pool) i) (map ((!) dst_pool) j), g))"

fun sample_rounds :: "'g randint \<Rightarrow> nat list \<Rightarrow> nat list \<Rightarrow> nat \<Rightarrow> (nat \<times> nat) set \<Rightarrow> bool \<Rightarrow> nat \<Rightarrow> 'g \<Rightarrow> edges \<Rightarrow> edges \<times> 'g" where
  "sample_rounds randint src_pool dst_pool k posi self 0 g out = (out, g)"
| "sample_rounds randint src_pool dst_pool k posi self (Suc n) g out =
    (let (ps, g) = draw randint src_pool dst_pool k g; out = pick self posi k ps out in
     if k \<le> length out then (out, g) else sample_rounds randint src_pool dst_pool k posi self n g out)"

definition sample_pairs :: "'g randint \<Rightarrow> nat list \<Rightarrow> nat list \<Rightarrow> nat \<Rightarrow> (nat \<times> nat) set \<Rightarrow> bool \<Rightarrow> 'g \<Rightarrow> edges \<times> 'g" where
  "sample_pairs randint src_pool dst_pool k posi self g =
    (if k = 0 \<or> src_pool = [] \<or> dst_pool = [] then ([], g)
     else apfst (take k) (sample_rounds randint src_pool dst_pool k posi self 40 g []))"

text \<open>The reference: all pairs the forty rounds would draw, and those among them that are negatives.\<close>

fun all_draws :: "'g randint \<Rightarrow> nat list \<Rightarrow> nat list \<Rightarrow> nat \<Rightarrow> nat \<Rightarrow> 'g \<Rightarrow> edges" where
  "all_draws randint src_pool dst_pool k 0 g = []"
| "all_draws randint src_pool dst_pool k (Suc n) g =
    (let (ps, g) = draw randint src_pool dst_pool k g in ps @ all_draws randint src_pool dst_pool k n g)"

definition negative :: "bool \<Rightarrow> (nat \<times> nat) set \<Rightarrow> nat \<times> nat \<Rightarrow> bool" where
  "negative self posi = (\<lambda>(x, y). \<not> (self \<and> x = y) \<and> pair_of self x y \<notin> posi)"

lemma pick_eq: "length out < k \<Longrightarrow> pick self posi k ps out = take k (out @ filter (negative self posi) ps)"
  by (induction self posi k ps out rule: pick.induct) (auto simp: negative_def Let_def take_Cons')

lemma sample_rounds_eq:
  "length out < k \<Longrightarrow> fst (sample_rounds randint sp dp k posi self n g out)
    = take k (out @ filter (negative self posi) (all_draws randint sp dp k n g))"
proof (induction n arbitrary: g out)
  case (Suc n)
  obtain ps g' where d: "draw randint sp dp k g = (ps, g')" by fastforce
  show ?case
    using Suc.IH [of "pick self posi k ps out" g'] Suc.prems by (auto simp: d Let_def pick_eq min_def not_le)
qed simp

lemma draw_in_pools:
  assumes "draws_below randint" "sp \<noteq> []" "dp \<noteq> []"
  shows "set (fst (draw randint sp dp k g)) \<subseteq> set sp \<times> set dp" "length (fst (draw randint sp dp k g)) = 4 * k"
proof -
  obtain i g1 where i: "randint (length sp) (4 * k) g = (i, g1)" by fastforce
  obtain j g2 where j: "randint (length dp) (4 * k) g1 = (j, g2)" by fastforce
  have "length i = 4 * k \<and> (\<forall>a \<in> set i. a < length sp)" using assms(1,2) i unfolding draws_below_def by (metis fst_conv length_greater_0_conv)
  moreover have "length j = 4 * k \<and> (\<forall>a \<in> set j. a < length dp)" using assms(1,3) j unfolding draws_below_def by (metis fst_conv length_greater_0_conv)
  ultimately show "set (fst (draw randint sp dp k g)) \<subseteq> set sp \<times> set dp" "length (fst (draw randint sp dp k g)) = 4 * k"
    by (auto simp: draw_def i j set_zip)
qed

lemma all_draws_in_pools:
  assumes "draws_below randint" "sp \<noteq> []" "dp \<noteq> []"
  shows "set (all_draws randint sp dp k n g) \<subseteq> set sp \<times> set dp"
proof (induction n arbitrary: g)
  case (Suc n)
  obtain ps g' where d: "draw randint sp dp k g = (ps, g')" by fastforce
  show ?case using draw_in_pools(1) [OF assms, of k g] Suc.IH [of g'] by (simp add: d)
qed simp

text \<open>\<open>_sample_pairs\<close> returns the first \<open>k\<close> negatives among the pairs its forty rounds draw, although it stops
  drawing early; every returned pair comes from the two pools, is not a known positive in either direction of a
  self-relation, and is no self loop there.\<close>

lemma sample_pairs_sound:
  assumes "draws_below randint" "fst (sample_pairs randint src_pool dst_pool k posi self g) = ps"
  shows "(src_pool \<noteq> [] \<and> dst_pool \<noteq> [] \<longrightarrow>
        ps = take k (filter (negative self posi) (all_draws randint src_pool dst_pool k 40 g)))
    \<and> length ps \<le> k
    \<and> (\<forall>(x, y) \<in> set ps. x \<in> set src_pool \<and> y \<in> set dst_pool \<and> pair_of self x y \<notin> posi \<and> (self \<longrightarrow> x \<noteq> y))"
proof (cases "k = 0 \<or> src_pool = [] \<or> dst_pool = []")
  case True
  then show ?thesis using assms(2) by (auto simp: sample_pairs_def)
next
  case False
  then have e: "ps = take k (filter (negative self posi) (all_draws randint src_pool dst_pool k 40 g))"
    using assms(2) sample_rounds_eq [of "[]" k randint src_pool dst_pool posi self 40 g] by (simp add: sample_pairs_def)
  moreover have "set ps \<subseteq> {p \<in> set src_pool \<times> set dst_pool. negative self posi p}"
    using all_draws_in_pools [OF assms(1), of src_pool dst_pool k 40 g] False e by (auto dest!: in_set_takeD)
  ultimately show ?thesis by (auto simp: negative_def)
qed


definition cycle_randint :: "nat randint" where
  "cycle_randint b n g = (map (\<lambda>i. (g + i) mod b) [0..<n], g + n)"

lemma cycle_randint_below: "draws_below cycle_randint"
  by (auto simp: draws_below_def cycle_randint_def)

section \<open>The space is typed\<close>

lemma pair_of_sym: "pair_of True x y = pair_of True y x"
  by (simp add: pair_of_def min.commute max.commute)

lemma in_combine: "(x, y) \<in> set (combine off es) \<longleftrightarrow> (\<exists>z. (x, z) \<in> set es \<and> y = z + off)"
  by (force simp: combine_def)

lemma prepare_symmetric: "(x, y) \<in> set (mp (prepare r)) \<longleftrightarrow> (y, x) \<in> set (mp (prepare r))"
  by (auto simp: prepare_def Let_def)

lemma prepare_typed:
  assumes "split_data_ok r"
  shows "(x, y) \<in> set (train_pos (prepare r)) \<union> set (test_pos (prepare r)) \<Longrightarrow>
      x < n_src (prepare r) \<and> offset (prepare r) \<le> y \<and> y < num_nodes (prepare r) \<and> pair_of (self_rel (prepare r)) x y \<in> positives (prepare r)"
    and "(x, y) \<in> set (mp (prepare r)) \<Longrightarrow> x < num_nodes (prepare r) \<and> y < num_nodes (prepare r)"
proof -
  have rec: "in_space r e" if "e \<in> set (record_codes r) \<union> set (message_passing r)" for e using assms that by (auto simp: split_data_ok_def)
  assume "(x, y) \<in> set (train_pos (prepare r)) \<union> set (test_pos (prepare r))"
  then obtain z where z: "(x, z) \<in> set (record_codes r)" "y = z + offset (prepare r)"
    using assms by (auto simp: prepare_def Let_def in_combine split_data_ok_def split: if_splits)
  then have "(x, y) \<in> set (combine (offset (prepare r)) (record_codes r))" by (auto simp: in_combine)
  then have "pair_of (self_rel (prepare r)) x y \<in> positives (prepare r)" by (force simp: prepare_def Let_def positive_set_def)
  with rec [of "(x, z)"] z show "x < n_src (prepare r) \<and> offset (prepare r) \<le> y \<and> y < num_nodes (prepare r)
      \<and> pair_of (self_rel (prepare r)) x y \<in> positives (prepare r)"
    by (auto simp: in_space_def prepare_def Let_def)
next
  have rec: "in_space r e" if "e \<in> set (message_passing r)" for e using assms that by (auto simp: split_data_ok_def)
  assume "(x, y) \<in> set (mp (prepare r))"
  then show "x < num_nodes (prepare r) \<and> y < num_nodes (prepare r)"
    using rec by (force simp: prepare_def Let_def in_combine in_space_def split: if_splits)
qed

end
