(* ===== verification/Json.thy ===== *)
theory Json
  imports RG_Prelude
begin

text \<open>
  Python's \<open>json\<close> module as the sources use it: \<open>json.dumps\<close> in its default layout and indented, and
  \<open>json.loads\<close>. Text is a list of code points. A float is kept as its literal.
\<close>

section \<open>Values and printing\<close>

datatype json = J_Null | J_Bool bool | J_Int int | J_Float pystr | J_Str pystr | J_List "json list"
  | J_Obj "(pystr \<times> json) list"

definition asc :: "string \<Rightarrow> pystr" where
  "asc s = map of_char s"

lemma asc_simps [simp]: "asc [] = []" "asc (c # s) = of_char c # asc s" "asc (s @ t) = asc s @ asc t" "length (asc s) = length s"
  by (simp_all add: asc_def)

lemma asc_inj [simp]: "asc s = asc t \<longleftrightarrow> s = t"
proof
  assume "asc s = asc t"
  then have "map char_of (asc s) = (map char_of (asc t) :: string)" by simp
  then show "s = t" by (simp add: asc_def comp_def)
qed simp

definition hex_code :: "nat \<Rightarrow> nat" where
  "hex_code d = (if d < 10 then 48 + d else 87 + d)"

definition u_escape :: "nat \<Rightarrow> pystr" where
  "u_escape c = [92, 117, hex_code (c div 4096 mod 16), hex_code (c div 256 mod 16), hex_code (c div 16 mod 16), hex_code (c mod 16)]"

definition escape :: "nat \<Rightarrow> pystr" where
  "escape c =
    (if c = 34 then [92, 34] else if c = 92 then [92, 92] else if c = 10 then [92, 110] else if c = 13 then [92, 114]
     else if c = 9 then [92, 116] else if c = 12 then [92, 102] else if c = 8 then [92, 98]
     else if 32 \<le> c \<and> c \<le> 126 then [c]
     else if c < 0x10000 then u_escape c
     else u_escape (0xD800 + (c - 0x10000) div 1024) @ u_escape (0xDC00 + (c - 0x10000) mod 1024))"

definition dumps_str :: "pystr \<Rightarrow> pystr" where
  "dumps_str s = [34] @ concat (map escape s) @ [34]"

fun dumps :: "json \<Rightarrow> pystr" where
  "dumps J_Null = asc ''null''"
| "dumps (J_Bool b) = asc (if b then ''true'' else ''false'')"
| "dumps (J_Int i) = asc (str_int i)"
| "dumps (J_Float s) = s"
| "dumps (J_Str s) = dumps_str s"
| "dumps (J_List vs) = asc ''['' @ join (asc '', '') (map dumps vs) @ asc '']''"
| "dumps (J_Obj kvs) = asc ''{'' @ join (asc '', '') (map (\<lambda>(k, v). dumps_str k @ asc '': '' @ dumps v) kvs) @ asc ''}''"

section \<open>Parsing\<close>

definition is_ws :: "nat \<Rightarrow> bool" where
  "is_ws c \<longleftrightarrow> c = 32 \<or> c = 9 \<or> c = 10 \<or> c = 13"

definition skip :: "pystr \<Rightarrow> pystr" where
  "skip s = dropWhile is_ws s"

definition hex_val :: "nat \<Rightarrow> nat option" where
  "hex_val c = (if 48 \<le> c \<and> c \<le> 57 then Some (c - 48) else if 97 \<le> c \<and> c \<le> 102 then Some (c - 87)
     else if 65 \<le> c \<and> c \<le> 70 then Some (c - 55) else None)"

fun hex4 :: "pystr \<Rightarrow> (nat \<times> pystr) option" where
  "hex4 (a # b # c # d # t) = (case (hex_val a, hex_val b, hex_val c, hex_val d) of
     (Some a, Some b, Some c, Some d) \<Rightarrow> Some (a * 4096 + b * 256 + c * 16 + d, t) | _ \<Rightarrow> None)"
| "hex4 _ = None"

definition high :: "nat \<Rightarrow> bool" where
  "high u \<longleftrightarrow> 0xD800 \<le> u \<and> u \<le> 0xDBFF"

definition low :: "nat \<Rightarrow> bool" where
  "low u \<longleftrightarrow> 0xDC00 \<le> u \<and> u \<le> 0xDFFF"

definition unescape :: "pystr \<Rightarrow> (nat \<times> pystr) option" where
  "unescape s = (case s of [] \<Rightarrow> None | e # t \<Rightarrow>
     if e = 34 \<or> e = 92 \<or> e = 47 then Some (e, t)
     else if e = 98 then Some (8, t) else if e = 102 then Some (12, t) else if e = 110 then Some (10, t)
     else if e = 114 then Some (13, t) else if e = 116 then Some (9, t)
     else if e = 117 then
       (case hex4 t of None \<Rightarrow> None | Some (u, r) \<Rightarrow>
          if high u \<and> take 2 r = [92, 117] then
            (case hex4 (drop 2 r) of None \<Rightarrow> None | Some (u2, r2) \<Rightarrow>
               if low u2 then Some (0x10000 + (u - 0xD800) * 1024 + (u2 - 0xDC00), r2) else Some (u, r))
          else Some (u, r))
     else None)"

lemma hex4_length: "hex4 s = Some (u, t) \<Longrightarrow> length s = length t + 4"
  by (induction s rule: hex4.induct) (auto split: option.splits)

lemma unescape_length:
  assumes "unescape s = Some (u, t)"
  shows "length t < length s"
proof -
  obtain e r where s: "s = e # r" using assms by (cases s) (auto simp: unescape_def)
  have "length t \<le> length r"
    using assms by (auto simp: unescape_def s dest!: hex4_length split: if_splits option.splits)
  then show ?thesis by (simp add: s)
qed

function scanstring :: "pystr \<Rightarrow> (pystr \<times> pystr) option" where
  "scanstring [] = None"
| "scanstring (c # r) =
    (if c = 34 then Some ([], r)
     else if c = 92 then (case unescape r of None \<Rightarrow> None | Some (u, t) \<Rightarrow> map_option (apfst ((#) u)) (scanstring t))
     else if c < 32 then None
     else map_option (apfst ((#) c)) (scanstring r))"
  by pat_completeness auto
termination
  by (relation "measure length") (auto dest: unescape_length)

definition digit_code :: "nat \<Rightarrow> bool" where
  "digit_code c \<longleftrightarrow> 48 \<le> c \<and> c \<le> 57"

definition digits_val :: "pystr \<Rightarrow> nat" where
  "digits_val ds = foldl (\<lambda>a d. 10 * a + (d - 48)) 0 ds"

text \<open>The pieces of \<open>NUMBER_RE\<close>: an optional sign, the integer digits, a fraction and an exponent.\<close>

definition sign_part :: "pystr \<Rightarrow> pystr \<times> pystr" where
  "sign_part s = (if take 1 s = [45] then ([45], drop 1 s) else ([], s))"

definition int_part :: "pystr \<Rightarrow> (pystr \<times> pystr) option" where
  "int_part s = (case s of [] \<Rightarrow> None | c # t \<Rightarrow>
     if c = 48 then Some ([48], t) else if digit_code c then Some (takeWhile digit_code s, dropWhile digit_code s) else None)"

definition frac_part :: "pystr \<Rightarrow> pystr \<times> pystr" where
  "frac_part s = (case s of [] \<Rightarrow> ([], s) | c # t \<Rightarrow>
     if c = 46 \<and> takeWhile digit_code t \<noteq> [] then (46 # takeWhile digit_code t, dropWhile digit_code t) else ([], s))"

definition exp_sign :: "pystr \<Rightarrow> pystr \<times> pystr" where
  "exp_sign s = (if take 1 s = [45] \<or> take 1 s = [43] then (take 1 s, drop 1 s) else ([], s))"

definition exp_part :: "pystr \<Rightarrow> pystr \<times> pystr" where
  "exp_part s = (case s of [] \<Rightarrow> ([], s) | c # t \<Rightarrow>
     let (sg, r) = exp_sign t in
     if (c = 69 \<or> c = 101) \<and> takeWhile digit_code r \<noteq> [] then (c # sg @ takeWhile digit_code r, dropWhile digit_code r) else ([], s))"

definition number :: "pystr \<Rightarrow> (json \<times> pystr) option" where
  "number s = (let (sg, r) = sign_part s in
     case int_part r of None \<Rightarrow> None | Some (ds, r1) \<Rightarrow>
       let (fr, r2) = frac_part r1; (ex, r3) = exp_part r2 in
       Some (if fr = [] \<and> ex = [] then J_Int (if sg = [] then int (digits_val ds) else - int (digits_val ds))
             else J_Float (sg @ ds @ fr @ ex), r3))"

definition word_at :: "string \<Rightarrow> json \<Rightarrow> pystr \<Rightarrow> (json \<times> pystr) option" where
  "word_at w v s = (if take (length w) s = asc w then Some (v, drop (length w) s) else None)"

text \<open>The scalar branches of \<open>scan_once\<close>, in its order.\<close>

definition scalar :: "pystr \<Rightarrow> (json \<times> pystr) option" where
  "scalar s =
    (case word_at ''null'' J_Null s of Some r \<Rightarrow> Some r | None \<Rightarrow>
     case word_at ''true'' (J_Bool True) s of Some r \<Rightarrow> Some r | None \<Rightarrow>
     case word_at ''false'' (J_Bool False) s of Some r \<Rightarrow> Some r | None \<Rightarrow>
     case number s of Some r \<Rightarrow> Some r | None \<Rightarrow>
     case word_at ''NaN'' (J_Float (asc ''NaN'')) s of Some r \<Rightarrow> Some r | None \<Rightarrow>
     case word_at ''Infinity'' (J_Float (asc ''Infinity'')) s of Some r \<Rightarrow> Some r | None \<Rightarrow>
     word_at ''-Infinity'' (J_Float (asc ''-Infinity'')) s)"

text \<open>\<open>dict(pairs)\<close>: a repeated key keeps its place and takes the last value.\<close>

fun dict_put :: "'k \<Rightarrow> 'v \<Rightarrow> ('k \<times> 'v) list \<Rightarrow> ('k \<times> 'v) list" where
  "dict_put k v [] = [(k, v)]"
| "dict_put k v ((k', v') # d) = (if k = k' then (k, v) # d else (k', v') # dict_put k v d)"

definition dict_of :: "('k \<times> 'v) list \<Rightarrow> ('k \<times> 'v) list" where
  "dict_of kvs = fold (\<lambda>(k, v). dict_put k v) kvs []"

text \<open>The mutual recursion of the decoder. The first argument bounds the depth of the calls; a call
  consumes a character at least every second step, so twice the length of the text is enough.\<close>

fun parse_value :: "nat \<Rightarrow> pystr \<Rightarrow> (json \<times> pystr) option"
and parse_items :: "nat \<Rightarrow> pystr \<Rightarrow> (json list \<times> pystr) option"
and parse_members :: "nat \<Rightarrow> pystr \<Rightarrow> ((pystr \<times> json) list \<times> pystr) option" where
  "parse_value 0 s = None"
| "parse_value (Suc n) s = (case s of [] \<Rightarrow> None | c # r \<Rightarrow>
     if c = 34 then map_option (apfst J_Str) (scanstring r)
     else if c = 123 then
       (if take 1 (skip r) = [125] then Some (J_Obj [], drop 1 (skip r))
        else map_option (apfst (\<lambda>kvs. J_Obj (dict_of kvs))) (parse_members n (skip r)))
     else if c = 91 then
       (if take 1 (skip r) = [93] then Some (J_List [], drop 1 (skip r))
        else map_option (apfst J_List) (parse_items n (skip r)))
     else scalar s)"
| "parse_items 0 s = None"
| "parse_items (Suc n) s = (case parse_value n s of None \<Rightarrow> None | Some (v, r) \<Rightarrow>
     (case skip r of [] \<Rightarrow> None | c # t \<Rightarrow>
        if c = 93 then Some ([v], t)
        else if c = 44 then map_option (apfst ((#) v)) (parse_items n (skip t)) else None))"
| "parse_members 0 s = None"
| "parse_members (Suc n) s =
    (if take 1 s \<noteq> [34] then None else
     case scanstring (drop 1 s) of None \<Rightarrow> None | Some (k, r) \<Rightarrow>
     if take 1 (skip r) \<noteq> [58] then None else
     case parse_value n (skip (drop 1 (skip r))) of None \<Rightarrow> None | Some (v, r) \<Rightarrow>
     (case skip r of [] \<Rightarrow> None | c # t \<Rightarrow>
        if c = 125 then Some ([(k, v)], t)
        else if c = 44 then map_option (apfst ((#) (k, v))) (parse_members n (skip t)) else None))"

definition loads :: "pystr \<Rightarrow> json option" where
  "loads s = (case parse_value (2 * length s + 1) (skip s) of
     Some (v, r) \<Rightarrow> if skip r = [] then Some v else None | None \<Rightarrow> None)"

section \<open>Strings come back\<close>

definition scalar_value :: "nat \<Rightarrow> bool" where
  "scalar_value c \<longleftrightarrow> c < 0xD800 \<or> 0xDFFF < c \<and> c \<le> 0x10FFFF"

lemma hex_val_code: "d < 16 \<Longrightarrow> hex_val (hex_code d) = Some d"
  by (auto simp: hex_val_def hex_code_def)

lemma hex_digits_sum:
  assumes "u < 0x10000"
  shows "u div 4096 mod 16 * 4096 + u div 256 mod 16 * 256 + u div 16 mod 16 * 16 + u mod 16 = (u::nat)"
proof -
  have "u mod 256 = 16 * (u div 16 mod 16) + u mod 16" "u mod 4096 = 256 * (u div 256 mod 16) + u mod 256"
    "u mod 65536 = 4096 * (u div 4096 mod 16) + u mod 4096"
    using mod_mult2_eq [of u 16 16] mod_mult2_eq [of u 256 16] mod_mult2_eq [of u 4096 16] by simp_all
  moreover have "u mod 65536 = u" using assms by simp
  ultimately show ?thesis by linarith
qed

lemma hex4_u_escape: "u < 0x10000 \<Longrightarrow> hex4 (drop 2 (u_escape u) @ t) = Some (u, t)"
  using hex_digits_sum [of u] by (simp add: u_escape_def hex_val_code)

lemma u_escape_Cons: "u_escape u = 92 # 117 # drop 2 (u_escape u)" "take 2 (u_escape u) = [92, 117]" "length (u_escape u) = 6"
  by (simp_all add: u_escape_def numeral_2_eq_2)

lemma unescape_u: "u < 0x10000 \<Longrightarrow> \<not> high u \<Longrightarrow> unescape (117 # drop 2 (u_escape u) @ t) = Some (u, t)"
  by (simp add: unescape_def hex4_u_escape)

lemma unescape_pair:
  assumes "high u" "low v"
  shows "unescape (117 # drop 2 (u_escape u) @ u_escape v @ t) = Some (0x10000 + (u - 0xD800) * 1024 + (v - 0xDC00), t)"
  using assms by (simp add: unescape_def hex4_u_escape u_escape_Cons(2,3) high_def low_def)

lemma scanstring_u: "scanstring (u_escape u @ t) = (case unescape (117 # drop 2 (u_escape u) @ t) of None \<Rightarrow> None
     | Some (u, t) \<Rightarrow> map_option (apfst ((#) u)) (scanstring t))"
  by (subst u_escape_Cons(1)) simp

lemma scanstring_escape:
  assumes "scalar_value c"
  shows "scanstring (escape c @ t) = map_option (apfst ((#) c)) (scanstring t)"
proof -
  have "c \<in> {34, 92, 10, 13, 9, 12, 8} \<or> 32 \<le> c \<and> c \<le> 126 \<and> c \<noteq> 34 \<and> c \<noteq> 92
      \<or> escape c = u_escape c \<and> c < 0x10000 \<or> 0x10000 \<le> c" by (simp add: escape_def)
  then consider "c \<in> {34, 92, 10, 13, 9, 12, 8}" | "32 \<le> c" "c \<le> 126" "c \<noteq> 34" "c \<noteq> 92"
    | "escape c = u_escape c" "c < 0x10000" | "0x10000 \<le> c" by blast
  then show ?thesis
  proof cases
    case 1
    then show ?thesis by (auto simp: escape_def unescape_def)
  next
    case 2
    then show ?thesis by (auto simp: escape_def)
  next
    case 3
    moreover have "\<not> high c" using assms 3(2) by (auto simp: high_def scalar_value_def)
    ultimately show ?thesis by (simp add: scanstring_u unescape_u)
  next
    case 4
    let ?h = "0xD800 + (c - 0x10000) div 1024" and ?l = "0xDC00 + (c - 0x10000) mod 1024"
    have "high ?h" "low ?l" using 4 assms by (auto simp: high_def low_def scalar_value_def)
    moreover have "0x10000 + (?h - 0xD800) * 1024 + (?l - 0xDC00) = c" using 4 by simp
    ultimately show ?thesis using 4 by (simp add: escape_def scanstring_u unescape_pair)
  qed
qed

lemma scanstring_dumps: "list_all scalar_value s \<Longrightarrow> scanstring (concat (map escape s) @ 34 # t) = Some (s, t)"
  by (induction s) (simp_all add: scanstring_escape)

section \<open>Numbers come back\<close>

definition stops :: "pystr \<Rightarrow> bool" where
  "stops t \<longleftrightarrow> (case t of [] \<Rightarrow> True | c # _ \<Rightarrow> is_ws c \<or> c = 44 \<or> c = 93 \<or> c = 125)"

lemma stops_While: "stops t \<Longrightarrow> takeWhile digit_code (s @ t) = takeWhile digit_code s \<and> dropWhile digit_code (s @ t) = dropWhile digit_code s @ t"
  by (induction s) (auto simp: stops_def is_ws_def digit_code_def split: list.splits)

lemma number_stops:
  assumes "number s = Some (v, r)" "stops t"
  shows "number (s @ t) = Some (v, r @ t)"
proof -
  note W = stops_While [OF assms(2)]
  obtain sg s1 where sg: "sign_part s = (sg, s1)" by fastforce
  obtain ds s2 where ds: "int_part s1 = Some (ds, s2)" using assms(1) sg by (auto simp: number_def split: option.splits)
  obtain fr s3 where fr: "frac_part s2 = (fr, s3)" by fastforce
  obtain ex s4 where ex: "exp_part s3 = (ex, s4)" by fastforce
  have "s1 \<noteq> []" using ds by (auto simp: int_part_def)
  then have "s \<noteq> []" using sg by (auto simp: sign_part_def split: if_splits)
  then have "sign_part (s @ t) = (sg, s1 @ t)" using sg by (cases s) (auto simp: sign_part_def split: if_splits)
  moreover have "int_part (s1 @ t) = Some (ds, s2 @ t)"
    using ds W [of s1] by (cases s1) (auto simp: int_part_def split: if_splits)
  moreover have "frac_part (s2 @ t) = (fr, s3 @ t)"
    using fr W assms(2) by (cases s2) (auto simp: frac_part_def stops_def is_ws_def split: if_splits list.splits)
  moreover have "exp_part (s3 @ t) = (ex, s4 @ t)"
  proof (cases s3)
    case Nil
    then show ?thesis using ex assms(2) by (auto simp: exp_part_def stops_def is_ws_def split: list.splits)
  next
    case (Cons c s')
    obtain sg' r' where e: "exp_sign s' = (sg', r')" by fastforce
    then have "exp_sign (s' @ t) = (sg', r' @ t) \<or> r' = [] \<and> takeWhile digit_code (snd (exp_sign (s' @ t))) = []"
      using assms(2) by (cases s') (auto simp: exp_sign_def stops_def is_ws_def digit_code_def split: if_splits list.splits)
    then show ?thesis using ex e W [of r'] Cons by (auto simp: exp_part_def Let_def split: if_splits prod.splits)
  qed
  ultimately show ?thesis using assms(1) sg ds fr ex by (auto simp: number_def)
qed

lemma digits_val_str_nat: "digits_val (asc (str_nat n)) = n"
proof (induction n rule: str_nat.induct)
  case (1 n)
  show ?case
  proof (cases "n < 10")
    case False
    then have "n div 10 * 10 + n mod 10 = n" by simp
    with 1 [OF False] False show ?thesis by (simp add: str_nat_big digits_val_def of_char_digit)
  qed (simp add: str_nat_small digits_val_def of_char_digit)
qed

lemma digits_str_nat: "list_all digit_code (asc (str_nat n))"
proof -
  have "digit_code (of_char c)" if "c \<in> set (str_nat n)" for c
    using str_nat_digits [OF that] by (auto simp: digit_code_def of_char_digit)
  then show ?thesis by (simp add: list_all_iff asc_def)
qed

lemma hd_str_nat: "0 < n \<Longrightarrow> hd (asc (str_nat n)) \<noteq> 48"
proof (induction n rule: less_induct)
  case (less n)
  show ?case
  proof (cases "n < 10")
    case True
    with less.prems show ?thesis by (simp add: str_nat_small [OF True] of_char_digit)
  next
    case False
    have "hd (asc (s @ t)) = hd (asc s)" if "s \<noteq> []" for s t using that by (cases s) simp_all
    then have "hd (asc (str_nat n)) = hd (asc (str_nat (n div 10)))"
      unfolding str_nat_big [OF False] by (metis str_nat_nonempty)
    moreover have "n div 10 < n" "0 < n div 10" using False by auto
    ultimately show ?thesis using less.IH by metis
  qed
qed

lemma int_part_str_nat: "int_part (asc (str_nat n)) = Some (asc (str_nat n), [])"
proof (cases "n = 0")
  case True
  then show ?thesis by (simp add: str_nat_small int_part_def of_char_digit)
next
  case False
  obtain c t where ct: "asc (str_nat n) = c # t" by (cases "str_nat n") simp_all
  have "c \<noteq> 48" using hd_str_nat [of n] False ct by simp
  moreover have "digit_code c" "\<And>x. x \<in> set t \<Longrightarrow> digit_code x" using digits_str_nat [of n] ct by (auto simp: list_all_iff)
  ultimately show ?thesis by (simp add: ct int_part_def)
qed

lemma sign_part_str_nat: "sign_part (asc (str_nat n)) = ([], asc (str_nat n))"
proof -
  obtain c t where "asc (str_nat n) = c # t" by (cases "str_nat n") simp_all
  then show ?thesis using digits_str_nat [of n] by (auto simp: sign_part_def digit_code_def)
qed

lemma number_str_int: "number (asc (str_int i)) = Some (J_Int i, [])"
proof (cases "i < 0")
  case True
  have "sign_part (45 # asc (str_nat (nat (- i)))) = ([45], asc (str_nat (nat (- i))))" by (simp add: sign_part_def)
  with True show ?thesis by (simp add: str_int_def number_def int_part_str_nat frac_part_def exp_part_def digits_val_str_nat)
next
  case False
  then show ?thesis
    by (simp add: str_int_def number_def sign_part_str_nat int_part_str_nat frac_part_def exp_part_def digits_val_str_nat)
qed

section \<open>Values come back\<close>

definition constants :: "pystr set" where
  "constants = {asc ''NaN'', asc ''Infinity'', asc ''-Infinity''}"

text \<open>What \<open>json.dumps\<close> is given: strings of Unicode scalar values, dictionaries with distinct keys, and floats by
  their literal.\<close>

fun json_ok :: "json \<Rightarrow> bool" where
  "json_ok (J_Float s) \<longleftrightarrow> number s = Some (J_Float s, []) \<or> s \<in> constants"
| "json_ok (J_Str s) \<longleftrightarrow> list_all scalar_value s"
| "json_ok (J_List vs) \<longleftrightarrow> list_all json_ok vs"
| "json_ok (J_Obj kvs) \<longleftrightarrow> distinct (map fst kvs) \<and> list_all (\<lambda>(k, v). list_all scalar_value k \<and> json_ok v) kvs"
| "json_ok _ \<longleftrightarrow> True"

lemma number_first: "number (c # s) = Some r \<Longrightarrow> c = 45 \<or> digit_code c"
  by (auto simp: number_def sign_part_def int_part_def digit_code_def split: option.splits if_splits)

lemma first_ok: "json_ok v \<Longrightarrow> \<exists>c s. dumps v = c # s \<and> \<not> is_ws c \<and> c \<noteq> 93 \<and> c \<noteq> 125"
proof (cases v)
  case (J_Int i)
  obtain c s where cs: "asc (str_int i) = c # s" by (cases "str_int i") (auto simp: str_int_def split: if_splits)
  with number_str_int [of i] have "c = 45 \<or> digit_code c" using number_first by metis
  then show ?thesis using J_Int cs by (auto simp: is_ws_def digit_code_def)
next
  case (J_Float s)
  assume "json_ok v"
  then consider "number s = Some (J_Float s, [])" | "s \<in> constants" by (auto simp: J_Float)
  then show ?thesis
  proof cases
    case 1
    then obtain c t where cs: "s = c # t" by (cases s) (auto simp: number_def sign_part_def int_part_def)
    with 1 number_first have "c = 45 \<or> digit_code c" by metis
    then show ?thesis using J_Float cs by (auto simp: is_ws_def digit_code_def)
  qed (auto simp: J_Float constants_def is_ws_def)
qed (auto simp: is_ws_def dumps_str_def)

lemma skip_first: "\<not> is_ws c \<Longrightarrow> skip (c # s) = c # s"
  by (simp add: skip_def)

lemma skip_dumps: "json_ok v \<Longrightarrow> skip (dumps v @ t) = dumps v @ t"
  using first_ok [of v] by (auto simp: skip_first)

text \<open>A text spells a value if the decoder reads it as that value in any context.\<close>

definition spells :: "json \<Rightarrow> pystr \<Rightarrow> bool" where
  "spells v s \<longleftrightarrow> (\<exists>c r. s = c # r \<and> \<not> is_ws c \<and> c \<noteq> 93 \<and> c \<noteq> 125)
     \<and> (\<forall>t n. stops t \<longrightarrow> 2 * length s + 1 \<le> n \<longrightarrow> parse_value n (s @ t) = Some (v, t))"

lemma spellsD: "spells v s \<Longrightarrow> stops t \<Longrightarrow> 2 * length s + 1 \<le> n \<Longrightarrow> parse_value n (s @ t) = Some (v, t)"
  by (simp add: spells_def)

lemma spells_first: "spells v s \<Longrightarrow> \<exists>c r. s = c # r \<and> \<not> is_ws c \<and> c \<noteq> 93 \<and> c \<noteq> 125"
  by (simp add: spells_def)

lemma skip_ws: "list_all is_ws ws \<Longrightarrow> skip (ws @ s) = skip s"
  by (induction ws) (simp_all add: skip_def)

lemma skip_spelled: "spells v s \<Longrightarrow> skip (s @ t) = s @ t"
  using spells_first [of v s] by (auto simp: skip_first)

lemma stops_ws: "list_all is_ws ws \<Longrightarrow> stops (c # t) \<Longrightarrow> stops (ws @ c # t)"
  by (cases ws) (auto simp: stops_def)

lemma skip_join:
  assumes "spells v s" "list_all is_ws ws"
  shows "skip (ws @ join sep (s # ss) @ t) = join sep (s # ss) @ t"
  using skip_spelled [OF assms(1)] by (cases ss) (simp_all add: skip_ws [OF assms(2)])

lemma parse_items_spelled:
  assumes "vs \<noteq> []" "list_all2 spells vs ss" "list_all is_ws ws" "list_all is_ws ws'"
    and "2 * length (join (44 # ws) ss) + 2 \<le> n"
  shows "parse_items n (join (44 # ws) ss @ ws' @ 93 # t) = Some (vs, t)"
  using assms
proof (induction vs arbitrary: n ss)
  case (Cons v vs)
  from Cons.prems(2) obtain s ss' where ss: "ss = s # ss'" "spells v s" "list_all2 spells vs ss'" by (auto simp: list_all2_Cons1)
  from Cons.prems(5) obtain m where n: "n = Suc m" by (cases n) auto
  show ?case
  proof (cases "vs = []")
    case True
    then have "ss' = []" using ss(3) by simp
    moreover have "parse_value m (s @ ws' @ 93 # t) = Some (v, ws' @ 93 # t)"
      by (rule spellsD [OF ss(2) stops_ws [OF Cons.prems(4)]]) (use Cons.prems(5) n ss(1) \<open>ss' = []\<close> in \<open>auto simp: stops_def\<close>)
    ultimately show ?thesis using True by (simp add: n ss(1) skip_ws [OF Cons.prems(4)] skip_first is_ws_def)
  next
    case False
    then obtain w ws1 s' ss1 where w: "vs = w # ws1" "ss' = s' # ss1" "spells w s'" using ss(3) by (cases vs) (auto simp: list_all2_Cons1)
    let ?rest = "join (44 # ws) ss'"
    have j: "join (44 # ws) ss = s @ 44 # ws @ ?rest" by (simp add: ss(1) w(2))
    have "skip (ws @ ?rest @ ws' @ 93 # t) = ?rest @ ws' @ 93 # t" unfolding w(2) by (rule skip_join [OF w(3) Cons.prems(3)])
    moreover have "parse_value m (s @ 44 # ws @ ?rest @ ws' @ 93 # t) = Some (v, 44 # ws @ ?rest @ ws' @ 93 # t)"
      by (rule spellsD [OF ss(2)]) (use Cons.prems(5) n j in \<open>auto simp: stops_def\<close>)
    moreover have "parse_items m (?rest @ ws' @ 93 # t) = Some (vs, t)"
      by (rule Cons.IH [OF False ss(3) Cons.prems(3,4)]) (use Cons.prems(5) n j in auto)
    ultimately show ?thesis by (simp add: j n skip_first is_ws_def)
  qed
qed simp

definition member :: "pystr \<Rightarrow> pystr \<Rightarrow> pystr" where
  "member k s = dumps_str k @ [58, 32] @ s"

definition spells_member :: "pystr \<times> json \<Rightarrow> pystr \<Rightarrow> bool" where
  "spells_member kv m \<longleftrightarrow> (\<exists>s. m = member (fst kv) s \<and> list_all scalar_value (fst kv) \<and> spells (snd kv) s)"

lemma parse_member:
  assumes "spells_member (k, v) ms" "stops r" "2 * length ms + 2 \<le> Suc m"
  shows "parse_members (Suc m) (ms @ r) = (case skip r of [] \<Rightarrow> None | c # t \<Rightarrow>
        if c = 125 then Some ([(k, v)], t)
        else if c = 44 then map_option (apfst ((#) (k, v))) (parse_members m (skip t)) else None)"
proof -
  from assms(1) obtain s where s: "ms = member k s" "list_all scalar_value k" "spells v s" by (auto simp: spells_member_def)
  have "parse_value m (s @ r) = Some (v, r)"
    by (rule spellsD [OF s(3) assms(2)]) (use assms(3) s(1) in \<open>simp add: member_def\<close>)
  moreover have "skip (32 # s @ r) = s @ r" using skip_spelled [OF s(3), of r] by (simp add: skip_def is_ws_def)
  moreover have "skip (58 # x) = 58 # x" for x by (simp add: skip_first is_ws_def)
  ultimately show ?thesis using s(2) by (simp add: s(1) member_def dumps_str_def scanstring_dumps)
qed

lemma skip_members:
  assumes "spells_member kv m" "list_all is_ws ws"
  shows "skip (ws @ join sep (m # ms) @ t) = join sep (m # ms) @ t" "take 1 (join sep (m # ms) @ t) = [34]"
proof -
  from assms(1) obtain x where "m = 34 # x" by (auto simp: spells_member_def member_def dumps_str_def)
  then show "skip (ws @ join sep (m # ms) @ t) = join sep (m # ms) @ t" "take 1 (join sep (m # ms) @ t) = [34]"
    by (cases ms; simp add: skip_ws [OF assms(2)] skip_first is_ws_def)+
qed

lemma parse_members_spelled:
  assumes "kvs \<noteq> []" "list_all2 spells_member kvs ms" "list_all is_ws ws" "list_all is_ws ws'"
    and "2 * length (join (44 # ws) ms) + 2 \<le> n"
  shows "parse_members n (join (44 # ws) ms @ ws' @ 125 # t) = Some (kvs, t)"
  using assms
proof (induction kvs arbitrary: n ms)
  case (Cons kv kvs)
  from Cons.prems(2) obtain m ms' where ms: "ms = m # ms'" "spells_member kv m" "list_all2 spells_member kvs ms'" by (auto simp: list_all2_Cons1)
  obtain k v where kv: "kv = (k, v)" by fastforce
  from Cons.prems(5) obtain l where n: "n = Suc l" by (cases n) auto
  note parse = parse_member [OF ms(2) [unfolded kv]]
  show ?case
  proof (cases "kvs = []")
    case True
    then have "ms' = []" using ms(3) by simp
    moreover have "stops (ws' @ 125 # t)" by (rule stops_ws [OF Cons.prems(4)]) (simp add: stops_def)
    ultimately show ?thesis using True parse [of "ws' @ 125 # t" l] Cons.prems(5) n
      by (simp add: kv ms(1) skip_ws [OF Cons.prems(4)] skip_first is_ws_def)
  next
    case False
    then obtain kv1 m1 ms1 where w: "ms' = m1 # ms1" "spells_member kv1 m1" using ms(3) by (cases kvs) (auto simp: list_all2_Cons1)
    let ?rest = "join (44 # ws) ms'"
    have j: "join (44 # ws) ms = m @ 44 # ws @ ?rest" by (simp add: ms(1) w(1))
    have "skip (ws @ ?rest @ ws' @ 125 # t) = ?rest @ ws' @ 125 # t" unfolding w(1) by (rule skip_members(1) [OF w(2) Cons.prems(3)])
    moreover have "parse_members l (?rest @ ws' @ 125 # t) = Some (kvs, t)"
      by (rule Cons.IH [OF False ms(3) Cons.prems(3,4)]) (use Cons.prems(5) n j in auto)
    moreover have "2 * length m + 2 \<le> Suc l" using Cons.prems(5) n j by simp
    ultimately show ?thesis using parse [of "44 # ws @ ?rest @ ws' @ 125 # t" l] by (simp add: j n kv skip_first is_ws_def stops_def)
  qed
qed simp

lemma dict_put_new: "k \<notin> fst ` set d \<Longrightarrow> dict_put k v d = d @ [(k, v)]"
  by (induction d) (auto simp: image_iff)

lemma dict_of_distinct: "distinct (map fst kvs) \<Longrightarrow> dict_of kvs = kvs"
proof -
  have "distinct (map fst (d @ kvs)) \<Longrightarrow> fold (\<lambda>(k, v). dict_put k v) kvs d = d @ kvs" for d
    by (induction kvs arbitrary: d) (auto simp: dict_put_new)
  from this [of "[]"] show "distinct (map fst kvs) \<Longrightarrow> dict_of kvs = kvs" by (simp add: dict_of_def)
qed

lemma word_at_app: "word_at w v (asc w @ t) = Some (v, t)"
  by (simp add: word_at_def)

lemma word_at_first: "word_at (c # w) v (d # s) = Some r \<Longrightarrow> d = of_char c"
  by (auto simp: word_at_def split: if_splits)

lemma scalar_number:
  assumes "number s = Some r"
  shows "scalar s = Some r"
proof -
  obtain c t where s: "s = c # t" using assms by (cases s) (auto simp: number_def sign_part_def int_part_def)
  have "c = 45 \<or> digit_code c" using assms number_first s by metis
  then have "word_at ''null'' J_Null s = None" "word_at ''true'' (J_Bool True) s = None" "word_at ''false'' (J_Bool False) s = None"
    by (auto simp: s digit_code_def word_at_def)
  then show ?thesis by (simp add: scalar_def assms)
qed

lemma parse_value_scalar:
  assumes "s = c # r" "c \<noteq> 34" "c \<noteq> 123" "c \<noteq> 91" "0 < n"
  shows "parse_value n s = scalar s"
  using assms by (cases n) auto

lemma scalar_constants:
  "s \<in> constants \<Longrightarrow> scalar (s @ t) = Some (J_Float s, t)"
  by (auto simp: constants_def scalar_def word_at_def number_def sign_part_def int_part_def digit_code_def)

lemma parse_number:
  assumes "number s = Some (v, [])" "stops t" "0 < n"
  shows "parse_value n (s @ t) = Some (v, t)"
proof -
  obtain c r where s: "s = c # r" using assms(1) by (cases s) (auto simp: number_def sign_part_def int_part_def)
  have "c = 45 \<or> digit_code c" using assms(1) number_first s by metis
  moreover have "scalar (s @ t) = Some (v, t)" using scalar_number [OF number_stops [OF assms(1,2)]] by simp
  ultimately show ?thesis using parse_value_scalar [of "s @ t" c "r @ t" n] assms(3) by (auto simp: s digit_code_def)
qed

lemma spells_scalar:
  assumes "json_ok v" "\<And>vs. v \<noteq> J_List vs" "\<And>kvs. v \<noteq> J_Obj kvs"
  shows "spells v (dumps v)"
proof -
  have "parse_value n (dumps v @ t) = Some (v, t)" if t: "stops t" and n: "2 * length (dumps v) + 1 \<le> n" for t n
  proof (cases v)
    case (J_Float s)
    with assms(1) consider "number s = Some (J_Float s, [])" | "s \<in> constants" by auto
    then show ?thesis
    proof cases
      case 1
      then show ?thesis using parse_number [OF 1 t] n J_Float by simp
    next
      case 2
      then show ?thesis using scalar_constants [OF 2, of t] n J_Float by (cases n) (auto simp: constants_def)
    qed
  next
    case (J_Str s)
    have "parse_value (Suc m) (dumps_str s @ t) = Some (J_Str s, t)" for m using assms(1) J_Str by (simp add: dumps_str_def scanstring_dumps)
    then show ?thesis using n J_Str by (cases n) auto
  qed (use assms t n in \<open>auto simp: number_str_int parse_value_scalar [OF refl] scalar_def word_at_def intro: parse_number\<close>)
  then show ?thesis using first_ok [OF assms(1)] by (auto simp: spells_def)
qed

lemma spells_list:
  assumes "vs \<noteq> []" "list_all2 spells vs ss" "list_all is_ws ws0" "list_all is_ws ws" "list_all is_ws ws'"
  shows "spells (J_List vs) (91 # ws0 @ join (44 # ws) ss @ ws' @ [93])"
  unfolding spells_def
proof (intro conjI allI impI)
  fix t n assume n: "2 * length (91 # ws0 @ join (44 # ws) ss @ ws' @ [93]) + 1 \<le> n"
  obtain v s vs' ss' where s: "ss = s # ss'" "spells v s" using assms(1,2) by (cases vs) (auto simp: list_all2_Cons1)
  from n obtain m where m: "n = Suc m" "2 * length (join (44 # ws) ss) + 2 \<le> m" by (cases n) auto
  let ?j = "join (44 # ws) ss @ ws' @ 93 # t"
  have "skip (ws0 @ ?j) = ?j" unfolding s(1) by (rule skip_join [OF s(2) assms(3)])
  moreover have "take 1 ?j \<noteq> [93]" using spells_first [OF s(2)] by (cases ss') (auto simp: s(1))
  moreover have "parse_items m ?j = Some (vs, t)" by (rule parse_items_spelled [OF assms(1,2,4,5) m(2)])
  ultimately show "parse_value n ((91 # ws0 @ join (44 # ws) ss @ ws' @ [93]) @ t) = Some (J_List vs, t)" by (simp add: m(1))
qed (simp add: is_ws_def)

lemma spells_obj:
  assumes "kvs \<noteq> []" "list_all2 spells_member kvs ms" "distinct (map fst kvs)" "list_all is_ws ws0" "list_all is_ws ws" "list_all is_ws ws'"
  shows "spells (J_Obj kvs) (123 # ws0 @ join (44 # ws) ms @ ws' @ [125])"
  unfolding spells_def
proof (intro conjI allI impI)
  fix t n assume n: "2 * length (123 # ws0 @ join (44 # ws) ms @ ws' @ [125]) + 1 \<le> n"
  obtain kv m ms' where s: "ms = m # ms'" "spells_member kv m" using assms(1,2) by (cases kvs) (auto simp: list_all2_Cons1)
  from n obtain l where l: "n = Suc l" "2 * length (join (44 # ws) ms) + 2 \<le> l" by (cases n) auto
  let ?j = "join (44 # ws) ms @ ws' @ 125 # t"
  have "skip (ws0 @ ?j) = ?j" unfolding s(1) by (rule skip_members(1) [OF s(2) assms(4)])
  moreover have "take 1 ?j = [34]" unfolding s(1) by (rule skip_members(2) [OF s(2) assms(4)])
  moreover have "parse_members l ?j = Some (kvs, t)" by (rule parse_members_spelled [OF assms(1,2,5,6) l(2)])
  ultimately show "parse_value n ((123 # ws0 @ join (44 # ws) ms @ ws' @ [125]) @ t) = Some (J_Obj kvs, t)"
    by (simp add: l(1) dict_of_distinct [OF assms(3)])
qed (simp add: is_ws_def)

lemma spells_empty: "spells (J_List []) [91, 93]" "spells (J_Obj []) [123, 125]"
proof -
  have "parse_value n (91 # 93 # t) = Some (J_List [], t)" "parse_value n (123 # 125 # t) = Some (J_Obj [], t)" if "0 < n" for n t
    using that by (cases n; simp add: skip_def is_ws_def)+
  then show "spells (J_List []) [91, 93]" "spells (J_Obj []) [123, 125]" by (simp_all add: spells_def is_ws_def)
qed

text \<open>The default layout.\<close>

lemma members_spelled:
  assumes "list_all (\<lambda>(k, v). list_all scalar_value k \<and> json_ok v) kvs" "\<And>k v. (k, v) \<in> set kvs \<Longrightarrow> json_ok v \<Longrightarrow> spells v (f v)"
  shows "list_all2 spells_member kvs (map (\<lambda>(k, v). dumps_str k @ [58, 32] @ f v) kvs)"
  using assms by (auto simp: list_all2_conv_all_nth list_all_length spells_member_def member_def split: prod.splits) (metis nth_mem)

lemma items_spelled:
  assumes "list_all json_ok vs" "\<And>v. v \<in> set vs \<Longrightarrow> json_ok v \<Longrightarrow> spells v (f v)"
  shows "list_all2 spells vs (map f vs)"
  using assms by (auto simp: list_all2_conv_all_nth list_all_length)

lemma spells_dumps: "json_ok v \<Longrightarrow> spells v (dumps v)"
proof (induction v rule: dumps.induct)
  case (6 vs)
  have "list_all2 spells vs (map dumps vs)" by (rule items_spelled) (use 6 in auto)
  then show ?case using spells_list [of vs "map dumps vs" "[]" "[32]" "[]"] spells_empty(1) by (cases "vs = []") (auto simp: is_ws_def)
next
  case (7 kvs)
  have "list_all2 spells_member kvs (map (\<lambda>(k, v). dumps_str k @ [58, 32] @ dumps v) kvs)" by (rule members_spelled) (use 7 in auto)
  then show ?case using spells_obj [of kvs _ "[]" "[32]" "[]"] spells_empty(2) 7(2) by (cases "kvs = []") (auto simp: is_ws_def)
qed (auto intro!: spells_scalar simp del: dumps.simps)

text \<open>\<open>json.dumps\<close> with \<open>indent=2\<close>, at the indentation \<open>l\<close>.\<close>

definition newline :: "nat \<Rightarrow> pystr" where
  "newline l = 10 # replicate l 32"

fun dumps_indent :: "nat \<Rightarrow> json \<Rightarrow> pystr" where
  "dumps_indent l (J_List vs) = (if vs = [] then asc ''[]'' else
     asc ''['' @ newline (l + 2) @ join (asc '','' @ newline (l + 2)) (map (dumps_indent (l + 2)) vs) @ newline l @ asc '']'')"
| "dumps_indent l (J_Obj kvs) = (if kvs = [] then asc ''{}'' else
     asc ''{'' @ newline (l + 2) @ join (asc '','' @ newline (l + 2)) (map (\<lambda>(k, v). dumps_str k @ asc '': '' @ dumps_indent (l + 2) v) kvs)
       @ newline l @ asc ''}'')"
| "dumps_indent l v = dumps v"

lemma ws_newline: "list_all is_ws (newline l)"
  by (simp add: newline_def is_ws_def list_all_iff)

lemma spells_dumps_indent: "json_ok v \<Longrightarrow> spells v (dumps_indent l v)"
proof (induction l v rule: dumps_indent.induct)
  case (1 l vs)
  have "list_all2 spells vs (map (dumps_indent (l + 2)) vs)" by (rule items_spelled) (use 1 in fastforce)+
  then show ?case using spells_list [OF _ _ ws_newline ws_newline ws_newline] spells_empty(1) by auto
next
  case (2 l kvs)
  have "list_all2 spells_member kvs (map (\<lambda>(k, v). dumps_str k @ [58, 32] @ dumps_indent (l + 2) v) kvs)" by (rule members_spelled) (use 2 in fastforce)+
  then show ?case using spells_obj [OF _ _ _ ws_newline ws_newline ws_newline] spells_empty(2) 2(2) by auto
qed (auto intro!: spells_scalar simp del: dumps.simps)

lemma loads_spelled:
  assumes "spells v s"
  shows "loads s = Some v"
proof -
  have "parse_value (2 * length s + 1) s = Some (v, [])" using spellsD [OF assms, of "[]" "2 * length s + 1"] by (simp add: stops_def del: parse_value.simps)
  then show ?thesis using skip_spelled [OF assms, of "[]"] by (simp add: loads_def skip_def del: parse_value.simps)
qed

text \<open>\<open>json.loads(json.dumps(v)) = v\<close>, in either layout.\<close>

lemma loads_dumps: "json_ok v \<Longrightarrow> loads (dumps v) = Some v"
  by (rule loads_spelled [OF spells_dumps])

lemma loads_dumps_indent: "json_ok v \<Longrightarrow> loads (dumps_indent l v) = Some v"
  by (rule loads_spelled [OF spells_dumps_indent])

interpretation json: codec dumps loads json_ok
  by unfold_locales (rule loads_dumps)

interpretation json_indent: codec "dumps_indent l" loads json_ok
  by unfold_locales (rule loads_dumps_indent)

lemmas dumps_inj = json.enc_inj

text \<open>The text is printable ASCII, so it survives UTF-8 and has no NUL.\<close>

definition printable :: "nat \<Rightarrow> bool" where
  "printable c \<longleftrightarrow> 32 \<le> c \<and> c \<le> 126"

lemma printable_u_escape: "list_all printable (u_escape c)"
proof -
  have "printable (hex_code (k mod 16))" for k :: nat
    using mod_less_divisor [of 16 k] by (auto simp: hex_code_def printable_def simp del: mod_less_divisor)
  then show ?thesis by (simp add: u_escape_def) (simp add: printable_def)
qed

lemma printable_escape: "list_all printable (escape c)"
proof -
  have "printable 34" "printable 92" "printable 110" "printable 114" "printable 116" "printable 102" "printable 98"
    by (simp_all add: printable_def)
  then show ?thesis unfolding escape_def by (simp add: printable_u_escape) (simp add: printable_def)
qed

lemma printable_str: "list_all printable (dumps_str s)"
proof -
  have "list_all printable (concat (map escape s))" using printable_escape by (induction s) auto
  then show ?thesis by (simp add: dumps_str_def printable_def)
qed

lemma printable_str_int: "list_all printable (asc (str_int i))"
proof -
  have "list_all printable (asc (str_nat n))" for n
    using digits_str_nat [of n] by (auto simp: list_all_iff digit_code_def printable_def)
  then show ?thesis by (simp add: str_int_def printable_def)
qed

lemma printable_join: "list_all printable sep \<Longrightarrow> (\<And>x. x \<in> set xs \<Longrightarrow> list_all printable x) \<Longrightarrow> list_all printable (join sep xs)"
  by (induction sep xs rule: join.induct) auto

lemma printable_digits: "list_all printable (takeWhile digit_code s)"
  by (auto simp: list_all_iff digit_code_def printable_def dest: set_takeWhileD)

lemma printable_parts:
  "list_all printable (fst (sign_part s))" "int_part s = Some (ds, r) \<Longrightarrow> list_all printable ds"
  "list_all printable (fst (frac_part s))" "list_all printable (fst (exp_part s))"
proof -
  show "list_all printable (fst (sign_part s))" by (simp add: sign_part_def printable_def)
  show "int_part s = Some (ds, r) \<Longrightarrow> list_all printable ds"
    using printable_digits by (auto simp: int_part_def printable_def digit_code_def split: list.splits if_splits)
  show "list_all printable (fst (frac_part s))"
    using printable_digits by (auto simp: frac_part_def printable_def split: list.splits)
  have "exp_sign t = (sg, r') \<Longrightarrow> list_all printable sg" for t sg r'
    by (cases t) (auto simp: exp_sign_def printable_def split: if_splits)
  then show "list_all printable (fst (exp_part s))"
    using printable_digits by (auto simp: exp_part_def Let_def printable_def split: list.splits prod.splits)
qed

lemma printable_number:
  assumes "number s = Some (J_Float f, r)"
  shows "list_all printable f"
proof -
  obtain sg s1 where sg: "sign_part s = (sg, s1)" by fastforce
  obtain ds s2 where ds: "int_part s1 = Some (ds, s2)" using assms sg by (auto simp: number_def split: option.splits)
  obtain fr s3 where fr: "frac_part s2 = (fr, s3)" by fastforce
  obtain ex s4 where ex: "exp_part s3 = (ex, s4)" by fastforce
  from assms have "f = sg @ ds @ fr @ ex" by (simp add: number_def sg ds fr ex split: if_splits)
  then show ?thesis
    using printable_parts(1) [of s] printable_parts(2) [OF ds] printable_parts(3) [of s2] printable_parts(4) [of s3] sg fr ex by simp
qed

lemma printable_numeral [simp]: "printable (numeral k) \<longleftrightarrow> 32 \<le> (numeral k :: nat) \<and> (numeral k :: nat) \<le> 126"
  by (simp add: printable_def)

lemma printable_dumps: "json_ok v \<Longrightarrow> list_all printable (dumps v)"
proof (induction v rule: dumps.induct)
  case (4 s)
  have "list_all printable f" if "f \<in> constants" for f using that by (auto simp: constants_def printable_def)
  with 4 show ?case by (auto dest: printable_number)
next
  case (6 vs)
  then have "list_all printable (join [44, 32] (map dumps vs))"
    by (intro printable_join) (auto simp: list_all_iff)
  then show ?case by simp
next
  case (7 kvs)
  have "list_all printable (join [44, 32] (map (\<lambda>(k, v). dumps_str k @ [58, 32] @ dumps v) kvs))"
    by (intro printable_join) (use 7 printable_str in \<open>fastforce simp: list_all_iff\<close>)+
  then show ?case by simp
qed (auto simp: printable_str printable_str_int)

end
