(* ===== verification/Scheduler_Model.thy ===== *)
theory Scheduler_Model
  imports RG_Prelude "HOL-Library.Word"
begin

text \<open>
  The job model of the control plane (\<open>internal/scheduler/model.go\<close>): resource vectors, job
  definitions and their validation, random identifiers and the retry rule, with the identifier
  pattern the server checks (\<open>internal/store/workers.go\<close>, \<open>internal/api/http.go\<close>).

  Go's \<open>int\<close> is 64 bits wide; every value below is bounded by \<open>Valid\<close> or \<open>Validate\<close>
  far under that width before it is added to another, so \<^typ>\<open>int\<close> is used.
\<close>

unbundle bit_operations_syntax

section \<open>Resources\<close>

record resources =
  CPU :: int
  MemoryMB :: int
  GPU :: int

definition Valid :: "resources \<Rightarrow> bool" where
  "Valid r \<longleftrightarrow> CPU r \<ge> 0 \<and> MemoryMB r \<ge> 0 \<and> GPU r \<ge> 0 \<and>
     CPU r \<le> 1000000 \<and> MemoryMB r \<le> 1000000000 \<and> GPU r \<le> 1000000"

definition Fits :: "resources \<Rightarrow> resources \<Rightarrow> bool" where
  "Fits r cap \<longleftrightarrow> Valid r \<and> CPU r \<le> CPU cap \<and> MemoryMB r \<le> MemoryMB cap \<and> GPU r \<le> GPU cap"

section \<open>Jobs\<close>

record job =
  Name :: string
  Command :: "string list"
  Environment :: "(string \<times> string) list option"
  Resources :: resources
  MaxAttempts :: int
  TimeoutSeconds :: int
  IdempotencyKey :: string
  ArtifactPrefix :: string

definition is_alpha_us :: "char \<Rightarrow> bool" where
  "is_alpha_us c \<longleftrightarrow> (CHR ''A'' \<le> c \<and> c \<le> CHR ''Z'') \<or> (CHR ''a'' \<le> c \<and> c \<le> CHR ''z'') \<or> c = CHR ''_''"

definition is_digit :: "char \<Rightarrow> bool" where
  "is_digit c \<longleftrightarrow> CHR ''0'' \<le> c \<and> c \<le> CHR ''9''"

definition NUL :: char where
  "NUL = CHR 0x00"

definition envKey :: "string \<Rightarrow> bool" where
  "envKey k = (case k of [] \<Rightarrow> False
     | c # cs \<Rightarrow> is_alpha_us c \<and> list_all (\<lambda>d. is_alpha_us d \<or> is_digit d) cs)"

datatype validation_error = NameOrKeyBytes | CommandRequired | CommandContainsNUL
  | ResourcesRequired | LimitsRequired | BadEnvironment | BadArtifactPrefix

definition env_entry_ok :: "string \<times> string \<Rightarrow> bool" where
  "env_entry_ok kv \<longleftrightarrow> envKey (fst kv) \<and> NUL \<notin> set (snd kv) \<and> \<not> prefix ''RUNGRID_'' (fst kv)"

text \<open>A Go map may be nil, which JSON spells \<open>null\<close>; ranging over it is ranging over an empty map.\<close>

definition env_of :: "job \<Rightarrow> (string \<times> string) list" where
  "env_of j = (case Environment j of None \<Rightarrow> [] | Some m \<Rightarrow> m)"

definition Validate :: "job \<Rightarrow> validation_error option" where
  "Validate j =
    (if Name j = [] \<or> length (Name j) > 256 \<or> IdempotencyKey j = [] \<or> length (IdempotencyKey j) > 256
       then Some NameOrKeyBytes
     else if Command j = [] \<or> hd (Command j) = [] \<or> length (Command j) > 1024 then Some CommandRequired
     else if list_ex (\<lambda>a. NUL \<in> set a) (Command j) then Some CommandContainsNUL
     else if \<not> Valid (Resources j) \<or> CPU (Resources j) < 1 \<or> MemoryMB (Resources j) < 1
       then Some ResourcesRequired
     else if MaxAttempts j < 1 \<or> MaxAttempts j > 100 \<or> TimeoutSeconds j < 1 \<or> TimeoutSeconds j > 604800
       then Some LimitsRequired
     else if \<not> list_all env_entry_ok (env_of j) then Some BadEnvironment
     else if prefix ''/'' (ArtifactPrefix j) \<or> contains ''..'' (ArtifactPrefix j)
         \<or> length (ArtifactPrefix j) > 512 then Some BadArtifactPrefix
     else None)"

section \<open>Identifiers\<close>

definition hex_digit :: "nat \<Rightarrow> char" where
  "hex_digit n = ''0123456789abcdef'' ! (n mod 16)"

definition hex_byte :: "8 word \<Rightarrow> string" where
  "hex_byte b = [hex_digit (unat b div 16), hex_digit (unat b)]"

definition hex :: "8 word list \<Rightarrow> string" where
  "hex bs = concat (map hex_byte bs)"

text \<open>\<open>ID\<close> of the sixteen random bytes \<open>b\<close>: the version and variant bits are forced, then
  the bytes are printed in lower case hexadecimal, grouped 4-2-2-2-6.\<close>

definition ID :: "8 word list \<Rightarrow> string" where
  "ID b = (let b = b[6 := ((b ! 6) AND 15) OR 64]; b = b[8 := ((b ! 8) AND 63) OR 128] in
     hex (take 4 b) @ ''-'' @ hex (take 2 (drop 4 b)) @ ''-'' @ hex (take 2 (drop 6 b)) @ ''-'' @
     hex (take 2 (drop 8 b)) @ ''-'' @ hex (drop 10 b))"

definition is_lower_hex :: "char \<Rightarrow> bool" where
  "is_lower_hex c \<longleftrightarrow> c \<in> set ''0123456789abcdef''"

definition is_hex :: "char \<Rightarrow> bool" where
  "is_hex c \<longleftrightarrow> c \<in> set ''0123456789abcdefABCDEF''"

text \<open>The patterns \<open>^[a-fA-F0-9]{8}-...{4}-...{4}-...{4}-...{12}$\<close> and \<open>^[a-f0-9]{64}$\<close>.\<close>

definition idPattern :: "string \<Rightarrow> bool" where
  "idPattern s \<longleftrightarrow> length s = 36 \<and>
     list_all is_hex (take 8 s) \<and> s ! 8 = CHR ''-'' \<and>
     list_all is_hex (take 4 (drop 9 s)) \<and> s ! 13 = CHR ''-'' \<and>
     list_all is_hex (take 4 (drop 14 s)) \<and> s ! 18 = CHR ''-'' \<and>
     list_all is_hex (take 4 (drop 19 s)) \<and> s ! 23 = CHR ''-'' \<and>
     list_all is_hex (drop 24 s)"

text \<open>The \<open>uuid\<close> type reads hexadecimal digits in either case and prints them in lower case.\<close>

definition lower_hex :: "char \<Rightarrow> char" where
  "lower_hex c = (if CHR ''A'' \<le> c \<and> c \<le> CHR ''F'' then char_of (of_char c + 32 :: nat) else c)"

definition uuid_value :: "string \<Rightarrow> string" where
  "uuid_value s = map lower_hex s"

definition checksumPattern :: "string \<Rightarrow> bool" where
  "checksumPattern s \<longleftrightarrow> length s = 64 \<and> list_all is_lower_hex s"

section \<open>Retries\<close>

datatype job_state = QUEUED | LEASED | RUNNING | SUCCEEDED | FAILED | CANCELLED

definition RetryState :: "int \<Rightarrow> int \<Rightarrow> job_state" where
  "RetryState number max_attempts = (if number < max_attempts then QUEUED else FAILED)"

section \<open>Lemmas\<close>

lemma Validate_None:
  assumes "Validate j = None"
  shows "Valid (Resources j)" "1 \<le> CPU (Resources j)" "1 \<le> MemoryMB (Resources j)"
    "1 \<le> MaxAttempts j" "1 \<le> TimeoutSeconds j" "list_all env_entry_ok (env_of j)"
    "\<not> contains ''..'' (ArtifactPrefix j)"
  using assms by (auto simp: Validate_def split: if_splits)

lemma hex_digit_lower: "is_lower_hex (hex_digit n)"
proof -
  have "n mod 16 < length ''0123456789abcdef''" by simp
  then show ?thesis unfolding hex_digit_def is_lower_hex_def by (rule nth_mem)
qed

lemma lower_hex_is_hex: "is_lower_hex c \<Longrightarrow> is_hex c"
  by (auto simp: is_lower_hex_def is_hex_def)

lemma hex_length [simp]: "length (hex bs) = 2 * length bs"
  by (induction bs) (simp_all add: hex_def hex_byte_def)

lemma hex_lower: "list_all is_lower_hex (hex bs)"
  by (induction bs) (simp_all add: hex_def hex_byte_def hex_digit_lower)

lemma hex_hex: "list_all is_hex (hex bs)"
  using hex_lower [of bs] lower_hex_is_hex by (auto simp: list_all_iff)

lemma idPattern_groups:
  assumes "length a = 8" "length b = 4" "length c = 4" "length d = 4" "length e = 12"
    and "list_all is_hex a" "list_all is_hex b" "list_all is_hex c" "list_all is_hex d" "list_all is_hex e"
  shows "idPattern (a @ ''-'' @ b @ ''-'' @ c @ ''-'' @ d @ ''-'' @ e)"
  using assms by (simp add: idPattern_def nth_append)

lemma ID_idPattern: "length b = 16 \<Longrightarrow> idPattern (ID b)"
  unfolding ID_def Let_def by (rule idPattern_groups) (simp_all add: hex_hex)

lemma is_hex_not_dot: "is_hex c \<Longrightarrow> c \<noteq> CHR ''.'' \<and> c \<noteq> CHR ''/''"
  by (auto simp: is_hex_def)

end
