(* ===== verification/Store.thy ===== *)
theory Store
  imports Scheduler_Model
begin

text \<open>
  The control plane's state and its transactions: the tables of \<open>migrations/001_initial.sql\<close> and
  the operations of \<open>internal/store/store.go\<close>, \<open>workers.go\<close> and \<open>reaper.go\<close>.

  A table is the list of its rows in insertion order. A transaction is a function from the
  database to an error or a response with the new database; an error rolls back, so the caller
  keeps the old database (\<open>committed\<close>). Row locks make transactions that touch the same rows
  serial, so a history is a sequence of transactions; \<open>FOR UPDATE SKIP LOCKED\<close> is the one place
  where another open transaction is visible, and \<open>Locked\<close> says which job rows it holds.
  \<open>Clk i\<close> is the i-th \<open>clock_timestamp()\<close> of the transaction, \<open>Ids i\<close> its i-th \<open>scheduler.ID()\<close>,
  and \<open>Hash\<close> the hexadecimal SHA-256 of a marshalled payload.
\<close>

section \<open>Tables\<close>

datatype store_error = ErrConflict | ErrNotFound | ErrInvalid | ErrDB

datatype attempt_state = A_LEASED | A_RUNNING | A_SUCCEEDED | A_FAILED | A_EXPIRED | A_CANCELLED

datatype worker_state = ACTIVE | DRAINING

record artifact =
  ObjectKey :: string
  ContentType :: string
  SizeBytes :: int
  Checksum :: string
  Kind :: string

record request =
  RequestID :: string
  WorkerID :: string
  SessionID :: string
  AttemptID :: string
  LeaseToken :: string
  Hostname :: string
  ReqResources :: resources
  ExitCode :: int
  Reason :: string
  Logs :: "string list"
  Artifacts :: "artifact list"

record job_row =
  j_id :: string
  j_key :: string
  j_def :: job
  j_state :: job_state
  j_res :: resources
  j_max :: int
  j_created :: real
  j_updated :: real

record worker_row =
  w_id :: string
  w_session :: string
  w_hostname :: string
  w_res :: resources
  w_state :: worker_state
  w_registered :: real
  w_heartbeat :: real

record attempt_row =
  a_id :: string
  a_job :: string
  a_number :: int
  a_worker :: string
  a_state :: attempt_state
  a_token :: string
  a_expires :: real
  a_deadline :: real
  a_created :: real
  a_started :: "real option"
  a_finished :: "real option"
  a_exit :: "int option"
  a_reason :: "string option"

record artifact_row =
  art_id :: string
  art_job :: string
  art_attempt :: string
  art :: artifact
  art_created :: real

datatype event_payload = EP_Submitted
  | EP_Action string
  | EP_Leased string string int
  | EP_Attempt string string "string list" string int
  | EP_Expired

record event_row =
  e_job :: string
  e_attempt :: "string option"
  e_type :: string
  e_payload :: event_payload
  e_created :: real

record lease =
  l_job :: job_row
  l_attempt :: string
  l_number :: int
  l_token :: string
  l_expires :: real
  l_server :: real
  l_checkpoint :: "artifact option"

datatype response = R_Registered | R_Released | R_Alive | R_Idle | R_Lease lease
  | R_Heartbeat real real | R_Accepted | R_Job job_row

record request_row =
  rq_scope :: string
  rq_id :: string
  rq_hash :: string
  rq_response :: "response option"

record db =
  jobs :: "job_row list"
  workers :: "worker_row list"
  attempts :: "attempt_row list"
  artifacts :: "artifact_row list"
  events :: "event_row list"
  requests :: "request_row list"

datatype payload = P_Request request | P_String string

record txenv =
  Hash :: "payload \<Rightarrow> string"
  LeaseSeconds :: int
  Locked :: "string \<Rightarrow> bool"
  Ids :: "nat \<Rightarrow> string"
  Clk :: "nat \<Rightarrow> real"

type_synonym 'r tx = "db \<Rightarrow> store_error + ('r \<times> db)"

definition empty_db :: db where
  "empty_db = \<lparr>jobs = [], workers = [], attempts = [], artifacts = [], events = [], requests = []\<rparr>"

definition committed :: "'r tx \<Rightarrow> db \<Rightarrow> db" where
  "committed t d = (case t d of Inl e \<Rightarrow> d | Inr (r, d') \<Rightarrow> d')"

section \<open>Rows\<close>

definition active :: "attempt_state \<Rightarrow> bool" where
  "active s \<longleftrightarrow> s = A_LEASED \<or> s = A_RUNNING"

definition get_job :: "string \<Rightarrow> db \<Rightarrow> job_row option" where
  "get_job i d = lookup_by j_id i (jobs d)"

definition get_attempt :: "string \<Rightarrow> db \<Rightarrow> attempt_row option" where
  "get_attempt i d = lookup_by a_id i (attempts d)"

definition get_worker :: "string \<Rightarrow> db \<Rightarrow> worker_row option" where
  "get_worker i d = lookup_by w_id i (workers d)"

definition set_job :: "string \<Rightarrow> (job_row \<Rightarrow> job_row) \<Rightarrow> db \<Rightarrow> db" where
  "set_job i f d = d\<lparr>jobs := update_where (\<lambda>j. j_id j = i) f (jobs d)\<rparr>"

definition set_attempts :: "(attempt_row \<Rightarrow> bool) \<Rightarrow> (attempt_row \<Rightarrow> attempt_row) \<Rightarrow> db \<Rightarrow> db" where
  "set_attempts p f d = d\<lparr>attempts := update_where p f (attempts d)\<rparr>"

definition set_worker :: "string \<Rightarrow> (worker_row \<Rightarrow> worker_row) \<Rightarrow> db \<Rightarrow> db" where
  "set_worker i f d = d\<lparr>workers := update_where (\<lambda>w. w_id w = i) f (workers d)\<rparr>"

definition event :: "string \<Rightarrow> string option \<Rightarrow> string \<Rightarrow> event_payload \<Rightarrow> real \<Rightarrow> db \<Rightarrow> db" where
  "event jid aid kind p now d = d\<lparr>events := events d @
     [\<lparr>e_job = jid, e_attempt = aid, e_type = kind, e_payload = p, e_created = now\<rparr>]\<rparr>"

definition attempts_of :: "string \<Rightarrow> db \<Rightarrow> attempt_row list" where
  "attempts_of jid d = filter (\<lambda>a. a_job a = jid) (attempts d)"

section \<open>Submission\<close>

text \<open>PostgreSQL stores no NUL character, neither in \<open>text\<close> nor in \<open>jsonb\<close>.\<close>

definition pg_text :: "string \<Rightarrow> bool" where
  "pg_text s \<longleftrightarrow> NUL \<notin> set s"

definition job_text :: "job \<Rightarrow> bool" where
  "job_text j \<longleftrightarrow> pg_text (Name j) \<and> pg_text (ArtifactPrefix j)"

text \<open>\<open>INSERT ... ON CONFLICT(idempotency_key) DO NOTHING\<close>; the flag is \<open>RowsAffected() > 0\<close>.\<close>

definition insert_job :: "string \<Rightarrow> job \<Rightarrow> real \<Rightarrow> db \<Rightarrow> store_error + (bool \<times> db)" where
  "insert_job i j now d =
    (if \<not> job_text j then Inl ErrDB
     else if IdempotencyKey j \<in> j_key ` set (jobs d) then Inr (False, d)
     else if i \<in> j_id ` set (jobs d) then Inl ErrDB
     else Inr (True, d\<lparr>jobs := jobs d @
       [\<lparr>j_id = i, j_key = IdempotencyKey j, j_def = j, j_state = QUEUED, j_res = Resources j,
         j_max = MaxAttempts j, j_created = now, j_updated = now\<rparr>]\<rparr>))"

definition submit_one :: "string \<Rightarrow> real \<Rightarrow> job \<Rightarrow> job_row tx" where
  "submit_one i now j d =
    bindR (insert_job i j now d) (\<lambda>(inserted, d).
      case lookup_by j_key (IdempotencyKey j) (jobs d) of
        None \<Rightarrow> Inl ErrNotFound
      | Some row \<Rightarrow>
          if j_def row \<noteq> j then Inl ErrConflict
          else Inr (row, if inserted then event i None ''SUBMITTED'' EP_Submitted now d else d))"

fun submit_loop :: "txenv \<Rightarrow> nat \<Rightarrow> job list \<Rightarrow> job_row list tx" where
  "submit_loop e n [] d = Inr ([], d)"
| "submit_loop e n (j # js) d =
     bindR (submit_one (Ids e n) (Clk e n) j d) (\<lambda>(row, d).
       bindR (submit_loop e (Suc n) js d) (\<lambda>(rows, d). Inr (row # rows, d)))"

definition Submit :: "txenv \<Rightarrow> job list \<Rightarrow> job_row list tx" where
  "Submit e js d =
    (if length js < 1 \<or> length js > 1000 then Inl ErrInvalid
     else if list_ex (\<lambda>j. Validate j \<noteq> None) js then Inl ErrInvalid
     else if \<not> list_all (\<lambda>j. pg_text (IdempotencyKey j)) js then Inl ErrDB
     else submit_loop e 0 js d)"

section \<open>Durable request receipts\<close>

definition receipt_key :: "request_row \<Rightarrow> string \<times> string" where
  "receipt_key q = (rq_scope q, rq_id q)"

definition Mutate :: "string \<Rightarrow> string \<Rightarrow> string \<Rightarrow> response tx \<Rightarrow> response tx" where
  "Mutate scope i hash fn d =
    (if i = [] \<or> length i > 256 then Inl ErrInvalid
     else
       let d = (if (scope, i) \<in> receipt_key ` set (requests d) then d
                else d\<lparr>requests := requests d @
                  [\<lparr>rq_scope = scope, rq_id = i, rq_hash = hash, rq_response = None\<rparr>]\<rparr>) in
       (case lookup_by receipt_key (scope, i) (requests d) of
          None \<Rightarrow> Inl ErrDB
        | Some q \<Rightarrow>
            if rq_hash q \<noteq> hash then Inl ErrConflict
            else (case rq_response q of
                Some r \<Rightarrow> Inr (r, d)
              | None \<Rightarrow> bindR (fn d) (\<lambda>(r, d). Inr (r, d\<lparr>requests :=
                  update_where (\<lambda>q. receipt_key q = (scope, i)) (\<lambda>q. q\<lparr>rq_response := Some r\<rparr>)
                    (requests d)\<rparr>)))))"

section \<open>Client actions\<close>

datatype action = Cancel | Retry

fun action_name :: "action \<Rightarrow> string" where
  "action_name Cancel = ''cancel''"
| "action_name Retry = ''retry''"

definition finish_action :: "txenv \<Rightarrow> string \<Rightarrow> action \<Rightarrow> string \<Rightarrow> job_state \<Rightarrow> int \<Rightarrow> response tx" where
  "finish_action e i act rid st mx d =
    (let d = set_job i (\<lambda>j. j\<lparr>j_state := st, j_max := mx, j_updated := Clk e 1\<rparr>) d;
         d = event i None (action_name act) (EP_Action rid) (Clk e 2) d in
     case get_job i d of None \<Rightarrow> Inl ErrNotFound | Some j \<Rightarrow> Inr (R_Job j, d))"

definition action_tx :: "txenv \<Rightarrow> string \<Rightarrow> action \<Rightarrow> string \<Rightarrow> response tx" where
  "action_tx e i act rid d =
    (case get_job i d of None \<Rightarrow> Inl ErrNotFound
     | Some j \<Rightarrow>
        (case act of
           Cancel \<Rightarrow>
             if j_state j = SUCCEEDED \<or> j_state j = FAILED then Inl ErrConflict
             else finish_action e i act rid CANCELLED (j_max j)
               (if j_state j \<noteq> CANCELLED
                then set_attempts (\<lambda>a. a_job a = i \<and> active (a_state a))
                       (\<lambda>a. a\<lparr>a_state := A_CANCELLED, a_finished := Some (Clk e 0),
                              a_reason := Some ''cancelled''\<rparr>) d
                else d)
         | Retry \<Rightarrow>
             if j_state j \<noteq> FAILED then Inl ErrConflict
             else finish_action e i act rid QUEUED (j_max j + 1) d))"

definition Action :: "txenv \<Rightarrow> string \<Rightarrow> action \<Rightarrow> string \<Rightarrow> response tx" where
  "Action e i act rid =
     Mutate (''job:'' @ action_name act) rid (Hash e (P_String i)) (action_tx e (uuid_value i) act rid)"

section \<open>Placement\<close>

definition add_res :: "resources \<Rightarrow> resources \<Rightarrow> resources" where
  "add_res a b = \<lparr>CPU = CPU a + CPU b, MemoryMB = MemoryMB a + MemoryMB b, GPU = GPU a + GPU b\<rparr>"

definition sub_res :: "resources \<Rightarrow> resources \<Rightarrow> resources" where
  "sub_res a b = \<lparr>CPU = CPU a - CPU b, MemoryMB = MemoryMB a - MemoryMB b, GPU = GPU a - GPU b\<rparr>"

definition zero_res :: resources where
  "zero_res = \<lparr>CPU = 0, MemoryMB = 0, GPU = 0\<rparr>"

text \<open>The reservation of an attempt is its job's resource columns (the inner join with \<open>jobs\<close>).\<close>

definition reservation :: "db \<Rightarrow> attempt_row \<Rightarrow> resources" where
  "reservation d a = (case get_job (a_job a) d of None \<Rightarrow> zero_res | Some j \<Rightarrow> j_res j)"

definition used :: "string \<Rightarrow> db \<Rightarrow> resources" where
  "used wid d = foldr (\<lambda>a. add_res (reservation d a))
     (filter (\<lambda>a. a_worker a = wid \<and> active (a_state a)) (attempts d)) zero_res"

definition res_le :: "resources \<Rightarrow> resources \<Rightarrow> bool" where
  "res_le a b \<longleftrightarrow> CPU a \<le> CPU b \<and> MemoryMB a \<le> MemoryMB b \<and> GPU a \<le> GPU b"

definition older :: "job_row \<Rightarrow> job_row \<Rightarrow> bool" where
  "older a b \<longleftrightarrow> j_created a < j_created b \<or> (j_created a = j_created b \<and> j_id a \<le> j_id b)"

fun oldest :: "job_row list \<Rightarrow> job_row option" where
  "oldest [] = None"
| "oldest (j # js) = (case oldest js of None \<Rightarrow> Some j | Some k \<Rightarrow> Some (if older j k then j else k))"

definition compatible :: "txenv \<Rightarrow> resources \<Rightarrow> job_row \<Rightarrow> bool" where
  "compatible e avail j \<longleftrightarrow> j_state j = QUEUED \<and> res_le (j_res j) avail \<and> \<not> Locked e (j_id j)"

definition newer_artifact :: "artifact_row \<Rightarrow> artifact_row \<Rightarrow> bool" where
  "newer_artifact a b \<longleftrightarrow> art_created a > art_created b \<or> (art_created a = art_created b \<and> art_id a \<ge> art_id b)"

fun newest :: "artifact_row list \<Rightarrow> artifact_row option" where
  "newest [] = None"
| "newest (a # as) = (case newest as of None \<Rightarrow> Some a | Some b \<Rightarrow> Some (if newer_artifact a b then a else b))"

definition latest_checkpoint :: "string \<Rightarrow> db \<Rightarrow> artifact option" where
  "latest_checkpoint jid d =
     map_option art (newest (filter (\<lambda>a. art_job a = jid \<and> Kind (art a) = ''checkpoint'') (artifacts d)))"

text \<open>\<open>coalesce(max(attempt_number),0)+1\<close>, and the insertion with the table's keys: the primary
  key, \<open>UNIQUE(job_id,attempt_number)\<close> and the partial index \<open>one_active_attempt\<close>.\<close>

definition next_number :: "string \<Rightarrow> db \<Rightarrow> int" where
  "next_number jid d = foldr max (map a_number (attempts_of jid d)) 0 + 1"

definition insert_attempt :: "attempt_row \<Rightarrow> db \<Rightarrow> store_error + db" where
  "insert_attempt a d =
    (if a_id a \<in> a_id ` set (attempts d)
        \<or> list_ex (\<lambda>b. a_number b = a_number a \<or> (active (a_state b) \<and> active (a_state a)))
            (attempts_of (a_job a) d)
        \<or> get_job (a_job a) d = None \<or> get_worker (a_worker a) d = None
     then Inl ErrDB else Inr (d\<lparr>attempts := attempts d @ [a]\<rparr>))"

definition leased_attempt :: "txenv \<Rightarrow> request \<Rightarrow> job_row \<Rightarrow> db \<Rightarrow> attempt_row" where
  "leased_attempt e r j d =
    (let timeout = real_of_int (TimeoutSeconds (j_def j)) in
     \<lparr>a_id = Ids e 0, a_job = j_id j, a_number = next_number (j_id j) d, a_worker = WorkerID r,
      a_state = A_LEASED, a_token = Ids e 1,
      a_expires = Clk e 2 + min (real_of_int (LeaseSeconds e)) timeout,
      a_deadline = Clk e 3 + timeout, a_created = Clk e 1, a_started = None,
      a_finished = None, a_exit = None, a_reason = None\<rparr>)"

definition lease_tx :: "txenv \<Rightarrow> request \<Rightarrow> resources \<Rightarrow> response tx" where
  "lease_tx e r cap d =
    (case oldest (filter (compatible e (sub_res cap (used (WorkerID r) d))) (jobs d)) of
       None \<Rightarrow> Inr (R_Idle, d)
     | Some j \<Rightarrow>
       let a = leased_attempt e r j d in
       bindR (insert_attempt a d) (\<lambda>d.
         if a_number a > j_max j then Inl ErrDB
         else
           let d = set_job (j_id j) (\<lambda>j. j\<lparr>j_state := LEASED, j_updated := Clk e 5\<rparr>) d;
               l = \<lparr>l_job = j\<lparr>j_state := LEASED\<rparr>, l_attempt = a_id a, l_number = a_number a,
                    l_token = a_token a, l_expires = a_expires a, l_server = Clk e 4,
                    l_checkpoint = latest_checkpoint (j_id j) d\<rparr> in
           Inr (R_Lease l, event (j_id j) (Some (a_id a)) ''LEASED''
                  (EP_Leased (RequestID r) (WorkerID r) (a_number a)) (Clk e 6) d)))"

section \<open>Attempt mutations\<close>

datatype rpc_method = RegisterWorker | LeaseJob | StartAttempt | Heartbeat | ReportProgress
  | CompleteAttempt | FailAttempt | ReleaseWorker

fun method_name :: "rpc_method \<Rightarrow> string" where
  "method_name RegisterWorker = ''RegisterWorker''"
| "method_name LeaseJob = ''LeaseJob''"
| "method_name StartAttempt = ''StartAttempt''"
| "method_name Heartbeat = ''Heartbeat''"
| "method_name ReportProgress = ''ReportProgress''"
| "method_name CompleteAttempt = ''CompleteAttempt''"
| "method_name FailAttempt = ''FailAttempt''"
| "method_name ReleaseWorker = ''ReleaseWorker''"

definition fence :: "txenv \<Rightarrow> request \<Rightarrow> job_row \<Rightarrow> attempt_row \<Rightarrow> bool" where
  "fence e r j a \<longleftrightarrow> a_worker a = WorkerID r \<and> a_token a = LeaseToken r
     \<and> a_expires a > Clk e 1 \<and> a_deadline a > Clk e 2
     \<and> (j_state j = LEASED \<or> j_state j = RUNNING) \<and> active (a_state a)"

definition key_prefix :: "job_row \<Rightarrow> string \<Rightarrow> string" where
  "key_prefix j aid =
    (let p = strip is_slash (ArtifactPrefix (j_def j)) in
     (if p \<noteq> '''' then p @ ''/'' else p) @ j_id j @ ''/'' @ aid @ ''/'')"

definition artifact_ok :: "job_row \<Rightarrow> string \<Rightarrow> artifact \<Rightarrow> bool" where
  "artifact_ok j aid a \<longleftrightarrow> prefix (key_prefix j aid) (ObjectKey a) \<and> \<not> contains ''..'' (ObjectKey a)
     \<and> checksumPattern (Checksum a) \<and> SizeBytes a \<ge> 0 \<and> Kind a \<in> {''checkpoint'', ''output'', ''log''}"

fun record_artifacts :: "txenv \<Rightarrow> nat \<Rightarrow> job_row \<Rightarrow> string \<Rightarrow> artifact list \<Rightarrow> db \<Rightarrow> store_error + db" where
  "record_artifacts e n j aid [] d = Inr d"
| "record_artifacts e n j aid (a # as) d =
    (if \<not> artifact_ok j aid a then Inl ErrInvalid
     else case find (\<lambda>x. ObjectKey (art x) = ObjectKey a) (artifacts d) of
       Some x \<Rightarrow> if art x \<noteq> a then Inl ErrConflict else record_artifacts e n j aid as d
     | None \<Rightarrow>
         if Ids e n \<in> art_id ` set (artifacts d) then Inl ErrDB
         else record_artifacts e (Suc n) j aid as (d\<lparr>artifacts := artifacts d @
           [\<lparr>art_id = Ids e n, art_job = j_id j, art_attempt = aid, art = a, art_created = Clk e (10 + n)\<rparr>]\<rparr>))"

definition attempt_event :: "txenv \<Rightarrow> rpc_method \<Rightarrow> request \<Rightarrow> string \<Rightarrow> db \<Rightarrow> db" where
  "attempt_event e m r jid d = event jid (Some (AttemptID r)) (method_name m)
     (EP_Attempt (RequestID r) (WorkerID r) (Logs r) (Reason r) (ExitCode r)) (Clk e 6) d"

definition event_text :: "request \<Rightarrow> bool" where
  "event_text r \<longleftrightarrow> list_all pg_text (Logs r) \<and> pg_text (Reason r)"

definition heartbeat_tx :: "txenv \<Rightarrow> request \<Rightarrow> attempt_row \<Rightarrow> response tx" where
  "heartbeat_tx e r a d =
    (let expires = min (a_deadline a) (Clk e 3 + real_of_int (LeaseSeconds e)) in
     Inr (R_Heartbeat expires (Clk e 4),
          set_attempts (\<lambda>b. a_id b = AttemptID r) (\<lambda>b. b\<lparr>a_expires := expires\<rparr>) d))"

definition start_tx :: "txenv \<Rightarrow> request \<Rightarrow> job_row \<Rightarrow> attempt_row \<Rightarrow> response tx" where
  "start_tx e r j a d =
    (let d = (if a_state a = A_LEASED
              then set_job (j_id j) (\<lambda>j. j\<lparr>j_state := RUNNING, j_updated := Clk e 4\<rparr>)
                     (set_attempts (\<lambda>b. a_id b = AttemptID r)
                       (\<lambda>b. b\<lparr>a_state := A_RUNNING, a_started := Some (Clk e 3)\<rparr>) d)
              else d) in
     if event_text r then Inr (R_Accepted, attempt_event e StartAttempt r (j_id j) d) else Inl ErrDB)"

definition finish_attempt :: "txenv \<Rightarrow> request \<Rightarrow> job_row \<Rightarrow> attempt_state \<Rightarrow> job_state \<Rightarrow> db \<Rightarrow> db" where
  "finish_attempt e r j ast jst d =
     set_job (j_id j) (\<lambda>j. j\<lparr>j_state := jst, j_updated := Clk e 4\<rparr>)
       (set_attempts (\<lambda>b. a_id b = AttemptID r)
         (\<lambda>b. b\<lparr>a_state := ast, a_finished := Some (Clk e 3), a_exit := Some (ExitCode r),
                a_reason := Some (Reason r)\<rparr>) d)"

definition report_tx :: "txenv \<Rightarrow> rpc_method \<Rightarrow> request \<Rightarrow> job_row \<Rightarrow> attempt_row \<Rightarrow> response tx" where
  "report_tx e m r j a d =
    (if a_state a \<noteq> A_RUNNING then Inl ErrConflict
     else if length (Logs r) > 100 \<or> length (Artifacts r) > 100 \<or> length (Reason r) > 8192 then Inl ErrInvalid
     else if list_ex (\<lambda>line. length line > 16384) (Logs r) then Inl ErrInvalid
     else bindR (record_artifacts e 0 j (AttemptID r) (Artifacts r) d) (\<lambda>d.
       if m = CompleteAttempt \<and> ExitCode r \<noteq> 0 then Inl ErrInvalid
       else
         let d = (if m = CompleteAttempt then finish_attempt e r j A_SUCCEEDED SUCCEEDED d
                  else if m = FailAttempt
                    then finish_attempt e r j A_FAILED (RetryState (a_number a) (j_max j)) d
                  else d) in
         if event_text r then Inr (R_Accepted, attempt_event e m r (j_id j) d) else Inl ErrDB))"

definition attempt_tx :: "txenv \<Rightarrow> rpc_method \<Rightarrow> request \<Rightarrow> response tx" where
  "attempt_tx e m r d =
    (if \<not> idPattern (AttemptID r) \<or> \<not> idPattern (LeaseToken r) then Inl ErrInvalid
     else case get_attempt (AttemptID r) d of None \<Rightarrow> Inl ErrNotFound
     | Some a \<Rightarrow> (case get_job (a_job a) d of None \<Rightarrow> Inl ErrNotFound
       | Some j \<Rightarrow>
           if \<not> fence e r j a then Inl ErrConflict
           else if m = Heartbeat then heartbeat_tx e r a d
           else if m = StartAttempt then start_tx e r j a d
           else report_tx e m r j a d))"

section \<open>Worker requests\<close>

definition register_tx :: "txenv \<Rightarrow> request \<Rightarrow> response tx" where
  "register_tx e r d =
    (if \<not> Valid (ReqResources r) \<or> CPU (ReqResources r) < 1 \<or> MemoryMB (ReqResources r) < 1 then Inl ErrInvalid
     else
       let d = (if WorkerID r \<in> w_id ` set (workers d) then d
                else d\<lparr>workers := workers d @
                  [\<lparr>w_id = WorkerID r, w_session = SessionID r, w_hostname = Hostname r,
                    w_res = ReqResources r, w_state = ACTIVE, w_registered = Clk e 0, w_heartbeat = Clk e 0\<rparr>]\<rparr>) in
       (case get_worker (WorkerID r) d of None \<Rightarrow> Inl ErrDB
        | Some w \<Rightarrow> if w_session w \<noteq> SessionID r \<or> w_res w \<noteq> ReqResources r then Inl ErrConflict
                    else Inr (R_Registered, d)))"

definition worker_tx :: "txenv \<Rightarrow> rpc_method \<Rightarrow> request \<Rightarrow> response tx" where
  "worker_tx e m r d =
    (if m = RegisterWorker then register_tx e r d
     else case get_worker (WorkerID r) d of None \<Rightarrow> Inl ErrNotFound
     | Some w \<Rightarrow>
         if w_session w \<noteq> SessionID r then Inl ErrConflict
         else
           let d = set_worker (WorkerID r) (\<lambda>w. w\<lparr>w_heartbeat := Clk e 0\<rparr>) d in
           if m = LeaseJob then
             (if w_state w \<noteq> ACTIVE then Inl ErrConflict else lease_tx e r (w_res w) d)
           else if m = ReleaseWorker then
             Inr (R_Released, set_worker (WorkerID r) (\<lambda>w. w\<lparr>w_state := DRAINING\<rparr>) d)
           else if m = Heartbeat \<and> AttemptID r = '''' then Inr (R_Alive, d)
           else attempt_tx e m r d)"

definition RPC :: "txenv \<Rightarrow> rpc_method \<Rightarrow> request \<Rightarrow> response tx" where
  "RPC e m r d =
    (if WorkerID r = '''' \<or> SessionID r = '''' \<or> length (WorkerID r) > 256 \<or> length (SessionID r) > 256
     then Inl ErrInvalid
     else Mutate (''rpc:'' @ method_name m @ '':'' @ WorkerID r) (RequestID r)
            (Hash e (P_Request r)) (worker_tx e m r) d)"

section \<open>Expiry\<close>

definition expired :: "real \<Rightarrow> attempt_row \<Rightarrow> bool" where
  "expired now a \<longleftrightarrow> active (a_state a) \<and> a_expires a \<le> now"

definition reap_candidates :: "txenv \<Rightarrow> db \<Rightarrow> string list" where
  "reap_candidates e d = take 100 (sort (map j_id (filter (\<lambda>j. (j_state j = LEASED \<or> j_state j = RUNNING)
      \<and> list_ex (expired (Clk e 0)) (attempts_of (j_id j) d) \<and> \<not> Locked e (j_id j)) (jobs d))))"

definition reap_one :: "txenv \<Rightarrow> nat \<Rightarrow> string \<Rightarrow> db \<Rightarrow> (nat \<times> db)" where
  "reap_one e n i d =
    (case (find (expired (Clk e (4 * n + 1))) (attempts_of i d), get_job i d) of
       (Some a, Some j) \<Rightarrow>
         (1, event i (Some (a_id a)) ''LEASE_EXPIRED'' EP_Expired (Clk e (4 * n + 4))
            (set_job i (\<lambda>k. k\<lparr>j_state := RetryState (a_number a) (j_max j), j_updated := Clk e (4 * n + 3)\<rparr>)
              (set_attempts (\<lambda>b. a_id b = a_id a)
                (\<lambda>b. b\<lparr>a_state := A_EXPIRED, a_finished := Some (Clk e (4 * n + 2)),
                       a_reason := Some ''lease or attempt deadline expired''\<rparr>) d)))
     | _ \<Rightarrow> (0, d))"

fun reap_loop :: "txenv \<Rightarrow> nat \<Rightarrow> string list \<Rightarrow> db \<Rightarrow> (nat \<times> db)" where
  "reap_loop e n [] d = (0, d)"
| "reap_loop e n (i # is) d =
    (let (k, d1) = reap_one e n i d; (m, d2) = reap_loop e (Suc n) is d1 in (k + m, d2))"

definition Reap :: "txenv \<Rightarrow> nat tx" where
  "Reap e d = Inr (reap_loop e 0 (reap_candidates e d) d)"

section \<open>Histories\<close>

text \<open>Every transaction that writes, as an operation with its own environment.\<close>

datatype op = Op_Submit txenv "job list" | Op_Action txenv string action string
  | Op_RPC txenv rpc_method request | Op_Reap txenv

fun exec :: "op \<Rightarrow> db \<Rightarrow> db" where
  "exec (Op_Submit e js) d = committed (Submit e js) d"
| "exec (Op_Action e i act rid) d = committed (Action e i act rid) d"
| "exec (Op_RPC e m r) d = committed (RPC e m r) d"
| "exec (Op_Reap e) d = committed (Reap e) d"

fun op_env :: "op \<Rightarrow> txenv" where
  "op_env (Op_Submit e js) = e"
| "op_env (Op_Action e i act rid) = e"
| "op_env (Op_RPC e m r) = e"
| "op_env (Op_Reap e) = e"

text \<open>The database clock does not run backwards inside a transaction, and \<open>Open\<close> refuses a lease
  shorter than two seconds.\<close>

definition env_ok :: "txenv \<Rightarrow> bool" where
  "env_ok e \<longleftrightarrow> mono (Clk e) \<and> LeaseSeconds e \<ge> 2"

inductive reachable :: "db \<Rightarrow> bool" where
  reach_init: "reachable empty_db"
| reach_step: "reachable d \<Longrightarrow> env_ok (op_env p) \<Longrightarrow> reachable (exec p d)"

end
