(* ===== verification/Store_Inv.thy ===== *)
theory Store_Inv
  imports Store
begin

text \<open>
  The invariant of the control plane's tables and its preservation. Each job is a state machine
  driven by the list of its attempts: \<open>job_ok\<close> says that attempts are numbered 1, 2, 3, ..., that
  only the last one can be active or successful, that its state agrees with the job's state, and
  that the attempt budget is respected. The locale \<open>step_invariant\<close> is the contract a predicate
  on databases has to meet to survive every transaction; it is interpreted for the table
  invariant here and for the frame properties of theory \<open>Store_Props\<close>.
\<close>

section \<open>Contract: predicates kept by every transaction\<close>

locale step_invariant =
  fixes I :: "db \<Rightarrow> bool"
  assumes keeps_requests: "I (d\<lparr>requests := q\<rparr>) = I d"
    and keeps_submit: "I d \<Longrightarrow> Validate j = None \<Longrightarrow> submit_one i now j d = Inr (row, d') \<Longrightarrow> I d'"
    and keeps_action: "I d \<Longrightarrow> action_tx e i act rid d = Inr (r, d') \<Longrightarrow> I d'"
    and keeps_worker: "I d \<Longrightarrow> env_ok e \<Longrightarrow> worker_tx e m rq d = Inr (r, d') \<Longrightarrow> I d'"
    and keeps_reap: "I d \<Longrightarrow> reap_one e n i d = (k, d') \<Longrightarrow> I d'"
begin

lemma Mutate_keeps:
  assumes fn: "\<And>d r d'. I d \<Longrightarrow> fn d = Inr (r, d') \<Longrightarrow> I d'"
    and I: "I d" and run: "Mutate scope i h fn d = Inr (r, d')"
  shows "I d'"
proof -
  define d0 where "d0 = (if (scope, i) \<in> receipt_key ` set (requests d) then d
    else d\<lparr>requests := requests d @ [\<lparr>rq_scope = scope, rq_id = i, rq_hash = h, rq_response = None\<rparr>]\<rparr>)"
  have I0: "I d0" using I by (simp add: d0_def keeps_requests)
  from run consider "d' = d0"
    | r1 d1 q where "fn d0 = Inr (r1, d1)" "d' = d1\<lparr>requests := q\<rparr>"
    by (auto simp: Mutate_def Let_def bindR_Inr_iff d0_def [symmetric]
        split: if_split_asm option.split_asm)
  then show ?thesis
  proof cases
    case 2
    have "I d1" by (rule fn [OF I0 2(1)])
    with 2(2) show ?thesis by (simp add: keeps_requests)
  qed (simp add: I0)
qed

lemma submit_loop_keeps:
  "I d \<Longrightarrow> list_all (\<lambda>j. Validate j = None) js \<Longrightarrow> submit_loop e n js d = Inr (rows, d') \<Longrightarrow> I d'"
proof (induction e n js d arbitrary: rows rule: submit_loop.induct)
  case (2 e n j js d)
  then obtain row d1 rows' where one: "submit_one (Ids e n) (Clk e n) j d = Inr (row, d1)"
    and rest: "submit_loop e (Suc n) js d1 = Inr (rows', d')"
    by (auto simp: bindR_Inr_iff)
  from "2.prems"(2) have v: "Validate j = None" and vs: "list_all (\<lambda>j. Validate j = None) js" by simp_all
  have "I d1" by (rule keeps_submit [OF "2.prems"(1) v one])
  then show ?case by (rule "2.IH" [OF _ vs rest])
qed simp

lemma reap_loop_keeps: "I d \<Longrightarrow> reap_loop e n is d = (k, d') \<Longrightarrow> I d'"
proof (induction e n "is" d arbitrary: k rule: reap_loop.induct)
  case (2 e n i "is" d)
  obtain k1 d1 where one: "reap_one e n i d = (k1, d1)" by fastforce
  obtain k2 d2 where rest: "reap_loop e (Suc n) is d1 = (k2, d2)" by fastforce
  from "2.prems"(2) one rest have "d' = d2" by simp
  moreover have "I d1" by (rule keeps_reap [OF "2.prems"(1) one])
  ultimately show ?case using "2.IH" [of "(k1, d1)" k1 d1 k2] one rest by simp
qed simp

lemma exec_keeps: "I d \<Longrightarrow> env_ok (op_env p) \<Longrightarrow> I (exec p d)"
proof (cases p)
  case (Op_Submit e js)
  assume "I d"
  then show ?thesis
    by (auto simp: Op_Submit committed_def Submit_def list_ex_iff list_all_iff
        split: sum.splits dest: submit_loop_keeps)
next
  case (Op_Action e i act rid)
  assume I: "I d"
  have fn: "I d1 \<Longrightarrow> action_tx e (uuid_value i) act rid d1 = Inr (r, d2) \<Longrightarrow> I d2" for d1 r d2
    by (rule keeps_action)
  have "I d'" if "Action e i act rid d = Inr (r, d')" for r d'
    by (rule Mutate_keeps [OF _ I that [unfolded Action_def]]) (rule fn)
  with I show ?thesis by (auto simp: Op_Action committed_def split: sum.splits)
next
  case (Op_RPC e m rq)
  assume I: "I d" and ok: "env_ok (op_env p)"
  have fn: "I d1 \<Longrightarrow> worker_tx e m rq d1 = Inr (r, d2) \<Longrightarrow> I d2" for d1 r d2
    using keeps_worker ok Op_RPC by auto
  have "I d'" if run: "RPC e m rq d = Inr (r, d')" for r d'
  proof -
    from run have "Mutate (''rpc:'' @ method_name m @ '':'' @ WorkerID rq) (RequestID rq)
        (Hash e (P_Request rq)) (worker_tx e m rq) d = Inr (r, d')"
      by (simp add: RPC_def split: if_split_asm)
    then show ?thesis by (rule Mutate_keeps [OF _ I, rotated]) (rule fn)
  qed
  with I show ?thesis by (auto simp: Op_RPC committed_def split: sum.splits)
next
  case (Op_Reap e)
  assume I: "I d"
  obtain k d' where "reap_loop e 0 (reap_candidates e d) d = (k, d')" by fastforce
  with reap_loop_keeps [OF I] show ?thesis by (auto simp: Op_Reap committed_def Reap_def)
qed

lemma history_keeps: "I d \<Longrightarrow> list_all (\<lambda>p. env_ok (op_env p)) ps \<Longrightarrow> I (fold exec ps d)"
  by (induction ps arbitrary: d) (auto intro: exec_keeps)

lemma reachable_keeps: "I empty_db \<Longrightarrow> reachable d \<Longrightarrow> I d"
  by (rotate_tac, induction rule: reachable.induct) (auto intro: exec_keeps)

end

section \<open>The invariant\<close>

definition last_state :: "attempt_row list \<Rightarrow> attempt_state option" where
  "last_state as = (if as = [] then None else Some (a_state (last as)))"

fun agrees :: "job_state \<Rightarrow> attempt_state option \<Rightarrow> bool" where
  "agrees QUEUED s = (s \<in> {None, Some A_FAILED, Some A_EXPIRED})"
| "agrees LEASED s = (s = Some A_LEASED)"
| "agrees RUNNING s = (s = Some A_RUNNING)"
| "agrees SUCCEEDED s = (s = Some A_SUCCEEDED)"
| "agrees FAILED s = (s \<in> {Some A_FAILED, Some A_EXPIRED})"
| "agrees CANCELLED s = (s \<in> {None, Some A_FAILED, Some A_EXPIRED, Some A_CANCELLED})"

definition job_ok :: "job_row \<Rightarrow> attempt_row list \<Rightarrow> bool" where
  "job_ok j as \<longleftrightarrow> map a_number as = map int [1..<Suc (length as)]
     \<and> (\<forall>a \<in> set (butlast as). \<not> active (a_state a) \<and> a_state a \<noteq> A_SUCCEEDED)
     \<and> (\<forall>a \<in> set as. a_expires a \<le> a_deadline a)
     \<and> agrees (j_state j) (last_state as)
     \<and> int (length as) \<le> j_max j \<and> (j_state j = QUEUED \<longrightarrow> int (length as) < j_max j)"

definition res_nonneg :: "resources \<Rightarrow> bool" where
  "res_nonneg r \<longleftrightarrow> 0 \<le> CPU r \<and> 0 \<le> MemoryMB r \<and> 0 \<le> GPU r"

definition keys_ok :: "db \<Rightarrow> bool" where
  "keys_ok d \<longleftrightarrow> distinct (map j_id (jobs d)) \<and> distinct (map j_key (jobs d))
     \<and> distinct (map w_id (workers d)) \<and> distinct (map a_id (attempts d))
     \<and> (\<forall>a \<in> set (attempts d). a_job a \<in> j_id ` set (jobs d) \<and> a_worker a \<in> w_id ` set (workers d))"

definition capacity_ok :: "db \<Rightarrow> bool" where
  "capacity_ok d \<longleftrightarrow> (\<forall>j \<in> set (jobs d). res_nonneg (j_res j))
     \<and> (\<forall>w \<in> set (workers d). res_nonneg (w_res w) \<and> res_le (used (w_id w) d) (w_res w))"

definition jobs_ok :: "db \<Rightarrow> bool" where
  "jobs_ok d \<longleftrightarrow> (\<forall>j \<in> set (jobs d). job_ok j (attempts_of (j_id j) d))"

definition tables_ok :: "db \<Rightarrow> bool" where
  "tables_ok d \<longleftrightarrow> keys_ok d \<and> capacity_ok d \<and> jobs_ok d"

section \<open>One job and its attempts\<close>

lemma job_ok_active_last:
  assumes "job_ok j as" "a \<in> set as" "active (a_state a)"
  shows "as \<noteq> [] \<and> a = last as"
  using assms by (cases as rule: rev_cases) (auto simp: job_ok_def)

lemma job_ok_number_last: "job_ok j as \<Longrightarrow> as \<noteq> [] \<Longrightarrow> a_number (last as) = int (length as)"
  by (cases as rule: rev_cases) (auto simp: job_ok_def)

lemma job_ok_active_state:
  assumes "job_ok j as" "as \<noteq> []" "active (a_state (last as))"
  shows "(j_state j = LEASED \<and> a_state (last as) = A_LEASED) \<or> (j_state j = RUNNING \<and> a_state (last as) = A_RUNNING)"
  using assms by (cases "j_state j") (auto simp: job_ok_def last_state_def active_def)

lemma job_ok_set_last:
  assumes ok: "job_ok j as" and ne: "as \<noteq> []"
    and num: "a_number a = a_number (last as)" and exp: "a_expires a \<le> a_deadline a"
    and st: "agrees (j_state k) (Some (a_state a))"
    and mx: "j_max k = j_max j" "j_state k = QUEUED \<longrightarrow> int (length as) < j_max k"
  shows "job_ok k (butlast as @ [a])"
proof -
  from ne obtain bs b where as: "as = bs @ [b]" by (cases as rule: rev_cases) auto
  with ok num exp st mx show ?thesis by (auto simp: job_ok_def last_state_def)
qed

lemma job_ok_append:
  assumes ok: "job_ok j as" and q: "j_state j = QUEUED"
    and num: "a_number a = int (length as) + 1" and exp: "a_expires a \<le> a_deadline a"
    and st: "a_state a = A_LEASED" "j_state k = LEASED" and mx: "j_max k = j_max j"
  shows "job_ok k (as @ [a])"
proof -
  from ok q have "\<not> active (a_state b) \<and> a_state b \<noteq> A_SUCCEEDED" if "b \<in> set as" for b
    using that by (cases as rule: rev_cases) (auto simp: job_ok_def last_state_def active_def)
  with ok q num exp st mx show ?thesis by (auto simp: job_ok_def last_state_def)
qed

lemma foldr_max_upt: "foldr max (map int [1..<Suc n]) 0 = int n"
proof -
  have shift: "0 \<le> b \<Longrightarrow> foldr max xs b = max b (foldr max xs 0)" for xs and b :: int
    by (induction xs) auto
  show ?thesis
  proof (induction n)
    case (Suc n)
    have "foldr max (map int [1..<Suc (Suc n)]) 0 = foldr max (map int [1..<Suc n]) (max (int (Suc n)) 0)"
      by simp
    also have "\<dots> = max (int (Suc n)) (int n)" using shift [of "int (Suc n)"] Suc.IH by simp
    finally show ?case by simp
  qed simp
qed

lemma job_ok_next_number: "job_ok j (attempts_of i d) \<Longrightarrow> next_number i d = int (length (attempts_of i d)) + 1"
proof -
  assume "job_ok j (attempts_of i d)"
  then have "map a_number (attempts_of i d) = map int [1..<Suc (length (attempts_of i d))]"
    unfolding job_ok_def by blast
  then show ?thesis by (simp only: next_number_def foldr_max_upt)
qed

section \<open>Tables\<close>

lemma update_where_cong: "(\<And>r. r \<in> set rows \<Longrightarrow> p r = q r) \<Longrightarrow> update_where p f rows = update_where q f rows"
  by (simp add: update_where_def)

lemma update_where_last:
  assumes "distinct (map key rows)" "rows \<noteq> []"
  shows "update_where (\<lambda>r. key r = key (last rows)) f rows = butlast rows @ [f (last rows)]"
proof -
  from assms(2) obtain bs b where rows: "rows = bs @ [b]" by (cases rows rule: rev_cases) auto
  with assms(1) have "update_where (\<lambda>r. key r = key b) f bs = bs"
    by (intro update_where_id) (force simp: image_iff)
  with rows show ?thesis by (simp add: update_where_def)
qed

lemma sum_filter_update_le:
  fixes c :: "'r \<Rightarrow> int"
  assumes "\<And>x. x \<in> set xs \<Longrightarrow> p x \<Longrightarrow> q (f x) \<Longrightarrow> q x" "\<And>x. c (f x) = c x" "\<And>x. x \<in> set xs \<Longrightarrow> 0 \<le> c x"
  shows "sum_list (map c (filter q (update_where p f xs))) \<le> sum_list (map c (filter q xs))"
  using assms
proof (induction xs)
  case (Cons x xs)
  from Cons.prems have "sum_list (map c (filter q (update_where p f xs))) \<le> sum_list (map c (filter q xs))"
    by (intro Cons.IH) auto
  with Cons.prems(1) [of x] Cons.prems(2) [of x] Cons.prems(3) [of x] show ?case
    by (auto simp: update_where_def)
qed (simp add: update_where_def)

lemma get_job_mem: "get_job i d = Some j \<Longrightarrow> j \<in> set (jobs d) \<and> j_id j = i"
  by (auto simp: get_job_def dest: lookup_by_Some)

lemma get_attempt_mem: "get_attempt i d = Some a \<Longrightarrow> a \<in> set (attempts d) \<and> a_id a = i"
  by (auto simp: get_attempt_def dest: lookup_by_Some)

lemma get_worker_mem: "get_worker i d = Some w \<Longrightarrow> w \<in> set (workers d) \<and> w_id w = i"
  by (auto simp: get_worker_def dest: lookup_by_Some)

lemma get_job_unique: "keys_ok d \<Longrightarrow> j \<in> set (jobs d) \<Longrightarrow> get_job (j_id j) d = Some j"
  by (simp add: get_job_def keys_ok_def lookup_by_unique)

lemma key_unique: "distinct (map key rows) \<Longrightarrow> x \<in> set rows \<Longrightarrow> y \<in> set rows \<Longrightarrow> key x = key y \<Longrightarrow> x = y"
  by (metis lookup_by_unique option.inject)

lemma keys_ok_unique:
  assumes "keys_ok d"
  shows "j \<in> set (jobs d) \<Longrightarrow> k \<in> set (jobs d) \<Longrightarrow> j_id j = j_id k \<Longrightarrow> j = k"
    "w \<in> set (workers d) \<Longrightarrow> v \<in> set (workers d) \<Longrightarrow> w_id w = w_id v \<Longrightarrow> w = v"
    "a \<in> set (attempts d) \<Longrightarrow> b \<in> set (attempts d) \<Longrightarrow> a_id a = a_id b \<Longrightarrow> a = b"
  using assms by (auto simp: keys_ok_def intro: key_unique)

lemma attempts_of_frame [simp]:
  "attempts_of i (set_job k f d) = attempts_of i d"
  "attempts_of i (set_worker k h d) = attempts_of i d"
  "attempts_of i (event jid aid kind p now d) = attempts_of i d"
  "attempts_of i (d\<lparr>requests := q\<rparr>) = attempts_of i d"
  "attempts_of i (d\<lparr>artifacts := x\<rparr>) = attempts_of i d"
  "attempts_of i (d\<lparr>workers := ws\<rparr>) = attempts_of i d"
  "attempts_of i (d\<lparr>jobs := js\<rparr>) = attempts_of i d"
  by (simp_all add: attempts_of_def set_job_def set_worker_def event_def)

lemma attempts_of_set_attempts:
  "(\<And>a. a_job (f a) = a_job a) \<Longrightarrow> attempts_of i (set_attempts p f d) = update_where p f (attempts_of i d)"
  by (simp add: attempts_of_def set_attempts_def filter_update_where)

lemma attempts_of_mem: "a \<in> set (attempts_of i d) \<longleftrightarrow> a \<in> set (attempts d) \<and> a_job a = i"
  by (auto simp: attempts_of_def)

lemma distinct_attempts_of: "keys_ok d \<Longrightarrow> distinct (map a_id (attempts_of i d))"
  by (auto simp: keys_ok_def attempts_of_def distinct_map_filter)

section \<open>Reservations\<close>

abbreviation holds :: "string \<Rightarrow> attempt_row \<Rightarrow> bool" where
  "holds wid a \<equiv> a_worker a = wid \<and> active (a_state a)"

lemma used_sums:
  "CPU (used wid d) = sum_list (map (\<lambda>a. CPU (reservation d a)) (filter (holds wid) (attempts d)))"
  "MemoryMB (used wid d) = sum_list (map (\<lambda>a. MemoryMB (reservation d a)) (filter (holds wid) (attempts d)))"
  "GPU (used wid d) = sum_list (map (\<lambda>a. GPU (reservation d a)) (filter (holds wid) (attempts d)))"
proof -
  have *: "CPU (foldr (\<lambda>a. add_res (reservation d a)) as zero_res) = sum_list (map (\<lambda>a. CPU (reservation d a)) as)
    \<and> MemoryMB (foldr (\<lambda>a. add_res (reservation d a)) as zero_res) = sum_list (map (\<lambda>a. MemoryMB (reservation d a)) as)
    \<and> GPU (foldr (\<lambda>a. add_res (reservation d a)) as zero_res) = sum_list (map (\<lambda>a. GPU (reservation d a)) as)" for as
    by (induction as) (simp_all add: add_res_def zero_res_def)
  show "CPU (used wid d) = sum_list (map (\<lambda>a. CPU (reservation d a)) (filter (holds wid) (attempts d)))"
    "MemoryMB (used wid d) = sum_list (map (\<lambda>a. MemoryMB (reservation d a)) (filter (holds wid) (attempts d)))"
    "GPU (used wid d) = sum_list (map (\<lambda>a. GPU (reservation d a)) (filter (holds wid) (attempts d)))"
    by (simp_all add: used_def *)
qed

lemma reservation_nonneg: "\<forall>j \<in> set (jobs d). res_nonneg (j_res j) \<Longrightarrow> res_nonneg (reservation d a)"
  by (auto simp: reservation_def res_nonneg_def zero_res_def split: option.splits dest!: get_job_mem)

lemma res_le_refl [simp]: "res_le a a"
  by (simp add: res_le_def)

lemma res_le_trans: "res_le a b \<Longrightarrow> res_le b c \<Longrightarrow> res_le a c"
  by (auto simp: res_le_def)

lemma used_cong:
  assumes "attempts d' = attempts d" "\<And>i. map_option j_res (get_job i d') = map_option j_res (get_job i d)"
  shows "used wid d' = used wid d"
proof -
  have "reservation d' a = reservation d a" for a
    using assms(2) [of "a_job a"] by (auto simp: reservation_def split: option.splits)
  then show ?thesis by (simp add: used_def assms(1))
qed

lemma get_job_res_set_job:
  assumes "\<And>j. j_id (g j) = j_id j" "\<And>j. j_res (g j) = j_res j"
  shows "map_option j_res (get_job i (set_job k g d)) = map_option j_res (get_job i d)"
proof -
  have "map_option j_res (find (\<lambda>r. j_id r = i) (update_where (\<lambda>j. j_id j = k) g rows))
      = map_option j_res (find (\<lambda>r. j_id r = i) rows)" for rows
    by (induction rows) (simp_all add: update_where_def assms)
  then show ?thesis by (simp add: get_job_def lookup_by_def set_job_def)
qed

lemma used_set_attempts_le:
  assumes "\<And>a. a_job (f a) = a_job a" "\<And>a. a_worker (f a) = a_worker a"
    and "\<And>a. a \<in> set (attempts d) \<Longrightarrow> p a \<Longrightarrow> active (a_state (f a)) \<Longrightarrow> active (a_state a)"
    and "\<forall>j \<in> set (jobs d). res_nonneg (j_res j)"
  shows "res_le (used wid (set_attempts p f d)) (used wid d)"
proof -
  have r: "reservation (set_attempts p f d) a = reservation d a" for a
    by (simp add: reservation_def get_job_def set_attempts_def)
  have c: "reservation d (f a) = reservation d a" for a
    by (simp add: reservation_def assms(1))
  have nn: "0 \<le> CPU (reservation d a)" "0 \<le> MemoryMB (reservation d a)" "0 \<le> GPU (reservation d a)" for a
    using reservation_nonneg [OF assms(4), of a] by (simp_all add: res_nonneg_def)
  have "sum_list (map k (filter (holds wid) (update_where p f (attempts d))))
      \<le> sum_list (map k (filter (holds wid) (attempts d)))"
    if "\<And>a. k (f a) = k a" "\<And>a. 0 \<le> k a" for k :: "attempt_row \<Rightarrow> int"
    using that assms(2,3) by (intro sum_filter_update_le) auto
  then show ?thesis
    unfolding res_le_def used_sums r by (simp add: set_attempts_def c nn)
qed

end
