(* ===== verification/Store_Steps.thy ===== *)
theory Store_Steps
  imports Store_Inv
begin

text \<open>
  Every transaction of the control plane keeps the table invariant: one lemma per transaction,
  over two update lemmas (a job row together with its attempts, and a new attempt), collected
  in the interpretation \<open>tables\<close> of the contract \<open>step_invariant\<close>.
\<close>

section \<open>Frames\<close>

lemma wf_frame:
  assumes "jobs d' = jobs d" "workers d' = workers d" "attempts d' = attempts d"
  shows "tables_ok d' = tables_ok d"
proof -
  have "used wid d' = used wid d" for wid
    by (rule used_cong) (simp_all add: assms get_job_def)
  then show ?thesis
    by (simp add: tables_ok_def keys_ok_def capacity_ok_def jobs_ok_def attempts_of_def assms)
qed

lemma wf_frames [simp]:
  "tables_ok (d\<lparr>requests := q\<rparr>) = tables_ok d" "tables_ok (d\<lparr>artifacts := x\<rparr>) = tables_ok d"
  "tables_ok (event jid aid kind p now d) = tables_ok d" "tables_ok (attempt_event e m r jid d) = tables_ok d"
  by (rule wf_frame; simp add: event_def attempt_event_def)+

lemma set_worker_map:
  assumes "\<And>w. w_id (h w) = w_id w" "\<And>w. w_res (h w) = w_res w"
  shows "map w_id (workers (set_worker k h d)) = map w_id (workers d)"
    "map w_res (workers (set_worker k h d)) = map w_res (workers d)"
  by (simp_all add: set_worker_def map_update_where_same assms)

lemma wf_set_worker:
  assumes "\<And>w. w_id (h w) = w_id w" "\<And>w. w_res (h w) = w_res w"
  shows "tables_ok (set_worker k h d) = tables_ok d"
proof -
  have u: "used wid (set_worker k h d) = used wid d" for wid
    by (rule used_cong) (simp_all add: set_worker_def get_job_def)
  have ids: "map w_id (workers (set_worker k h d)) = map w_id (workers d)"
    by (rule set_worker_map) fact+
  have img: "w_id ` set (workers (set_worker k h d)) = w_id ` set (workers d)"
    using ids by (metis list.set_map)
  have if_id: "w_id (if c then h w else w) = w_id w" "w_res (if c then h w else w) = w_res w" for c w
    by (simp_all add: assms)
  have "(\<forall>w \<in> set (workers (set_worker k h d)). res_nonneg (w_res w) \<and> res_le (used (w_id w) d) (w_res w))
      = (\<forall>w \<in> set (workers d). res_nonneg (w_res w) \<and> res_le (used (w_id w) d) (w_res w))"
    by (simp add: set_worker_def ball_update_where if_id)
  then have "capacity_ok (set_worker k h d) = capacity_ok d"
    unfolding capacity_ok_def u by (simp add: set_worker_def)
  moreover have "keys_ok (set_worker k h d) = keys_ok d"
    unfolding keys_ok_def ids img by (simp add: set_worker_def)
  moreover have "jobs_ok (set_worker k h d) = jobs_ok d"
    by (simp add: jobs_ok_def) (simp add: set_worker_def)
  ultimately show ?thesis by (simp add: tables_ok_def)
qed

section \<open>Updating a job and its attempts\<close>

lemma jobs_ok_set_job:
  assumes "\<And>k. k \<in> set (jobs d) \<Longrightarrow> job_ok (if j_id k = i then g k else k) (attempts_of (j_id k) d')"
    and "jobs d' = update_where (\<lambda>k. j_id k = i) g (jobs d)" and "\<And>k. j_id (g k) = j_id k"
  shows "jobs_ok d'"
proof -
  have "j_id (if c then g k else k) = j_id k" for c k by (simp add: assms(3))
  with assms(1) show ?thesis unfolding jobs_ok_def assms(2) ball_update_where by simp
qed

lemma wf_set_job_attempts:
  assumes wf: "tables_ok d" and j: "j \<in> set (jobs d)"
    and f: "\<And>a. a_id (f a) = a_id a" "\<And>a. a_job (f a) = a_job a" "\<And>a. a_worker (f a) = a_worker a"
    and only: "\<And>a. a \<in> set (attempts d) \<Longrightarrow> p a \<Longrightarrow> a_job a = j_id j"
    and dec: "\<And>a. a \<in> set (attempts d) \<Longrightarrow> p a \<Longrightarrow> active (a_state (f a)) \<Longrightarrow> active (a_state a)"
    and g: "\<And>k. j_id (g k) = j_id k" "\<And>k. j_key (g k) = j_key k" "\<And>k. j_res (g k) = j_res k"
    and ok: "job_ok (g j) (update_where p f (attempts_of (j_id j) d))"
  shows "tables_ok (set_job (j_id j) g (set_attempts p f d))" (is "tables_ok ?d")
proof -
  have keys: "keys_ok d" and cap: "capacity_ok d" and jok: "jobs_ok d"
    using wf by (simp_all add: tables_ok_def)
  have jm: "map j_id (jobs ?d) = map j_id (jobs d)" "map j_key (jobs ?d) = map j_key (jobs d)"
    "map j_res (jobs ?d) = map j_res (jobs d)"
    by (simp_all add: set_job_def set_attempts_def map_update_where_same g)
  have js: "j_id ` set (jobs ?d) = j_id ` set (jobs d)" "j_res ` set (jobs ?d) = j_res ` set (jobs d)"
    using jm by (metis list.set_map)+
  have am: "map a_id (attempts ?d) = map a_id (attempts d)"
    by (simp add: set_job_def set_attempts_def map_update_where_same f)
  have "\<forall>a \<in> set (attempts ?d). a_job a \<in> j_id ` set (jobs d) \<and> a_worker a \<in> w_id ` set (workers d)"
    using keys f by (auto simp: keys_ok_def set_job_def set_attempts_def set_update_where)
  with keys have "keys_ok ?d"
    unfolding keys_ok_def jm am js by (simp add: set_job_def set_attempts_def)
  moreover have "capacity_ok ?d"
  proof -
    have nn: "\<forall>k \<in> set (jobs d). res_nonneg (j_res k)" using cap by (simp add: capacity_ok_def)
    have "used wid ?d = used wid (set_attempts p f d)" for wid
      by (rule used_cong) (auto simp: get_job_res_set_job g, simp add: set_job_def)
    then have "res_le (used wid ?d) (used wid d)" for wid
      using used_set_attempts_le [OF f(2,3) dec nn] by simp
    moreover have "\<forall>k \<in> set (jobs ?d). res_nonneg (j_res k)"
      using nn js(2) by (metis (no_types, opaque_lifting) image_iff)
    moreover have "workers ?d = workers d" by (simp add: set_job_def set_attempts_def)
    ultimately show ?thesis
      using cap unfolding capacity_ok_def by (metis res_le_trans)
  qed
  moreover have "jobs_ok ?d"
  proof -
    have "job_ok (if j_id k = j_id j then g k else k) (attempts_of (j_id k) ?d)" if k: "k \<in> set (jobs d)" for k
    proof (cases "j_id k = j_id j")
      case True
      with k j keys have "k = j" by (auto simp: keys_ok_def distinct_map dest: inj_onD)
      with ok show ?thesis by (simp add: attempts_of_set_attempts f(2))
    next
      case False
      then have "update_where p f (attempts_of (j_id k) d) = attempts_of (j_id k) d"
        by (intro update_where_id) (auto simp: attempts_of_mem dest: only)
      with False k jok show ?thesis by (simp add: attempts_of_set_attempts f(2) jobs_ok_def)
    qed
    then show ?thesis by (rule jobs_ok_set_job) (simp_all add: set_job_def set_attempts_def g)
  qed
  ultimately show ?thesis by (simp add: tables_ok_def)
qed

lemma wf_job_ok: "tables_ok d \<Longrightarrow> j \<in> set (jobs d) \<Longrightarrow> job_ok j (attempts_of (j_id j) d)"
  by (simp add: tables_ok_def jobs_ok_def)

lemma wf_keys: "tables_ok d \<Longrightarrow> keys_ok d"
  by (simp add: tables_ok_def)

lemma wf_active_last:
  assumes "tables_ok d" "j \<in> set (jobs d)" "a \<in> set (attempts d)" "a_job a = j_id j" "active (a_state a)"
  shows "attempts_of (j_id j) d \<noteq> []" "last (attempts_of (j_id j) d) = a"
  using job_ok_active_last [OF wf_job_ok [OF assms(1,2)], of a] assms
  by (simp_all add: attempts_of_mem)

lemma wf_active_update:
  assumes wf: "tables_ok d" and j: "j \<in> set (jobs d)" and a: "a \<in> set (attempts d)" "a_job a = j_id j"
    and act: "active (a_state a)"
    and f: "\<And>b. a_id (f b) = a_id b" "\<And>b. a_job (f b) = a_job b" "\<And>b. a_worker (f b) = a_worker b"
      "\<And>b. a_number (f b) = a_number b"
    and exp: "a_expires (f a) \<le> a_deadline (f a)"
    and g: "\<And>k. j_id (g k) = j_id k" "\<And>k. j_key (g k) = j_key k" "\<And>k. j_res (g k) = j_res k"
      "\<And>k. j_max (g k) = j_max k"
    and st: "agrees (j_state (g j)) (Some (a_state (f a)))"
      "j_state (g j) = QUEUED \<longrightarrow> a_number a < j_max j"
    and p: "\<And>b. b \<in> set (attempts d) \<Longrightarrow> p b \<longleftrightarrow> a_id b = a_id a"
  shows "tables_ok (set_job (j_id j) g (set_attempts p f d))"
proof -
  let ?as = "attempts_of (j_id j) d"
  note last = wf_active_last [OF wf j a act]
  have uniq: "b \<in> set (attempts d) \<Longrightarrow> a_id b = a_id a \<Longrightarrow> b = a" for b
    using wf_keys [OF wf] a(1) by (auto simp: keys_ok_def distinct_map dest: inj_onD)
  have ok: "job_ok j ?as" by (rule wf_job_ok [OF wf j])
  have "update_where p f ?as = update_where (\<lambda>b. a_id b = a_id (last ?as)) f ?as"
    using last p by (intro update_where_cong) (auto simp: attempts_of_mem)
  also have "\<dots> = butlast ?as @ [f a]"
    using update_where_last [OF distinct_attempts_of [OF wf_keys [OF wf]] last(1)] last(2) by simp
  finally have upd: "update_where p f ?as = butlast ?as @ [f a]" .
  have "job_ok (g j) (butlast ?as @ [f a])"
    using job_ok_number_last [OF ok last(1)] last st
    by (intro job_ok_set_last [OF ok last(1)]) (simp_all add: f(4) exp g(4))
  then show ?thesis
    using p uniq a(2) act by (intro wf_set_job_attempts [OF wf j f(1,2,3) _ _ g(1,2,3)]) (auto simp: upd)
qed

lemma set_job_same: "set_job i (\<lambda>k. k) d = d"
  by (simp add: set_job_def update_where_def)

section \<open>Submission\<close>

lemma used_cong_reservation:
  assumes "attempts d' = attempts d" "\<And>a. a \<in> set (attempts d) \<Longrightarrow> reservation d' a = reservation d a"
  shows "used wid d' = used wid d"
proof -
  have "foldr (\<lambda>a. add_res (reservation d' a)) as z = foldr (\<lambda>a. add_res (reservation d a)) as z"
    if "set as \<subseteq> set (attempts d)" for as z
    using that by (induction as) (auto simp: assms(2))
  then show ?thesis by (auto simp: used_def assms(1))
qed

lemma lookup_by_append: "k \<in> key ` set xs \<Longrightarrow> lookup_by key k (xs @ ys) = lookup_by key k xs"
  by (induction xs) (auto simp: lookup_by_def)

lemma wf_insert_job:
  assumes wf: "tables_ok d" and v: "Validate j = None" and ins: "insert_job i j now d = Inr (b, d')"
  shows "tables_ok d'"
proof (cases "d' = d")
  case False
  define row where "row = \<lparr>j_id = i, j_key = IdempotencyKey j, j_def = j, j_state = QUEUED,
    j_res = Resources j, j_max = MaxAttempts j, j_created = now, j_updated = now\<rparr>"
  from ins False have new: "IdempotencyKey j \<notin> j_key ` set (jobs d)" "i \<notin> j_id ` set (jobs d)"
    and d': "d' = d\<lparr>jobs := jobs d @ [row]\<rparr>"
    by (auto simp: insert_job_def row_def split: if_splits)
  have keys: "keys_ok d" by (rule wf_keys [OF wf])
  have none: "attempts_of i d = []"
    using keys new(2) by (auto simp: attempts_of_def keys_ok_def filter_empty_conv)
  have u: "used wid d' = used wid d" for wid
    using keys by (intro used_cong_reservation)
      (auto simp: d' reservation_def get_job_def lookup_by_append keys_ok_def)
  have "keys_ok d'" using keys new by (auto simp: keys_ok_def d' row_def)
  moreover have "capacity_ok d'"
    using wf Validate_None(1) [OF v]
    by (auto simp: tables_ok_def capacity_ok_def u, auto simp: d' row_def res_nonneg_def Valid_def)
  moreover have "jobs_ok d'"
    using wf none Validate_None(4) [OF v]
    by (auto simp: tables_ok_def jobs_ok_def d', auto simp: row_def job_ok_def last_state_def)
  ultimately show ?thesis by (simp add: tables_ok_def)
qed (simp add: wf)

lemma wf_submit_one:
  assumes "tables_ok d" "Validate j = None" "submit_one i now j d = Inr (row, d')"
  shows "tables_ok d'"
  using assms wf_insert_job [OF assms(1,2)]
  by (auto simp: submit_one_def bindR_Inr_iff split: option.splits if_splits)

section \<open>Client actions\<close>

lemma wf_set_job:
  assumes "tables_ok d" "j \<in> set (jobs d)"
    and "\<And>k. j_id (g k) = j_id k" "\<And>k. j_key (g k) = j_key k" "\<And>k. j_res (g k) = j_res k"
    and "job_ok (g j) (attempts_of (j_id j) d)"
  shows "tables_ok (set_job (j_id j) g d)"
proof -
  have "set_attempts (\<lambda>_. False) (\<lambda>a. a) d = d" by (simp add: set_attempts_def update_where_def)
  moreover have "tables_ok (set_job (j_id j) g (set_attempts (\<lambda>_. False) (\<lambda>a. a) d))"
    by (rule wf_set_job_attempts) (use assms in \<open>auto simp: update_where_def\<close>)
  ultimately show ?thesis by simp
qed

lemma job_ok_cancel:
  assumes ok: "job_ok j as" and i: "\<forall>a \<in> set as. a_job a = i"
    and st: "j_state j \<noteq> SUCCEEDED" "j_state j \<noteq> FAILED"
    and f: "\<And>a. a_number (f a) = a_number a" "\<And>a. a_expires (f a) = a_expires a"
      "\<And>a. a_deadline (f a) = a_deadline a" "\<And>a. a_state (f a) = A_CANCELLED"
    and k: "j_state k = CANCELLED" "j_max k = j_max j"
  shows "job_ok k (update_where (\<lambda>a. a_job a = i \<and> active (a_state a)) f as)"
proof (cases as rule: rev_cases)
  case Nil
  with ok k show ?thesis by (auto simp: job_ok_def update_where_def last_state_def)
next
  case (snoc bs b)
  with ok have "update_where (\<lambda>a. a_job a = i \<and> active (a_state a)) f bs = bs"
    by (intro update_where_id) (auto simp: job_ok_def)
  with snoc i have "update_where (\<lambda>a. a_job a = i \<and> active (a_state a)) f as
      = bs @ [if active (a_state b) then f b else b]"
    by (simp add: update_where_def)
  with snoc ok st k show ?thesis
    by (cases "j_state j") (auto simp: job_ok_def last_state_def f active_def)
qed

lemma wf_action_tx:
  assumes wf: "tables_ok d" and run: "action_tx e i act rid d = Inr (r, d')"
  shows "tables_ok d'"
proof -
  from run obtain j where j: "get_job i d = Some j" by (auto simp: action_tx_def split: option.splits)
  then have jm: "j \<in> set (jobs d)" and ji: "j_id j = i" by (auto dest: get_job_mem)
  note ok = wf_job_ok [OF wf jm]
  show ?thesis
  proof (cases act)
    case Cancel
    let ?f = "\<lambda>a. a\<lparr>a_state := A_CANCELLED, a_finished := Some (Clk e 0), a_reason := Some ''cancelled''\<rparr>"
    let ?g = "\<lambda>k. k\<lparr>j_state := CANCELLED, j_max := j_max j, j_updated := Clk e 1\<rparr>"
    let ?p = "\<lambda>a. a_job a = i \<and> active (a_state a)"
    from run j Cancel have st: "j_state j \<noteq> SUCCEEDED" "j_state j \<noteq> FAILED"
      by (auto simp: action_tx_def split: if_splits)
    have all: "\<forall>a \<in> set (attempts_of i d). a_job a = i" by (simp add: attempts_of_mem)
    have cancelled: "job_ok (?g j) (update_where ?p ?f (attempts_of i d))"
      by (rule job_ok_cancel [OF ok [unfolded ji] all st]) simp_all
    have "tables_ok (set_job (j_id j) ?g (set_attempts ?p ?f d))"
      by (rule wf_set_job_attempts [OF wf jm]) (use cancelled ji in \<open>auto simp: active_def\<close>)
    moreover have "tables_ok (set_job (j_id j) ?g d)" if "j_state j = CANCELLED"
      using ok that by (intro wf_set_job [OF wf jm]) (auto simp: job_ok_def)
    ultimately show ?thesis using run j Cancel ji
      by (auto simp: action_tx_def finish_action_def Let_def split: if_splits option.splits)
  next
    case Retry
    let ?g = "\<lambda>k. k\<lparr>j_state := QUEUED, j_max := j_max j + 1, j_updated := Clk e 1\<rparr>"
    from run j Retry have "j_state j = FAILED" by (auto simp: action_tx_def split: if_splits)
    then have "tables_ok (set_job (j_id j) ?g d)"
      using ok by (intro wf_set_job [OF wf jm]) (auto simp: job_ok_def)
    then show ?thesis using run j Retry ji
      by (auto simp: action_tx_def finish_action_def Let_def split: if_splits option.splits)
  qed
qed

section \<open>Placement\<close>

lemma older_total: "older a b \<or> older b a"
  by (auto simp: older_def)

lemma older_trans: "older a b \<Longrightarrow> older b c \<Longrightarrow> older a c"
  by (auto simp: older_def)

lemma oldest_Some: "oldest js = Some j \<Longrightarrow> j \<in> set js \<and> (\<forall>k \<in> set js. older j k)"
proof (induction js arbitrary: j)
  case (Cons x js)
  show ?case
  proof (cases "oldest js")
    case None
    then have "js = []" by (cases js) (auto split: option.splits)
    with Cons.prems show ?thesis by (simp add: older_def)
  next
    case (Some k)
    with Cons.IH have k: "k \<in> set js" "\<forall>l \<in> set js. older k l" by auto
    with Cons.prems Some older_total [of x k] older_total [of x x] older_total [of k k] show ?thesis
      by (auto split: if_splits intro: older_trans)
  qed
qed simp

lemma oldest_None: "oldest js = None \<longleftrightarrow> js = []"
  by (cases js) (auto split: option.splits)

lemma wf_insert_attempt:
  assumes wf: "tables_ok d" and j: "j \<in> set (jobs d)" "j_state j = QUEUED"
    and a: "a_job a = j_id j" "a_number a = next_number (j_id j) d" "a_state a = A_LEASED"
      "a_expires a \<le> a_deadline a"
    and ins: "insert_attempt a d = Inr d1"
    and w: "w \<in> set (workers d)" "w_id w = a_worker a"
      "res_le (j_res j) (sub_res (w_res w) (used (a_worker a) d))"
    and g: "\<And>k. j_id (g k) = j_id k" "\<And>k. j_key (g k) = j_key k" "\<And>k. j_res (g k) = j_res k"
      "j_state (g j) = LEASED" "j_max (g j) = j_max j"
  shows "tables_ok (set_job (j_id j) g d1)" (is "tables_ok ?d")
proof -
  have keys: "keys_ok d" and cap: "capacity_ok d" and jok: "jobs_ok d"
    using wf by (simp_all add: tables_ok_def)
  from ins have d1: "d1 = d\<lparr>attempts := attempts d @ [a]\<rparr>" and new: "a_id a \<notin> a_id ` set (attempts d)"
    and wk: "get_worker (a_worker a) d \<noteq> None"
    by (auto simp: insert_attempt_def split: if_splits)
  have jm: "map j_id (jobs ?d) = map j_id (jobs d)" "map j_key (jobs ?d) = map j_key (jobs d)"
    by (simp_all add: set_job_def d1 map_update_where_same g)
  have js: "j_id ` set (jobs ?d) = j_id ` set (jobs d)" using jm by (metis list.set_map)
  have att: "attempts ?d = attempts d @ [a]" and wks: "workers ?d = workers d"
    by (simp_all add: set_job_def d1)
  have "a_worker a \<in> w_id ` set (workers d)" using w by force
  with keys new j(1) a(1) have "keys_ok ?d"
    unfolding keys_ok_def jm js att wks by auto
  moreover have "capacity_ok ?d"
  proof -
    have res: "reservation ?d b = reservation d b" for b
    proof -
      have "map_option j_res (get_job (a_job b) ?d) = map_option j_res (get_job (a_job b) d)"
        using get_job_res_set_job [OF g(1,3), where d = d1] by (simp add: d1 get_job_def)
      then show ?thesis by (auto simp: reservation_def split: option.splits)
    qed
    have ra: "reservation d a = j_res j" using get_job_unique [OF keys j(1)] a(1) by (simp add: reservation_def)
    have sums: "CPU (used wid ?d) = CPU (used wid d) + (if wid = a_worker a then CPU (j_res j) else 0)"
      "MemoryMB (used wid ?d) = MemoryMB (used wid d) + (if wid = a_worker a then MemoryMB (j_res j) else 0)"
      "GPU (used wid ?d) = GPU (used wid d) + (if wid = a_worker a then GPU (j_res j) else 0)" for wid
      unfolding used_sums res att by (auto simp: ra a(3) active_def)
    have "res_le (used (w_id v) ?d) (w_res v)" if "v \<in> set (workers d)" for v
    proof (cases "w_id v = a_worker a")
      case True
      with that w(1,2) have "v = w" by (intro keys_ok_unique(2) [OF keys]) auto
      with True w(3) show ?thesis by (simp add: res_le_def sub_res_def sums)
    next
      case False
      with that cap show ?thesis by (auto simp: res_le_def capacity_ok_def sums)
    qed
    moreover have "\<forall>k \<in> set (jobs ?d). res_nonneg (j_res k)"
      using cap by (auto simp: capacity_ok_def set_job_def d1 ball_update_where g)
    ultimately show ?thesis using cap by (auto simp: capacity_ok_def wks)
  qed
  moreover have "jobs_ok ?d"
  proof -
    have "job_ok (if j_id k = j_id j then g k else k) (attempts_of (j_id k) ?d)" if k: "k \<in> set (jobs d)" for k
    proof (cases "j_id k = j_id j")
      case True
      with k j keys have kj: "k = j" by (auto simp: keys_ok_def distinct_map dest: inj_onD)
      have ok: "job_ok j (attempts_of (j_id j) d)" by (rule wf_job_ok [OF wf j(1)])
      have "job_ok (g j) (attempts_of (j_id j) d @ [a])"
        by (rule job_ok_append [OF ok j(2)]) (simp_all add: a g job_ok_next_number [OF ok])
      with kj show ?thesis by (simp add: d1 attempts_of_def a(1) set_job_def)
    next
      case False
      with k jok show ?thesis by (simp add: jobs_ok_def d1 attempts_of_def a(1) set_job_def)
    qed
    then show ?thesis by (rule jobs_ok_set_job) (simp_all add: set_job_def d1 g)
  qed
  ultimately show ?thesis by (simp add: tables_ok_def)
qed

lemma lease_tx_Inr:
  assumes "lease_tx e r cap d = Inr (resp, d')"
  obtains (idle) "resp = R_Idle" "d' = d"
    "filter (compatible e (sub_res cap (used (WorkerID r) d))) (jobs d) = []"
  | (leased) j d1 kind payload where
    "oldest (filter (compatible e (sub_res cap (used (WorkerID r) d))) (jobs d)) = Some j"
    "insert_attempt (leased_attempt e r j d) d = Inr d1" "next_number (j_id j) d \<le> j_max j"
    "d' = event (j_id j) (Some (Ids e 0)) kind payload (Clk e 6)
        (set_job (j_id j) (\<lambda>j. j\<lparr>j_state := LEASED, j_updated := Clk e 5\<rparr>) d1)"
    "resp = R_Lease \<lparr>l_job = j\<lparr>j_state := LEASED\<rparr>, l_attempt = Ids e 0, l_number = next_number (j_id j) d,
        l_token = Ids e 1, l_expires = a_expires (leased_attempt e r j d), l_server = Clk e 4,
        l_checkpoint = latest_checkpoint (j_id j) d\<rparr>"
proof (cases "oldest (filter (compatible e (sub_res cap (used (WorkerID r) d))) (jobs d))")
  case None
  with assms idle show ?thesis by (auto simp: lease_tx_def oldest_None)
next
  case (Some j)
  have a: "a_id (leased_attempt e r j d) = Ids e 0" "a_number (leased_attempt e r j d) = next_number (j_id j) d"
    "a_token (leased_attempt e r j d) = Ids e 1"
    by (simp_all add: leased_attempt_def Let_def)
  from assms Some obtain d1 where ins: "insert_attempt (leased_attempt e r j d) d = Inr d1"
    by (auto simp: lease_tx_def Let_def bindR_Inr_iff)
  then have "latest_checkpoint i (set_job k g d1) = latest_checkpoint i d" for i k g
    by (auto simp: insert_attempt_def latest_checkpoint_def set_job_def split: if_splits)
  with assms Some ins a leased [OF Some ins] show ?thesis
    by (auto simp: lease_tx_def Let_def split: if_splits)
qed

lemma wf_lease_tx:
  assumes wf: "tables_ok d" and env: "env_ok e" and w: "w \<in> set (workers d)" "w_id w = WorkerID r"
    and run: "lease_tx e r (w_res w) d = Inr (resp, d')"
  shows "tables_ok d'"
  using run
proof (cases rule: lease_tx_Inr)
  case (leased j d1 kind payload)
  then have j: "j \<in> set (jobs d)" "j_state j = QUEUED"
    and fit: "res_le (j_res j) (sub_res (w_res w) (used (WorkerID r) d))"
    by (auto dest!: oldest_Some simp: compatible_def)
  have "Clk e 2 \<le> Clk e 3" using env by (auto simp: env_ok_def intro: monoD)
  then have "tables_ok (set_job (j_id j) (\<lambda>j. j\<lparr>j_state := LEASED, j_updated := Clk e 5\<rparr>) d1)"
    by (intro wf_insert_attempt [OF wf j _ _ _ _ leased(2) w(1)])
      (simp_all add: leased_attempt_def Let_def w(2) fit)
  with leased(4) show ?thesis by simp
qed (simp add: wf)

section \<open>Attempt mutations\<close>

lemma record_artifacts_frame:
  "record_artifacts e n j aid as d = Inr d' \<Longrightarrow> \<exists>xs. d' = d\<lparr>artifacts := artifacts d @ xs\<rparr>"
proof (induction e n j aid as d rule: record_artifacts.induct)
  case (1 e n j aid d)
  then show ?case by (auto intro: exI [of _ "[]"])
next
  case (2 e n j aid a as d)
  show ?case
  proof (cases "find (\<lambda>x. ObjectKey (art x) = ObjectKey a) (artifacts d)")
    case None
    with 2 show ?thesis by (fastforce split: if_splits)
  next
    case (Some x)
    with 2 show ?thesis by (auto split: if_splits)
  qed
qed

lemma attempt_tx_Inr:
  assumes "attempt_tx e m r d = Inr (resp, d')"
  obtains a j where "get_attempt (AttemptID r) d = Some a" "get_job (a_job a) d = Some j" "fence e r j a"
    "(if m = Heartbeat then heartbeat_tx e r a d else if m = StartAttempt then start_tx e r j a d
      else report_tx e m r j a d) = Inr (resp, d')"
  using assms by (auto simp: attempt_tx_def split: if_splits option.splits)

lemma wf_heartbeat_tx:
  assumes wf: "tables_ok d" and j: "j \<in> set (jobs d)" and a: "a \<in> set (attempts d)" "a_job a = j_id j" "a_id a = AttemptID r"
    and act: "active (a_state a)" and run: "heartbeat_tx e r a d = Inr (resp, d')"
  shows "tables_ok d'"
proof -
  let ?f = "\<lambda>b. b\<lparr>a_expires := min (a_deadline a) (Clk e 3 + real_of_int (LeaseSeconds e))\<rparr>"
  have "agrees (j_state j) (Some (a_state a))"
    using wf_job_ok [OF wf j] wf_active_last [OF wf j a(1,2) act] by (simp add: job_ok_def last_state_def)
  moreover have "j_state j \<noteq> QUEUED"
    using job_ok_active_state [OF wf_job_ok [OF wf j]] wf_active_last [OF wf j a(1,2) act] act by auto
  ultimately have "tables_ok (set_job (j_id j) (\<lambda>k. k) (set_attempts (\<lambda>b. a_id b = AttemptID r) ?f d))"
    by (intro wf_active_update [OF wf j a(1,2) act]) (simp_all add: a(3))
  with run show ?thesis by (simp add: heartbeat_tx_def Let_def set_job_same)
qed

lemma wf_start_tx:
  assumes wf: "tables_ok d" and j: "j \<in> set (jobs d)" and a: "a \<in> set (attempts d)" "a_job a = j_id j" "a_id a = AttemptID r"
    and act: "active (a_state a)" and run: "start_tx e r j a d = Inr (resp, d')"
  shows "tables_ok d'"
proof -
  have "a_expires a \<le> a_deadline a"
    using wf_job_ok [OF wf j] a by (auto simp: job_ok_def attempts_of_mem)
  then have "tables_ok (set_job (j_id j) (\<lambda>j. j\<lparr>j_state := RUNNING, j_updated := Clk e 4\<rparr>)
     (set_attempts (\<lambda>b. a_id b = AttemptID r) (\<lambda>b. b\<lparr>a_state := A_RUNNING, a_started := Some (Clk e 3)\<rparr>) d))"
    by (intro wf_active_update [OF wf j a(1,2) act]) (simp_all add: a(3))
  with run wf show ?thesis by (auto simp: start_tx_def Let_def split: if_splits)
qed

lemma wf_finish_attempt:
  assumes wf: "tables_ok d" and j: "j \<in> set (jobs d)" and a: "a \<in> set (attempts d)" "a_job a = j_id j" "a_id a = AttemptID r"
    and act: "active (a_state a)" and st: "agrees jst (Some ast)" "jst = QUEUED \<longrightarrow> a_number a < j_max j"
  shows "tables_ok (finish_attempt e r j ast jst d)"
proof -
  have "a_expires a \<le> a_deadline a"
    using wf_job_ok [OF wf j] a by (auto simp: job_ok_def attempts_of_mem)
  then show ?thesis unfolding finish_attempt_def
    by (intro wf_active_update [OF wf j a(1,2) act]) (simp_all add: a(3) st)
qed

lemma RetryState_agrees:
  "agrees (RetryState n mx) (Some A_FAILED)" "agrees (RetryState n mx) (Some A_EXPIRED)"
  "RetryState n mx = QUEUED \<longleftrightarrow> n < mx"
  by (auto simp: RetryState_def)

lemma report_tx_Inr:
  assumes "report_tx e m r j a d = Inr (resp, d')"
  obtains xs where "a_state a = A_RUNNING"
    "record_artifacts e 0 j (AttemptID r) (Artifacts r) d = Inr (d\<lparr>artifacts := artifacts d @ xs\<rparr>)"
    "resp = R_Accepted" "m = CompleteAttempt \<longrightarrow> ExitCode r = 0"
    "d' = attempt_event e m r (j_id j) (
       if m = CompleteAttempt then finish_attempt e r j A_SUCCEEDED SUCCEEDED (d\<lparr>artifacts := artifacts d @ xs\<rparr>)
       else if m = FailAttempt
         then finish_attempt e r j A_FAILED (RetryState (a_number a) (j_max j)) (d\<lparr>artifacts := artifacts d @ xs\<rparr>)
       else d\<lparr>artifacts := artifacts d @ xs\<rparr>)"
  using assms
  by (auto simp: report_tx_def bindR_Inr_iff Let_def split: if_splits dest!: record_artifacts_frame)

lemma wf_report_tx:
  assumes wf: "tables_ok d" and j: "j \<in> set (jobs d)" and a: "a \<in> set (attempts d)" "a_job a = j_id j" "a_id a = AttemptID r"
    and act: "active (a_state a)" and run: "report_tx e m r j a d = Inr (resp, d')"
  shows "tables_ok d'"
  using run
proof (cases rule: report_tx_Inr)
  case (1 xs)
  let ?d = "d\<lparr>artifacts := artifacts d @ xs\<rparr>"
  have "tables_ok (finish_attempt e r j ast jst ?d)"
    if "agrees jst (Some ast)" "jst = QUEUED \<longrightarrow> a_number a < j_max j" for ast jst
    using wf j a act that by (intro wf_finish_attempt) auto
  with 1(5) wf show ?thesis by (auto simp: RetryState_agrees)
qed

lemma wf_attempt_tx:
  assumes wf: "tables_ok d" and run: "attempt_tx e m r d = Inr (resp, d')"
  shows "tables_ok d'"
  using run
proof (cases rule: attempt_tx_Inr)
  case (1 a j)
  then have a: "a \<in> set (attempts d)" "a_id a = AttemptID r" and j: "j \<in> set (jobs d)" "a_job a = j_id j"
    and act: "active (a_state a)"
    by (auto dest: get_attempt_mem get_job_mem simp: fence_def)
  from 1(4) show ?thesis
    using wf_heartbeat_tx [OF wf j(1) a(1) j(2) a(2) act] wf_start_tx [OF wf j(1) a(1) j(2) a(2) act]
      wf_report_tx [OF wf j(1) a(1) j(2) a(2) act]
    by (auto split: if_splits)
qed

section \<open>Workers and expiry\<close>

lemma wf_register_tx:
  assumes wf: "tables_ok d" and run: "register_tx e r d = Inr (resp, d')"
  shows "tables_ok d'"
proof (cases "WorkerID r \<in> w_id ` set (workers d)")
  case True
  with run wf show ?thesis by (auto simp: register_tx_def Let_def split: if_splits option.splits)
next
  case False
  define w where "w = \<lparr>w_id = WorkerID r, w_session = SessionID r, w_hostname = Hostname r,
    w_res = ReqResources r, w_state = ACTIVE, w_registered = Clk e 0, w_heartbeat = Clk e 0\<rparr>"
  from run False have d': "d' = d\<lparr>workers := workers d @ [w]\<rparr>" and v: "Valid (ReqResources r)"
    by (auto simp: register_tx_def Let_def w_def split: if_splits option.splits)
  have u: "used wid d' = used wid d" for wid by (rule used_cong) (simp_all add: d' get_job_def)
  have keys: "keys_ok d" by (rule wf_keys [OF wf])
  have "filter (holds (WorkerID r)) (attempts d) = []"
    using keys False by (force simp: keys_ok_def filter_empty_conv)
  then have "used (WorkerID r) d = zero_res" by (simp add: used_def)
  with wf v have "capacity_ok d'"
    by (auto simp: tables_ok_def capacity_ok_def u, auto simp: d' w_def res_nonneg_def Valid_def res_le_def zero_res_def)
  moreover have "keys_ok d'" using keys False by (auto simp: keys_ok_def d' w_def)
  moreover have "jobs_ok d'" using wf by (simp add: tables_ok_def jobs_ok_def d')
  ultimately show ?thesis by (simp add: tables_ok_def)
qed

lemma wf_worker_tx:
  assumes wf: "tables_ok d" and env: "env_ok e" and run: "worker_tx e m r d = Inr (resp, d')"
  shows "tables_ok d'"
proof (cases "m = RegisterWorker")
  case True
  with run wf show ?thesis by (auto simp: worker_tx_def dest: wf_register_tx)
next
  case False
  with run obtain w where w: "get_worker (WorkerID r) d = Some w"
    by (auto simp: worker_tx_def split: option.splits)
  let ?h = "\<lambda>w. w\<lparr>w_heartbeat := Clk e 0\<rparr>"
  let ?d = "set_worker (WorkerID r) ?h d"
  have wf1: "tables_ok ?d" using wf by (subst wf_set_worker) simp_all
  have hw: "?h w \<in> set (workers ?d)" "w_id (?h w) = WorkerID r" "w_res (?h w) = w_res w"
    using get_worker_mem [OF w] by (auto simp: set_worker_def set_update_where image_iff intro!: bexI [of _ w])
  have "tables_ok (set_worker (WorkerID r) (\<lambda>w. w\<lparr>w_state := DRAINING\<rparr>) ?d)"
    using wf1 by (subst wf_set_worker) simp_all
  with run False w wf1 wf_lease_tx [OF wf1 env hw(1,2)] wf_attempt_tx [OF wf1] show ?thesis
    by (auto simp: worker_tx_def Let_def hw(3) split: if_splits)
qed

lemma wf_reap_one:
  assumes wf: "tables_ok d" and run: "reap_one e n i d = (k, d')"
  shows "tables_ok d'"
proof (cases "find (expired (Clk e (4 * n + 1))) (attempts_of i d)")
  case None
  with run wf show ?thesis by (simp add: reap_one_def)
next
  case (Some a)
  then have a: "a \<in> set (attempts d)" "a_job a = i" "active (a_state a)"
    by (auto simp: find_Some_iff expired_def attempts_of_mem dest!: nth_mem [of _ "attempts_of i d"])
  show ?thesis
  proof (cases "get_job i d")
    case None
    with run wf Some show ?thesis by (simp add: reap_one_def)
  next
    case (Some j)
    then have j: "j \<in> set (jobs d)" "j_id j = i" by (auto dest: get_job_mem)
    have "a_expires a \<le> a_deadline a"
      using wf_job_ok [OF wf j(1)] a j by (auto simp: job_ok_def attempts_of_mem)
    then have "tables_ok (set_job (j_id j) (\<lambda>k. k\<lparr>j_state := RetryState (a_number a) (j_max j),
        j_updated := Clk e (4 * n + 3)\<rparr>) (set_attempts (\<lambda>b. a_id b = a_id a)
        (\<lambda>b. b\<lparr>a_state := A_EXPIRED, a_finished := Some (Clk e (4 * n + 2)),
          a_reason := Some ''lease or attempt deadline expired''\<rparr>) d))"
      using j a by (intro wf_active_update [OF wf j(1) a(1)]) (simp_all add: RetryState_agrees)
    with run Some \<open>find _ _ = Some a\<close> j show ?thesis by (auto simp: reap_one_def)
  qed
qed

interpretation tables: step_invariant tables_ok
  by unfold_locales (auto intro: wf_submit_one wf_action_tx wf_worker_tx wf_reap_one)

lemma tables_ok_empty: "tables_ok empty_db"
  by (simp add: tables_ok_def keys_ok_def capacity_ok_def jobs_ok_def empty_db_def)

lemma reachable_tables_ok: "reachable d \<Longrightarrow> tables_ok d"
  by (rule tables.reachable_keeps [OF tables_ok_empty])

end
