(* ===== verification/Store_Example.thy ===== *)
theory Store_Example
  imports Store_Steps
begin

text \<open>
  One short history of the control plane, used to show that the properties of theory
  \<open>Store_Props\<close> apply: a job is submitted, a worker registers, leases and starts it and reports
  its completion. Each step is evaluated once, here.
\<close>

definition ex_id :: "nat \<Rightarrow> string" where
  "ex_id n = ''aaaaaaaa-aaaa-4aaa-8aaa-aaaaaaaaaaa'' @ [hex_digit n]"

fun ex_hash :: "payload \<Rightarrow> string" where
  "ex_hash (P_Request r) = RequestID r @ Reason r"
| "ex_hash (P_String s) = s"

definition ex_env :: "nat \<Rightarrow> txenv" where
  "ex_env n = \<lparr>Hash = ex_hash, LeaseSeconds = 30, Locked = (\<lambda>_. False),
     Ids = (\<lambda>i. ex_id (2 * n + i)), Clk = (\<lambda>_. real n)\<rparr>"

definition ex_job :: job where
  "ex_job = \<lparr>Name = ''n'', Command = [''run''], Environment = Some [], Resources = \<lparr>CPU = 1, MemoryMB = 1, GPU = 0\<rparr>,
     MaxAttempts = 2, TimeoutSeconds = 100, IdempotencyKey = ''k'', ArtifactPrefix = ''''\<rparr>"

definition ex_request :: "string \<Rightarrow> request" where
  "ex_request i = \<lparr>RequestID = i, WorkerID = ''w'', SessionID = ''s'', AttemptID = ex_id 4, LeaseToken = ex_id 5,
     Hostname = ''h'', ReqResources = \<lparr>CPU = 2, MemoryMB = 2, GPU = 0\<rparr>, ExitCode = 0, Reason = '''',
     Logs = [], Artifacts = []\<rparr>"

definition ex_checkpoint :: artifact where
  "ex_checkpoint = \<lparr>ObjectKey = ex_id 0 @ ''/'' @ ex_id 4 @ ''/checkpoint/0/c'', ContentType = ''t'', SizeBytes = 1,
     Checksum = replicate 64 CHR ''0'', Kind = ''checkpoint''\<rparr>"

definition ex_ops :: "op list" where
  "ex_ops = [Op_Submit (ex_env 0) [ex_job], Op_RPC (ex_env 1) RegisterWorker (ex_request ''1''),
     Op_RPC (ex_env 2) LeaseJob (ex_request ''2''), Op_RPC (ex_env 3) StartAttempt (ex_request ''3''),
     Op_RPC (ex_env 4) CompleteAttempt ((ex_request ''4'')\<lparr>Artifacts := [ex_checkpoint]\<rparr>)]"

definition ex_db :: "nat \<Rightarrow> db" where
  "ex_db n = fold exec (take n ex_ops) empty_db"

lemma ex_env_ok [simp]: "env_ok (ex_env n)"
  by (simp add: env_ok_def ex_env_def mono_def)

lemma ex_env_sel [simp]:
  "Hash (ex_env n) = ex_hash" "LeaseSeconds (ex_env n) = 30" "Locked (ex_env n) s = False"
  "Ids (ex_env n) i = ex_id (2 * n + i)" "Clk (ex_env n) i = real n"
  by (simp_all add: ex_env_def)

lemma reachable_fold: "reachable d \<Longrightarrow> list_all (\<lambda>p. env_ok (op_env p)) ps \<Longrightarrow> reachable (fold exec ps d)"
  by (induction ps arbitrary: d) (auto intro: reach_step)

lemma ex_ops_ok: "list_all (\<lambda>p. env_ok (op_env p)) (take n ex_ops)"
proof -
  have "\<forall>p \<in> set ex_ops. env_ok (op_env p)" by (simp add: ex_ops_def)
  then show ?thesis by (auto simp: list_all_iff dest: in_set_takeD)
qed

lemma reachable_ex: "reachable (ex_db n)"
  unfolding ex_db_def by (intro reachable_fold reach_init ex_ops_ok)

definition ex_row :: "job_state \<Rightarrow> real \<Rightarrow> job_row" where
  "ex_row st t = \<lparr>j_id = ex_id 0, j_key = ''k'', j_def = ex_job, j_state = st, j_res = Resources ex_job,
     j_max = 2, j_created = 0, j_updated = t\<rparr>"

definition ex_worker :: "nat \<Rightarrow> worker_row" where
  "ex_worker t = \<lparr>w_id = ''w'', w_session = ''s'', w_hostname = ''h'', w_res = \<lparr>CPU = 2, MemoryMB = 2, GPU = 0\<rparr>,
     w_state = ACTIVE, w_registered = 1, w_heartbeat = real t\<rparr>"

definition ex_attempt :: "attempt_state \<Rightarrow> real option \<Rightarrow> real option \<Rightarrow> attempt_row" where
  "ex_attempt st started finished = \<lparr>a_id = ex_id 4, a_job = ex_id 0, a_number = 1, a_worker = ''w'', a_state = st,
     a_token = ex_id 5, a_expires = 32, a_deadline = 102, a_created = 2, a_started = started,
     a_finished = finished, a_exit = map_option (\<lambda>_. 0) finished, a_reason = map_option (\<lambda>_. '''') finished\<rparr>"

definition ex_view :: "db \<Rightarrow> job_row list \<times> worker_row list \<times> attempt_row list
    \<times> artifact_row list \<times> (string \<times> string) list" where
  "ex_view d = (jobs d, workers d, attempts d, artifacts d, map receipt_key (requests d))"

lemma ex_view_registered:
  "ex_view (ex_db 2) = ([ex_row QUEUED 0], [ex_worker 1], [], [], [(''rpc:RegisterWorker:w'', ''1'')])"
  by code_simp

lemma ex_view_leased:
  "ex_view (ex_db 3) = ([ex_row LEASED 2], [ex_worker 2], [ex_attempt A_LEASED None None],
     [], [(''rpc:RegisterWorker:w'', ''1''), (''rpc:LeaseJob:w'', ''2'')])"
  by code_simp

lemma ex_view_done:
  "ex_view (ex_db 5) = ([ex_row SUCCEEDED 4], [ex_worker 4], [ex_attempt A_SUCCEEDED (Some 3) (Some 4)],
     [\<lparr>art_id = ex_id 8, art_job = ex_id 0, art_attempt = ex_id 4, art = ex_checkpoint, art_created = 4\<rparr>], [(''rpc:RegisterWorker:w'', ''1''), (''rpc:LeaseJob:w'', ''2''),
      (''rpc:StartAttempt:w'', ''3''), (''rpc:CompleteAttempt:w'', ''4'')])"
  by code_simp

lemmas ex_db_views = ex_view_registered ex_view_leased ex_view_done

lemma ex_db_Suc: "n < length ex_ops \<Longrightarrow> ex_db (Suc n) = exec (ex_ops ! n) (ex_db n)"
  by (simp add: ex_db_def take_Suc_conv_app_nth)

end
