(* ===== verification/Store_Props.thy ===== *)
theory Store_Props
  imports Store_Example
begin

text \<open>
  What the control plane promises its clients and workers, derived from the table invariant and
  from two further interpretations of \<open>step_invariant\<close>: \<open>tracked\<close> follows one job row through
  any history and relates it to the abstract job life cycle \<open>job_trans\<close>; \<open>finished\<close> follows one
  attempt row that is no longer active. Receipts are followed separately, because they are what
  every transaction writes.
\<close>

section \<open>The abstract life cycle of a job\<close>

inductive job_trans :: "job_state \<Rightarrow> job_state \<Rightarrow> bool" where
  lease: "job_trans QUEUED LEASED"
| start: "job_trans LEASED RUNNING"
| succeed: "job_trans RUNNING SUCCEEDED"
| requeue: "s \<in> {LEASED, RUNNING} \<Longrightarrow> job_trans s QUEUED"
| exhaust: "s \<in> {LEASED, RUNNING} \<Longrightarrow> job_trans s FAILED"
| cancel: "s \<in> {QUEUED, LEASED, RUNNING} \<Longrightarrow> job_trans s CANCELLED"
| retry: "job_trans FAILED QUEUED"

inductive_cases job_trans_from_final: "job_trans SUCCEEDED s" "job_trans CANCELLED s"

inductive_cases job_trans_to_succeeded: "job_trans s SUCCEEDED"

lemma job_trans_final: "job_trans\<^sup>*\<^sup>* s t \<Longrightarrow> s \<in> {SUCCEEDED, CANCELLED} \<Longrightarrow> t = s"
  by (induction rule: rtranclp_induct) (auto elim: job_trans_from_final)

lemma job_trans_RetryState: "s \<in> {LEASED, RUNNING} \<Longrightarrow> job_trans s (RetryState n mx)"
  by (auto simp: RetryState_def intro: requeue exhaust)

definition row_follows :: "job_row \<Rightarrow> job_row \<Rightarrow> bool" where
  "row_follows j k \<longleftrightarrow> j_id k = j_id j \<and> j_key k = j_key j \<and> j_def k = j_def j
     \<and> job_trans\<^sup>*\<^sup>* (j_state j) (j_state k)"

lemma row_follows_refl [simp]: "row_follows j j"
  by (simp add: row_follows_def)

lemma row_follows_trans: "row_follows j k \<Longrightarrow> row_follows k l \<Longrightarrow> row_follows j l"
  by (auto simp: row_follows_def)

lemma row_follows_step:
  assumes "j_id k = j_id j" "j_key k = j_key j" "j_def k = j_def j" "j_state k = j_state j \<or> job_trans (j_state j) (j_state k)"
  shows "row_follows j k"
  using assms by (auto simp: row_follows_def)

definition job_kept :: "job_row \<Rightarrow> db \<Rightarrow> bool" where
  "job_kept j d \<longleftrightarrow> (\<exists>k. get_job (j_id j) d = Some k \<and> row_follows j k)"

lemma get_job_frames [simp]:
  "get_job i (d\<lparr>requests := qs\<rparr>) = get_job i d" "get_job i (d\<lparr>artifacts := x\<rparr>) = get_job i d"
  "get_job i (event jid aid kind p now d) = get_job i d"
  "get_job i (attempt_event e m r jid d) = get_job i d"
  "get_job i (set_worker w h d) = get_job i d" "get_job i (set_attempts pr f d) = get_job i d"
  "get_job i (d\<lparr>workers := ws\<rparr>) = get_job i d" "get_job i (d\<lparr>attempts := as\<rparr>) = get_job i d"
  by (simp_all add: get_job_def event_def attempt_event_def set_worker_def set_attempts_def)

lemma job_kept_frames [simp]:
  "job_kept j (d\<lparr>requests := q\<rparr>) = job_kept j d" "job_kept j (d\<lparr>artifacts := x\<rparr>) = job_kept j d"
  "job_kept j (event jid aid kind p now d) = job_kept j d"
  "job_kept j (attempt_event e m r jid d) = job_kept j d"
  "job_kept j (set_worker w h d) = job_kept j d" "job_kept j (set_attempts pr f d) = job_kept j d"
  "job_kept j (d\<lparr>workers := ws\<rparr>) = job_kept j d"
  by (simp_all add: job_kept_def)

lemma get_job_set_job:
  assumes "\<And>k. j_id (g k) = j_id k"
  shows "get_job i (set_job n g d) = map_option (\<lambda>j. if j_id j = n then g j else j) (get_job i d)"
proof -
  have "find (\<lambda>r. j_id r = i) (update_where (\<lambda>j. j_id j = n) g rows)
      = map_option (\<lambda>j. if j_id j = n then g j else j) (find (\<lambda>r. j_id r = i) rows)" for rows
    by (induction rows) (simp_all add: update_where_def assms)
  then show ?thesis by (simp add: get_job_def lookup_by_def set_job_def)
qed

lemma job_kept_set_job:
  assumes kept: "job_kept j d" and n: "get_job n d = Some k"
    and g: "\<And>l. j_id (g l) = j_id l" "\<And>l. j_key (g l) = j_key l" "\<And>l. j_def (g l) = j_def l"
    and st: "j_state (g k) = j_state k \<or> job_trans (j_state k) (j_state (g k))"
  shows "job_kept j (set_job n g d)"
proof -
  from kept obtain k' where k': "get_job (j_id j) d = Some k'" "row_follows j k'"
    by (auto simp: job_kept_def)
  show ?thesis
  proof (cases "j_id k' = n")
    case True
    with k' n have "k' = k" using get_job_mem [OF k'(1)] by simp
    moreover have "row_follows k (g k)" by (rule row_follows_step) (simp_all add: g st)
    ultimately show ?thesis using k' True
      by (auto simp: job_kept_def get_job_set_job g intro: row_follows_trans)
  next
    case False
    with k' show ?thesis by (auto simp: job_kept_def get_job_set_job g)
  qed
qed

lemma lookup_by_append_Some: "lookup_by key k xs = Some r \<Longrightarrow> lookup_by key k (xs @ ys) = Some r"
  by (induction xs) (auto simp: lookup_by_def)

lemma job_kept_append: "job_kept j d \<Longrightarrow> job_kept j (d\<lparr>jobs := jobs d @ js\<rparr>)"
  by (auto simp: job_kept_def get_job_def dest: lookup_by_append_Some)

lemma kept_submit_one: "job_kept j d \<Longrightarrow> submit_one i now jb d = Inr (row, d') \<Longrightarrow> job_kept j d'"
  by (auto simp: submit_one_def insert_job_def bindR_Inr_iff job_kept_append
      split: option.splits if_splits)

lemma kept_action_tx:
  assumes kept: "job_kept j d" and run: "action_tx e i act rid d = Inr (r, d')"
  shows "job_kept j d'"
proof -
  from run obtain k where k: "get_job i d = Some k" by (auto simp: action_tx_def split: option.splits)
  have k': "get_job i (set_attempts p f d) = Some k" for p f
    using k by simp
  have fin: "job_kept j (set_job i (\<lambda>l. l\<lparr>j_state := st, j_max := mx, j_updated := t\<rparr>) d1)"
    if "job_kept j d1" "get_job i d1 = Some k" "st = j_state k \<or> job_trans (j_state k) st" for d1 st mx t
    by (rule job_kept_set_job [OF that(1,2)]) (use that(3) in auto)
  from run k have st: "act = Cancel \<Longrightarrow> j_state k = CANCELLED \<or> job_trans (j_state k) CANCELLED"
    "act = Retry \<Longrightarrow> job_trans (j_state k) QUEUED"
    by (cases "j_state k"; auto simp: action_tx_def intro: job_trans.intros split: if_splits)+
  with run k kept fin [OF kept k] fin [OF _ k', simplified] show ?thesis
    by (auto simp: action_tx_def finish_action_def Let_def split: if_splits option.splits action.splits)
qed

lemma wf_job_state_active:
  assumes "tables_ok d" "get_job (a_job a) d = Some j" "a \<in> set (attempts d)" "active (a_state a)"
  shows "(j_state j = LEASED \<and> a_state a = A_LEASED) \<or> (j_state j = RUNNING \<and> a_state a = A_RUNNING)"
proof -
  from get_job_mem [OF assms(2)] have j: "j \<in> set (jobs d)" "a_job a = j_id j" by auto
  from job_ok_active_state [OF wf_job_ok [OF assms(1) j(1)]] wf_active_last [OF assms(1) j(1) assms(3) j(2) assms(4)]
    assms(4) show ?thesis by simp
qed

lemma kept_attempt_tx:
  assumes wf: "tables_ok d" and kept: "job_kept j d" and run: "attempt_tx e m r d = Inr (resp, d')"
  shows "job_kept j d'"
  using run
proof (cases rule: attempt_tx_Inr)
  case (1 a k)
  then have a: "a \<in> set (attempts d)" "active (a_state a)" by (auto dest: get_attempt_mem simp: fence_def)
  note st = wf_job_state_active [OF wf 1(2) a]
  have k: "j_id k = a_job a" using get_job_mem [OF 1(2)] by simp
  have upd: "job_kept j (set_job (j_id k) (\<lambda>l. l\<lparr>j_state := jst, j_updated := t\<rparr>)
       (set_attempts p f (d\<lparr>artifacts := x\<rparr>)))"
    if "jst = j_state k \<or> job_trans (j_state k) jst" for jst t p f x
    by (rule job_kept_set_job [of _ _ _ k]) (use kept 1(2) that k in auto)
  consider "m = Heartbeat" | "m = StartAttempt" | "m \<noteq> Heartbeat" "m \<noteq> StartAttempt" by blast
  then show ?thesis
  proof cases
    case hb: 1
    with 1(4) kept show ?thesis by (auto simp: heartbeat_tx_def Let_def)
  next
    case 2
    have "job_trans LEASED RUNNING" by (rule job_trans.intros)
    with 2 1(4) kept st upd [of RUNNING _ _ _ "artifacts d"] show ?thesis
      by (auto simp: start_tx_def Let_def split: if_splits)
  next
    case 3
    with 1(4) have "report_tx e m r k a d = Inr (resp, d')" by simp
    then show ?thesis
    proof (cases rule: report_tx_Inr)
      case (1 xs)
      with st have "j_state k = RUNNING" by auto
      with 1(5) kept show ?thesis
        by (auto simp: finish_attempt_def intro!: upd job_trans_RetryState intro: job_trans.intros)
    qed
  qed
qed

lemma kept_lease_tx:
  assumes kept: "job_kept j d" and wf: "tables_ok d" and run: "lease_tx e r cap d = Inr (resp, d')"
  shows "job_kept j d'"
  using run
proof (cases rule: lease_tx_Inr)
  case (leased k d1 kind payload)
  then have k: "k \<in> set (jobs d)" "j_state k = QUEUED" by (auto dest!: oldest_Some simp: compatible_def)
  from leased(2) have "d1 = d\<lparr>attempts := attempts d @ [leased_attempt e r k d]\<rparr>"
    by (auto simp: insert_attempt_def split: if_splits)
  then have "job_kept j d1" "get_job (j_id k) d1 = Some k"
    using kept get_job_unique [OF wf_keys [OF wf] k(1)] by (simp_all add: job_kept_def)
  then have "job_kept j (set_job (j_id k) (\<lambda>j. j\<lparr>j_state := LEASED, j_updated := Clk e 5\<rparr>) d1)"
    by (rule job_kept_set_job) (use k(2) in \<open>auto intro: job_trans.intros\<close>)
  with leased(4) show ?thesis by simp
qed (simp add: kept)

lemma kept_worker_tx:
  assumes wf: "tables_ok d" and kept: "job_kept j d" and run: "worker_tx e m r d = Inr (resp, d')"
  shows "job_kept j d'"
proof -
  let ?d = "set_worker (WorkerID r) (\<lambda>w. w\<lparr>w_heartbeat := Clk e 0\<rparr>) d"
  have wf1: "tables_ok ?d" using wf by (subst wf_set_worker) simp_all
  have kept1: "job_kept j ?d" using kept by simp
  show ?thesis
  proof (cases "m = RegisterWorker")
    case True
    with run kept show ?thesis
      by (auto simp: worker_tx_def register_tx_def Let_def split: if_splits option.splits)
  next
    case False
    with run kept1 kept_lease_tx [OF kept1 wf1] kept_attempt_tx [OF wf1 kept1] show ?thesis
      by (auto simp: worker_tx_def Let_def split: if_splits option.splits)
  qed
qed

lemma reap_one_cases:
  assumes "reap_one e n i d = (k, d')"
  obtains (none) "k = 0" "d' = d"
  | (one) a j where "k = 1" "find (expired (Clk e (4 * n + 1))) (attempts_of i d) = Some a"
      "a \<in> set (attempts d)" "a_job a = i" "active (a_state a)" "a_expires a \<le> Clk e (4 * n + 1)"
      "get_job i d = Some j"
      "d' = event i (Some (a_id a)) ''LEASE_EXPIRED'' EP_Expired (Clk e (4 * n + 4))
        (set_job i (\<lambda>k. k\<lparr>j_state := RetryState (a_number a) (j_max j), j_updated := Clk e (4 * n + 3)\<rparr>)
          (set_attempts (\<lambda>b. a_id b = a_id a)
            (\<lambda>b. b\<lparr>a_state := A_EXPIRED, a_finished := Some (Clk e (4 * n + 2)),
                   a_reason := Some ''lease or attempt deadline expired''\<rparr>) d))"
proof (cases "find (expired (Clk e (4 * n + 1))) (attempts_of i d)")
  case None
  with assms none show ?thesis by (simp add: reap_one_def)
next
  case (Some a)
  then have "a \<in> set (attempts_of i d)" "expired (Clk e (4 * n + 1)) a"
    by (auto simp: find_Some_iff)
  then have a: "a \<in> set (attempts d)" "a_job a = i" "active (a_state a)" "a_expires a \<le> Clk e (4 * n + 1)"
    by (auto simp: attempts_of_mem expired_def)
  show ?thesis
  proof (cases "get_job i d")
    case None
    with assms Some none show ?thesis by (simp add: reap_one_def)
  next
    case j: (Some j)
    from assms Some j show ?thesis by (intro one [OF _ Some a j]) (auto simp: reap_one_def)
  qed
qed

lemma kept_reap_one:
  assumes wf: "tables_ok d" and kept: "job_kept j d" and run: "reap_one e n i d = (k, d')"
  shows "job_kept j d'"
  using run
proof (cases rule: reap_one_cases)
  case (one a l)
  then have "get_job (a_job a) d = Some l" by simp
  from wf_job_state_active [OF wf this one(3,5)]
  have "job_trans (j_state l) (RetryState (a_number a) (j_max l))" by (intro job_trans_RetryState) auto
  then show ?thesis
    unfolding one(8) job_kept_frames by (intro job_kept_set_job [of _ _ _ l]) (use kept one(7) in simp_all)
qed (simp add: kept)

interpretation tracked: step_invariant "\<lambda>d. tables_ok d \<and> job_kept j d" for j
  by unfold_locales
    (auto intro: wf_submit_one wf_action_tx wf_worker_tx wf_reap_one
      kept_submit_one kept_action_tx kept_worker_tx kept_reap_one)

lemma job_kept_mem: "tables_ok d \<Longrightarrow> j \<in> set (jobs d) \<Longrightarrow> job_kept j d"
  by (simp add: job_kept_def get_job_unique [OF wf_keys])

section \<open>Attempts that are over\<close>

definition over :: "attempt_row \<Rightarrow> db \<Rightarrow> bool" where
  "over a d \<longleftrightarrow> a \<in> set (attempts d) \<and> \<not> active (a_state a)"

lemma over_frames [simp]:
  "over a (d\<lparr>requests := qs\<rparr>) = over a d" "over a (d\<lparr>artifacts := x\<rparr>) = over a d"
  "over a (event jid aid kind p now d) = over a d" "over a (attempt_event e m r jid d) = over a d"
  "over a (set_worker w h d) = over a d" "over a (set_job i g d) = over a d"
  "over a (d\<lparr>workers := ws\<rparr>) = over a d" "over a (d\<lparr>jobs := js\<rparr>) = over a d"
  by (simp_all add: over_def event_def attempt_event_def set_worker_def set_job_def)

lemma over_set_attempts: "over a d \<Longrightarrow> \<not> p a \<Longrightarrow> over a (set_attempts p f d)"
  by (force simp: over_def set_attempts_def set_update_where)

lemma over_other_id:
  assumes "tables_ok d" "over a d" "b \<in> set (attempts d)" "active (a_state b)"
  shows "a_id a \<noteq> a_id b"
  using assms keys_ok_unique(3) [OF wf_keys] unfolding over_def by metis

lemma over_submit_one: "over a d \<Longrightarrow> submit_one i now jb d = Inr (row, d') \<Longrightarrow> over a d'"
  by (auto simp: submit_one_def insert_job_def bindR_Inr_iff split: option.splits if_splits)

lemma over_action_tx: "over a d \<Longrightarrow> action_tx e i act rid d = Inr (r, d') \<Longrightarrow> over a d'"
  by (auto simp: action_tx_def finish_action_def Let_def over_def [of a d] intro!: over_set_attempts
      split: if_splits option.splits action.splits)

lemma over_attempt_tx:
  assumes wf: "tables_ok d" and ov: "over a d" and run: "attempt_tx e m r d = Inr (resp, d')"
  shows "over a d'"
  using run
proof (cases rule: attempt_tx_Inr)
  case (1 b k)
  then have b: "b \<in> set (attempts d)" "active (a_state b)" "a_id b = AttemptID r"
    by (auto dest: get_attempt_mem simp: fence_def)
  from over_other_id [OF wf ov b(1,2)] b(3) have ne: "a_id a \<noteq> AttemptID r" by simp
  from 1(4) ne ov show ?thesis
    by (auto simp: heartbeat_tx_def start_tx_def report_tx_def finish_attempt_def bindR_Inr_iff Let_def
        intro!: over_set_attempts split: if_splits dest!: record_artifacts_frame)
qed

lemma over_worker_tx:
  assumes wf: "tables_ok d" and ov: "over a d" and run: "worker_tx e m r d = Inr (resp, d')"
  shows "over a d'"
proof -
  let ?d = "set_worker (WorkerID r) (\<lambda>w. w\<lparr>w_heartbeat := Clk e 0\<rparr>) d"
  have wf1: "tables_ok ?d" using wf by (subst wf_set_worker) simp_all
  have ov1: "over a ?d" using ov by simp
  have "over a d'" if "lease_tx e r cap ?d = Inr (resp, d')" for cap
    using that
  proof (cases rule: lease_tx_Inr)
    case (leased j d1 kind payload)
    then have "over a d1" using ov1 by (auto simp: insert_attempt_def over_def split: if_splits)
    with leased(4) show ?thesis by simp
  qed (simp add: ov)
  with run ov over_attempt_tx [OF wf1 ov1] show ?thesis
    by (auto simp: worker_tx_def register_tx_def Let_def split: if_splits option.splits)
qed

lemma over_reap_one:
  assumes wf: "tables_ok d" and ov: "over a d" and run: "reap_one e n i d = (k, d')"
  shows "over a d'"
  using run
proof (cases rule: reap_one_cases)
  case (one b l)
  from over_other_id [OF wf ov one(3,5)] ov show ?thesis by (simp add: one(8) over_set_attempts)
qed (simp add: ov)

interpretation finished: step_invariant "\<lambda>d. tables_ok d \<and> over a d" for a
  by unfold_locales
    (auto intro: wf_submit_one wf_action_tx wf_worker_tx wf_reap_one
      over_submit_one over_action_tx over_worker_tx over_reap_one)

lemma over_get_attempt: "tables_ok d \<Longrightarrow> over a d \<Longrightarrow> get_attempt (a_id a) d = Some a"
  by (auto simp: over_def get_attempt_def keys_ok_def dest!: wf_keys intro: lookup_by_unique)

section \<open>Receipts\<close>

text \<open>The transactions inside \<open>Mutate\<close>, submission and expiry leave the receipts alone.\<close>

lemma requests_frames [simp]:
  "requests (event jid aid kind p now d) = requests d" "requests (attempt_event e m r jid d) = requests d"
  "requests (set_worker w h d) = requests d" "requests (set_job i g d) = requests d"
  "requests (set_attempts pr f d) = requests d"
  by (simp_all add: event_def attempt_event_def set_worker_def set_job_def set_attempts_def)

lemma requests_submit_one: "submit_one i now jb d = Inr (row, d') \<Longrightarrow> requests d' = requests d"
  by (auto simp: submit_one_def insert_job_def bindR_Inr_iff split: option.splits if_splits)

lemma requests_submit_loop: "submit_loop e n js d = Inr (rows, d') \<Longrightarrow> requests d' = requests d"
  by (induction js arbitrary: n d rows d') (auto simp: bindR_Inr_iff dest: requests_submit_one)

lemma requests_action_tx: "action_tx e i act rid d = Inr (r, d') \<Longrightarrow> requests d' = requests d"
  by (auto simp: action_tx_def finish_action_def Let_def split: if_splits option.splits action.splits)

lemma requests_attempt_tx: "attempt_tx e m r d = Inr (resp, d') \<Longrightarrow> requests d' = requests d"
  by (erule attempt_tx_Inr) (auto simp: heartbeat_tx_def start_tx_def report_tx_def finish_attempt_def
      bindR_Inr_iff Let_def split: if_splits dest!: record_artifacts_frame)

lemma requests_lease_tx: "lease_tx e r cap d = Inr (resp, d') \<Longrightarrow> requests d' = requests d"
  by (erule lease_tx_Inr) (auto simp: insert_attempt_def split: if_splits)

lemma requests_worker_tx: "worker_tx e m r d = Inr (resp, d') \<Longrightarrow> requests d' = requests d"
  by (auto simp: worker_tx_def register_tx_def Let_def split: if_splits option.splits
      dest: requests_attempt_tx requests_lease_tx)

lemma requests_reap_loop: "reap_loop e n is d = (k, d') \<Longrightarrow> requests d' = requests d"
  by (induction "is" arbitrary: n d k d') (auto simp: reap_one_def split: prod.splits option.splits)

definition receipt :: "string \<Rightarrow> string \<Rightarrow> db \<Rightarrow> request_row option" where
  "receipt scope i d = lookup_by receipt_key (scope, i) (requests d)"

lemma lookup_by_update_where:
  "(\<And>r. key (f r) = key r) \<Longrightarrow> lookup_by key k' (update_where (\<lambda>r. key r = c') f rows)
     = map_option (\<lambda>r. if key r = c' then f r else r) (lookup_by key k' rows)"
  by (induction rows) (auto simp: lookup_by_def update_where_def)

lemma receipt_Mutate:
  assumes q: "receipt s i d = Some q" "rq_response q = Some r"
    and fn: "\<And>d r d'. fn d = Inr (r, d') \<Longrightarrow> requests d' = requests d"
    and run: "Mutate s' i' h fn d = Inr (r', d')"
  shows "receipt s i d' = Some q"
proof -
  define d1 where "d1 = (if (s', i') \<in> receipt_key ` set (requests d) then d else
    d\<lparr>requests := requests d @ [\<lparr>rq_scope = s', rq_id = i', rq_hash = h, rq_response = None\<rparr>]\<rparr>)"
  have q1: "lookup_by receipt_key (s, i) (requests d1) = Some q"
    using q(1) by (auto simp: d1_def receipt_def intro: lookup_by_append_Some)
  from run consider "d' = d1" | r2 d2 q2 where "fn d1 = Inr (r2, d2)"
      "lookup_by receipt_key (s', i') (requests d1) = Some q2" "rq_response q2 = None"
      "d' = d2\<lparr>requests := update_where (\<lambda>q. receipt_key q = (s', i')) (\<lambda>q. q\<lparr>rq_response := Some r2\<rparr>) (requests d2)\<rparr>"
    by (auto simp: Mutate_def Let_def d1_def [symmetric] bindR_Inr_iff split: if_splits option.splits)
  then show ?thesis
  proof cases
    case 2
    with q q1 have ne: "(s, i) \<noteq> (s', i')" by auto
    with q1 have k: "receipt_key q \<noteq> (s', i')" by (auto dest: lookup_by_Some)
    have "requests d2 = requests d1" using fn [OF 2(1)] .
    moreover have "receipt_key (q\<lparr>rq_response := x\<rparr>) = receipt_key q" for q x by (simp add: receipt_key_def)
    ultimately show ?thesis
      using q1 k by (simp add: 2(4) receipt_def lookup_by_update_where)
  qed (use q1 in \<open>simp add: receipt_def\<close>)
qed

lemma receipt_exec:
  assumes q: "receipt s i d = Some q" "rq_response q = Some r"
  shows "receipt s i (exec p d) = Some q"
proof (cases p)
  case (Op_Submit e js)
  with q show ?thesis
    by (auto simp: committed_def Submit_def receipt_def split: sum.splits if_splits dest!: requests_submit_loop)
next
  case (Op_Action e j act rid)
  with q show ?thesis
    by (auto simp: committed_def Action_def split: sum.splits intro: receipt_Mutate [OF q requests_action_tx])
next
  case (Op_RPC e m r)
  with q show ?thesis
    by (auto simp: committed_def RPC_def split: sum.splits if_splits intro: receipt_Mutate [OF q requests_worker_tx])
next
  case (Op_Reap e)
  then show ?thesis
    using q requests_reap_loop [of e 0 "reap_candidates e d" d]
    by (auto simp: committed_def Reap_def receipt_def split: sum.splits prod.splits)
qed

lemma receipt_history:
  "receipt s i d = Some q \<Longrightarrow> rq_response q = Some r \<Longrightarrow> receipt s i (fold exec ps d) = Some q"
  by (induction ps arbitrary: d) (simp_all add: receipt_exec)

lemma Mutate_replay:
  assumes "receipt s i d = Some q" "rq_response q = Some r" "i \<noteq> []" "length i \<le> 256"
  shows "Mutate s i h fn d = (if h = rq_hash q then Inr (r, d) else Inl ErrConflict)"
  using assms lookup_by_Some [of receipt_key "(s, i)" "requests d" q]
  by (auto simp: Mutate_def receipt_def Let_def image_iff)

lemma Mutate_writes_receipt:
  assumes run: "Mutate s i h fn d = Inr (r, d')"
    and fn: "\<And>d r d'. fn d = Inr (r, d') \<Longrightarrow> requests d' = requests d"
  shows "\<exists>q. receipt s i d' = Some q \<and> rq_hash q = h \<and> rq_response q = Some r \<and> i \<noteq> [] \<and> length i \<le> 256"
proof -
  define d1 where "d1 = (if (s, i) \<in> receipt_key ` set (requests d) then d else
    d\<lparr>requests := requests d @ [\<lparr>rq_scope = s, rq_id = i, rq_hash = h, rq_response = None\<rparr>]\<rparr>)"
  from run have i: "i \<noteq> []" "length i \<le> 256" by (auto simp: Mutate_def split: if_splits)
  from run obtain q where q: "lookup_by receipt_key (s, i) (requests d1) = Some q" "rq_hash q = h"
    and rest: "(rq_response q = Some r \<and> d' = d1) \<or> (\<exists>d2. fn d1 = Inr (r, d2) \<and>
      d' = d2\<lparr>requests := update_where (\<lambda>q. receipt_key q = (s, i)) (\<lambda>q. q\<lparr>rq_response := Some r\<rparr>) (requests d2)\<rparr>)"
    by (auto simp: Mutate_def Let_def d1_def [symmetric] bindR_Inr_iff split: if_splits option.splits)
  from rest show ?thesis
  proof (elim disjE exE conjE)
    fix d2 assume run2: "fn d1 = Inr (r, d2)" and d': "d' = d2\<lparr>requests := update_where (\<lambda>q. receipt_key q = (s, i))
      (\<lambda>q. q\<lparr>rq_response := Some r\<rparr>) (requests d2)\<rparr>"
    have eq: "requests d2 = requests d1" using fn [OF run2] .
    have key: "receipt_key (q\<lparr>rq_response := x\<rparr>) = receipt_key q" for q x by (simp add: receipt_key_def)
    have "receipt s i d' = Some (q\<lparr>rq_response := Some r\<rparr>)"
      using q lookup_by_Some [OF q(1)] by (simp add: d' receipt_def eq lookup_by_update_where key)
    with q i show ?thesis by auto
  qed (use q i in \<open>auto simp: receipt_def\<close>)
qed

section \<open>Promises to clients and workers\<close>

lemma ex_done_over: "over (ex_attempt A_SUCCEEDED (Some 3) (Some 4)) (ex_db 5)"
  using ex_view_done by (simp add: ex_view_def over_def ex_attempt_def active_def)

lemma attempt_tx_over:
  assumes "tables_ok d" "over a d" "AttemptID r = a_id a"
  shows "\<exists>err. attempt_tx e m r d = Inl err"
  using over_get_attempt [OF assms(1,2)] assms(2,3)
  by (auto simp: attempt_tx_def over_def fence_def split: option.splits)

definition on_attempt :: "rpc_method \<Rightarrow> bool" where
  "on_attempt m \<longleftrightarrow> m \<in> {StartAttempt, Heartbeat, ReportProgress, CompleteAttempt, FailAttempt}"

lemma worker_tx_over:
  assumes wf: "tables_ok d" and ov: "over a d" and r: "AttemptID r = a_id a" "a_id a \<noteq> ''''" and m: "on_attempt m"
  shows "\<exists>err. worker_tx e m r d = Inl err"
proof -
  let ?d = "set_worker (WorkerID r) (\<lambda>w. w\<lparr>w_heartbeat := Clk e 0\<rparr>) d"
  have "tables_ok ?d" using wf by (subst wf_set_worker) simp_all
  moreover have "over a ?d" using ov by simp
  ultimately obtain err where "attempt_tx e m r ?d = Inl err" using attempt_tx_over r(1) by blast
  with r m show ?thesis by (auto simp: worker_tx_def on_attempt_def Let_def split: option.splits if_splits)
qed

lemma lookup_by_append_new: "k \<notin> key ` set xs \<Longrightarrow> key x = k \<Longrightarrow> lookup_by key k (xs @ [x]) = Some x"
  by (induction xs) (auto simp: lookup_by_def)

lemma receipt_None: "receipt s i d = None \<longleftrightarrow> (s, i) \<notin> set (map receipt_key (requests d))"
  by (auto simp: receipt_def lookup_by_None)

lemma Mutate_fresh_error:
  assumes "receipt s i d = None" "\<And>qs. \<exists>err. fn (d\<lparr>requests := qs\<rparr>) = Inl err"
  shows "\<exists>err. Mutate s i h fn d = Inl err"
proof -
  have new: "(s, i) \<notin> receipt_key ` set (requests d)"
    using assms(1) by (simp add: receipt_None)
  then have look: "lookup_by receipt_key (s, i) (requests d @ [\<lparr>rq_scope = s, rq_id = i, rq_hash = h, rq_response = None\<rparr>])
      = Some \<lparr>rq_scope = s, rq_id = i, rq_hash = h, rq_response = None\<rparr>"
    by (rule lookup_by_append_new) (simp add: receipt_key_def)
  obtain err where "fn (d\<lparr>requests := requests d @ [\<lparr>rq_scope = s, rq_id = i, rq_hash = h, rq_response = None\<rparr>]\<rparr>) = Inl err"
    using assms(2) by blast
  with new look show ?thesis
    by (auto simp: Mutate_def Let_def bindR_simps)
qed

definition rpc_scope :: "rpc_method \<Rightarrow> request \<Rightarrow> string" where
  "rpc_scope m r = ''rpc:'' @ method_name m @ '':'' @ WorkerID r"

text \<open>C1: Fencing. Once an attempt is over (succeeded, failed, expired or cancelled), no later history
  changes its row, and every request about it that was not already answered is refused, whatever
  worker, session or lease token it carries; the refused transaction leaves the database as it was.\<close>

theorem finished_attempt_fenced:
  assumes "reachable d" "over a d" "list_all (\<lambda>p. env_ok (op_env p)) ps"
    and "on_attempt m" "AttemptID r = a_id a" "a_id a \<noteq> ''''"
    and fresh: "receipt (rpc_scope m r) (RequestID r) (fold exec ps d) = None"
  shows "get_attempt (a_id a) (fold exec ps d) = Some a
    \<and> (\<exists>err. RPC e m r (fold exec ps d) = Inl err) \<and> committed (RPC e m r) (fold exec ps d) = fold exec ps d"
proof -
  let ?d = "fold exec ps d"
  have I: "tables_ok ?d \<and> over a ?d"
    using finished.history_keeps [of d a ps] assms(2,3) reachable_tables_ok [OF assms(1)] by simp
  have "\<exists>err. worker_tx e m r (?d\<lparr>requests := qs\<rparr>) = Inl err" for qs
    by (rule worker_tx_over [OF _ _ assms(5,6,4)]) (use I in simp_all)
  then have "\<exists>err. Mutate (rpc_scope m r) (RequestID r) h (worker_tx e m r) ?d = Inl err" for h
    by (rule Mutate_fresh_error [OF fresh])
  then have "\<exists>err. RPC e m r ?d = Inl err" by (auto simp: RPC_def rpc_scope_def)
  with over_get_attempt [of ?d a] I show ?thesis by (auto simp: committed_def)
qed

theorem finished_attempt_fenced_witness:
  "\<exists>err. RPC (ex_env 9) CompleteAttempt (ex_request ''late'') (ex_db 5) = Inl err"
proof -
  have "receipt (rpc_scope CompleteAttempt (ex_request ''late'')) (RequestID (ex_request ''late'')) (ex_db 5) = None"
    using ex_view_done by (simp add: ex_view_def receipt_None rpc_scope_def ex_request_def del: set_map)
  then show ?thesis
    using finished_attempt_fenced [OF reachable_ex ex_done_over, of "[]" CompleteAttempt "ex_request ''late''" "ex_env 9"]
    by (simp add: ex_request_def ex_attempt_def on_attempt_def ex_id_def)
qed

text \<open>C4: Refinement to the abstract life cycle. Whatever history runs after a job was submitted, its
  row is still there with the same key and definition, its state has followed the abstract machine
  \<open>job_trans\<close>, and a job that succeeded or was cancelled keeps that state for ever.\<close>

theorem job_follows_life_cycle:
  assumes "reachable d" "j \<in> set (jobs d)" "list_all (\<lambda>p. env_ok (op_env p)) ps"
  shows "\<exists>k. get_job (j_id j) (fold exec ps d) = Some k \<and> j_key k = j_key j \<and> j_def k = j_def j
    \<and> job_trans\<^sup>*\<^sup>* (j_state j) (j_state k)
    \<and> (j_state j \<in> {SUCCEEDED, CANCELLED} \<longrightarrow> j_state k = j_state j)"
proof -
  have "tables_ok d" by (rule reachable_tables_ok [OF assms(1)])
  with tracked.history_keeps [of d j ps] job_kept_mem [OF _ assms(2)] assms(3)
  have "job_kept j (fold exec ps d)" by simp
  then obtain k where k: "get_job (j_id j) (fold exec ps d) = Some k" "row_follows j k" by (auto simp: job_kept_def)
  from k(2) job_trans_final have "j_state j \<in> {SUCCEEDED, CANCELLED} \<longrightarrow> j_state k = j_state j"
    by (auto simp: row_follows_def simp del: insert_iff)
  with k show ?thesis by (auto simp: row_follows_def)
qed

theorem job_follows_life_cycle_witness:
  "\<exists>k. get_job (ex_id 0) (fold exec (drop 2 ex_ops) (ex_db 2)) = Some k \<and> job_trans\<^sup>*\<^sup>* QUEUED (j_state k)"
proof -
  have "ex_row QUEUED 0 \<in> set (jobs (ex_db 2))" using ex_view_registered by (simp add: ex_view_def)
  moreover have "list_all (\<lambda>p. env_ok (op_env p)) (drop 2 ex_ops)" by (simp add: ex_ops_def)
  ultimately show ?thesis
    using job_follows_life_cycle [OF reachable_ex, of "ex_row QUEUED 0" 2 "drop 2 ex_ops"] by (auto simp: ex_row_def)
qed

text \<open>C5: Capacity. In every reachable database the reservations of the attempts a worker holds never
  exceed, in any resource, what the worker registered.\<close>

theorem capacity_never_exceeded:
  assumes "reachable d" "w \<in> set (workers d)"
  shows "res_le (used (w_id w) d) (w_res w)"
  using reachable_tables_ok [OF assms(1)] assms(2) by (simp add: tables_ok_def capacity_ok_def)

theorem capacity_never_exceeded_witness:
  "res_le (used ''w'' (ex_db 3)) \<lparr>CPU = 2, MemoryMB = 2, GPU = 0\<rparr>"
proof -
  have "ex_worker 2 \<in> set (workers (ex_db 3))" using ex_view_leased by (simp add: ex_view_def)
  from capacity_never_exceeded [OF reachable_ex this] show ?thesis by (simp add: ex_worker_def)
qed

lemma filter_active:
  assumes "job_ok j as"
  shows "length (filter (\<lambda>a. active (a_state a)) as) = (if j_state j \<in> {LEASED, RUNNING} then 1 else 0)"
proof (cases as rule: rev_cases)
  case Nil
  with assms show ?thesis by (cases "j_state j") (auto simp: job_ok_def last_state_def)
next
  case (snoc bs b)
  with assms have "filter (\<lambda>a. active (a_state a)) bs = []" by (auto simp: job_ok_def filter_empty_conv)
  moreover have "active (a_state b) \<longleftrightarrow> j_state j \<in> {LEASED, RUNNING}"
    using assms snoc by (cases "j_state j") (auto simp: job_ok_def last_state_def active_def)
  ultimately show ?thesis using snoc by auto
qed

lemma filter_succeeded:
  assumes "job_ok j as"
  shows "length (filter (\<lambda>a. a_state a = A_SUCCEEDED) as) = (if j_state j = SUCCEEDED then 1 else 0)"
proof (cases as rule: rev_cases)
  case Nil
  with assms show ?thesis by (cases "j_state j") (auto simp: job_ok_def last_state_def)
next
  case (snoc bs b)
  with assms have "filter (\<lambda>a. a_state a = A_SUCCEEDED) bs = []" by (auto simp: job_ok_def filter_empty_conv)
  moreover have "a_state b = A_SUCCEEDED \<longleftrightarrow> j_state j = SUCCEEDED"
    using assms snoc by (cases "j_state j") (auto simp: job_ok_def last_state_def)
  ultimately show ?thesis using snoc by auto
qed

text \<open>C3: One owner and one success. In every reachable database a job has exactly one active attempt
  when it is leased or running and none otherwise, exactly one succeeded attempt when it succeeded
  and none otherwise, and its attempts are numbered 1, 2, ... without gap up to at most its budget.\<close>

theorem one_owner_one_success:
  assumes "reachable d" "j \<in> set (jobs d)"
  shows "length (filter (\<lambda>a. active (a_state a)) (attempts_of (j_id j) d))
      = (if j_state j \<in> {LEASED, RUNNING} then 1 else 0)
    \<and> length (filter (\<lambda>a. a_state a = A_SUCCEEDED) (attempts_of (j_id j) d))
      = (if j_state j = SUCCEEDED then 1 else 0)
    \<and> map a_number (attempts_of (j_id j) d) = map int [1..<Suc (length (attempts_of (j_id j) d))]
    \<and> int (length (attempts_of (j_id j) d)) \<le> j_max j"
proof -
  have ok: "job_ok j (attempts_of (j_id j) d)"
    by (rule wf_job_ok [OF reachable_tables_ok [OF assms(1)] assms(2)])
  with filter_active [OF ok] filter_succeeded [OF ok] show ?thesis by (simp add: job_ok_def)
qed

theorem one_owner_one_success_witness:
  "length (filter (\<lambda>a. a_state a = A_SUCCEEDED) (attempts_of (ex_id 0) (ex_db 5))) = 1"
proof -
  have "ex_row SUCCEEDED 4 \<in> set (jobs (ex_db 5))" using ex_view_done by (simp add: ex_view_def)
  from one_owner_one_success [OF reachable_ex this] show ?thesis by (simp add: ex_row_def)
qed

lemma RPC_replay:
  assumes run: "RPC e m r d = Inr (resp, d1)"
    and "rpc_scope m r' = rpc_scope m r" "RequestID r' = RequestID r"
    and "WorkerID r' \<noteq> ''''" "SessionID r' \<noteq> ''''" "length (WorkerID r') \<le> 256" "length (SessionID r') \<le> 256"
  shows "RPC e' m r' (fold exec ps d1) =
    (if Hash e' (P_Request r') = Hash e (P_Request r) then Inr (resp, fold exec ps d1) else Inl ErrConflict)"
proof -
  from run have "Mutate (rpc_scope m r) (RequestID r) (Hash e (P_Request r)) (worker_tx e m r) d = Inr (resp, d1)"
    by (auto simp: RPC_def rpc_scope_def split: if_splits)
  from this requests_worker_tx have "\<exists>q. receipt (rpc_scope m r) (RequestID r) d1 = Some q \<and>
      rq_hash q = Hash e (P_Request r) \<and> rq_response q = Some resp \<and> RequestID r \<noteq> [] \<and> length (RequestID r) \<le> 256"
    by (rule Mutate_writes_receipt)
  then obtain q where
    q: "receipt (rpc_scope m r) (RequestID r) d1 = Some q" "rq_hash q = Hash e (P_Request r)" "rq_response q = Some resp"
    and i: "RequestID r \<noteq> []" "length (RequestID r) \<le> 256" by blast
  from Mutate_replay [OF receipt_history [OF q(1,3)] q(3) i] assms(2-) q(2) show ?thesis
    by (simp add: RPC_def rpc_scope_def)
qed

text \<open>C6: Exactly-once requests. Once a request was answered, repeating it after any history returns
  the same response and changes nothing, and reusing its id with another payload is a conflict.\<close>

theorem rpc_exactly_once:
  assumes run: "RPC e m r d = Inr (resp, d1)"
    and "rpc_scope m r' = rpc_scope m r" "RequestID r' = RequestID r"
    and "WorkerID r' \<noteq> ''''" "SessionID r' \<noteq> ''''" "length (WorkerID r') \<le> 256" "length (SessionID r') \<le> 256"
  shows "RPC e' m r' (fold exec ps d1) =
    (if Hash e' (P_Request r') = Hash e (P_Request r) then Inr (resp, fold exec ps d1) else Inl ErrConflict)"
  using assms by (rule RPC_replay)

lemma ex_start_runs: "\<exists>d1. RPC (ex_env 3) StartAttempt (ex_request ''3'') (ex_db 3) = Inr (R_Accepted, d1)"
proof -
  have "(case RPC (ex_env 3) StartAttempt (ex_request ''3'') (ex_db 3) of Inl _ \<Rightarrow> False | Inr (x, _) \<Rightarrow> x = R_Accepted)"
    by code_simp
  then show ?thesis by (auto split: sum.splits)
qed

theorem rpc_exactly_once_witness:
  "\<exists>d1. RPC (ex_env 7) StartAttempt (ex_request ''3'') (exec (Op_Reap (ex_env 8)) d1) = Inr (R_Accepted, exec (Op_Reap (ex_env 8)) d1)
    \<and> RPC (ex_env 3) StartAttempt (ex_request ''3'') (ex_db 3) = Inr (R_Accepted, d1)"
proof -
  from ex_start_runs obtain d1 where d1: "RPC (ex_env 3) StartAttempt (ex_request ''3'') (ex_db 3) = Inr (R_Accepted, d1)" ..
  with rpc_exactly_once [OF d1, of "ex_request ''3''" "ex_env 7" "[Op_Reap (ex_env 8)]"] show ?thesis
    by (auto simp: ex_request_def)
qed

lemma job_kept_row: "tables_ok d \<Longrightarrow> job_kept j d \<Longrightarrow> \<exists>k. lookup_by j_key (j_key j) (jobs d) = Some k \<and> row_follows j k"
  by (auto simp: job_kept_def row_follows_def keys_ok_def dest!: wf_keys get_job_mem)
    (metis lookup_by_unique)

lemma submit_one_result:
  assumes "submit_one i now jb d = Inr (row, d')"
  shows "row \<in> set (jobs d') \<and> j_def row = jb \<and> j_key row = IdempotencyKey jb \<and> job_text jb"
proof -
  have t: "job_text jb" using assms by (auto simp: submit_one_def insert_job_def bindR_Inr_iff split: if_splits)
  from assms obtain ins d1 where "(case lookup_by j_key (IdempotencyKey jb) (jobs d1) of None \<Rightarrow> Inl ErrNotFound
      | Some row \<Rightarrow> if j_def row \<noteq> jb then Inl ErrConflict
          else Inr (row, if ins then event i None ''SUBMITTED'' EP_Submitted now d1 else d1)) = Inr (row, d')"
    unfolding submit_one_def bindR_Inr_iff by auto
  then have "lookup_by j_key (IdempotencyKey jb) (jobs d1) = Some row" "j_def row = jb" "jobs d' = jobs d1"
    by (cases "lookup_by j_key (IdempotencyKey jb) (jobs d1)"; auto simp: event_def split: if_splits)+
  with lookup_by_Some [OF this(1)] t show ?thesis by simp
qed

lemma submit_one_again:
  assumes "tables_ok d" "job_kept row d" "j_def row = jb" "j_key row = IdempotencyKey jb" "job_text jb"
  shows "\<exists>k. submit_one i now jb d = Inr (k, d) \<and> row_follows row k"
proof -
  from job_kept_row [OF assms(1,2)] assms(4) obtain k where
    k: "lookup_by j_key (IdempotencyKey jb) (jobs d) = Some k" "row_follows row k" by auto
  then have "IdempotencyKey jb \<in> j_key ` set (jobs d)" by (metis lookup_by_Some image_eqI)
  with k assms(3,5) show ?thesis
    by (simp add: submit_one_def insert_job_def bindR_simps row_follows_def)
qed

lemma submit_loop_result:
  assumes "submit_loop e n js d = Inr (rows, d')" "tables_ok d" "\<forall>j \<in> set js. Validate j = None"
  shows "list_all2 (\<lambda>row j. job_kept row d' \<and> j_def row = j \<and> j_key row = IdempotencyKey j \<and> job_text j) rows js"
  using assms
proof (induction js arbitrary: n d rows)
  case (Cons j js)
  from Cons.prems(1) obtain row d1 rest where one: "submit_one (Ids e n) (Clk e n) j d = Inr (row, d1)"
    and more: "submit_loop e (Suc n) js d1 = Inr (rest, d')" and rows: "rows = row # rest"
    by (auto simp: bindR_Inr_iff)
  have wf1: "tables_ok d1" using wf_submit_one [OF Cons.prems(2) _ one] Cons.prems(3) by simp
  from submit_one_result [OF one] have row: "row \<in> set (jobs d1)" "j_def row = j" "j_key row = IdempotencyKey j" "job_text j" by auto
  have "tables_ok d' \<and> job_kept row d'"
    by (rule tracked.submit_loop_keeps [OF _ _ more]) (use wf1 row job_kept_mem Cons.prems(3) in \<open>auto simp: list_all_iff\<close>)
  with Cons.IH [OF more wf1] Cons.prems(3) row rows show ?case by auto
qed simp

lemma submit_loop_again:
  assumes "list_all2 (\<lambda>row j. job_kept row d \<and> j_def row = j \<and> j_key row = IdempotencyKey j \<and> job_text j) rows js" "tables_ok d"
  shows "\<exists>ks. submit_loop e n js d = Inr (ks, d) \<and> list_all2 row_follows rows ks"
  using assms
proof (induction rows js arbitrary: n rule: list_all2_induct)
  case (Cons row rows j js)
  from submit_one_again [OF Cons.prems] Cons.hyps obtain k where
    "submit_one (Ids e n) (Clk e n) j d = Inr (k, d)" "row_follows row k" by blast
  with Cons.IH [OF Cons.prems, of "Suc n"] show ?case by (auto simp: bindR_simps)
qed simp

text \<open>C7: Idempotent submission. After a submission was accepted, submitting the same jobs again after any
  history succeeds, inserts nothing and returns, position by position, the rows of the first
  submission in whatever state they have reached.\<close>

theorem submit_idempotent:
  assumes "reachable d" "env_ok e" "Submit e js d = Inr (rows, d1)" "list_all (\<lambda>p. env_ok (op_env p)) ps"
  shows "\<exists>ks. Submit e' js (fold exec ps d1) = Inr (ks, fold exec ps d1) \<and> list_all2 row_follows rows ks"
proof -
  let ?d = "fold exec ps d1"
  from assms(3) have len: "\<not> (length js < 1 \<or> length js > 1000)" and val: "\<not> list_ex (\<lambda>j. Validate j \<noteq> None) js"
    and keys: "list_all (\<lambda>j. pg_text (IdempotencyKey j)) js" and loop: "submit_loop e 0 js d = Inr (rows, d1)"
    by (auto simp: Submit_def simp del: length_greater_0_conv split: if_splits)
  have d1: "d1 = exec (Op_Submit e js) d" using assms(3) by (simp add: committed_def)
  have wf1: "tables_ok d1" unfolding d1 by (rule reachable_tables_ok [OF reach_step [OF assms(1)]]) (simp add: assms(2))
  have "list_all2 (\<lambda>row j. job_kept row ?d \<and> j_def row = j \<and> j_key row = IdempotencyKey j \<and> job_text j) rows js"
    using submit_loop_result [OF loop reachable_tables_ok [OF assms(1)]] val
      tracked.history_keeps [OF _ assms(4), of d1] wf1
    by (auto simp: list_ex_iff elim!: list_all2_mono)
  moreover have "tables_ok ?d" using tables.history_keeps [OF wf1 assms(4)] .
  ultimately have "\<exists>ks. submit_loop e' 0 js ?d = Inr (ks, ?d) \<and> list_all2 row_follows rows ks"
    by (rule submit_loop_again)
  with len val keys show ?thesis by (simp add: Submit_def)
qed

lemma ex_submit_runs: "\<exists>rows d1. Submit (ex_env 0) [ex_job] empty_db = Inr (rows, d1)"
  by (simp add: Submit_def Validate_def ex_job_def Valid_def contains_def NUL_def submit_one_def insert_job_def
      job_text_def pg_text_def env_of_def empty_db_def bindR_simps lookup_by_def)

theorem submit_idempotent_witness:
  "\<exists>rows d1 ks. Submit (ex_env 0) [ex_job] empty_db = Inr (rows, d1) \<and> Submit (ex_env 9) [ex_job] d1 = Inr (ks, d1)"
proof -
  from ex_submit_runs obtain rows d1 where "Submit (ex_env 0) [ex_job] empty_db = Inr (rows, d1)" by blast
  moreover from submit_idempotent [OF reach_init ex_env_ok this, of "[]" "ex_env 9"] obtain ks where
    "Submit (ex_env 9) [ex_job] d1 = Inr (ks, d1)" by auto
  ultimately show ?thesis by blast
qed

end
