(* ===== verification/Store_Service.thy ===== *)
theory Store_Service
  imports Store_Props
begin

text \<open>
  Placement, lease time, expiry and artifacts: which job a lease request gets, when a lease stops
  being usable, what the reaper does with expired leases, and where recorded objects may live.
\<close>

section \<open>Placement\<close>

lemma insert_leased:
  assumes wf: "tables_ok d" and j: "j \<in> set (jobs d)" "j_state j = QUEUED"
    and w: "w \<in> set (workers d)" "w_id w = WorkerID r" and fresh: "Ids e 0 \<notin> a_id ` set (attempts d)"
  shows "insert_attempt (leased_attempt e r j d) d = Inr (d\<lparr>attempts := attempts d @ [leased_attempt e r j d]\<rparr>)"
    and "next_number (j_id j) d = int (length (attempts_of (j_id j) d)) + 1"
    and "next_number (j_id j) d \<le> j_max j"
proof -
  have ok: "job_ok j (attempts_of (j_id j) d)" by (rule wf_job_ok [OF wf j(1)])
  show num: "next_number (j_id j) d = int (length (attempts_of (j_id j) d)) + 1" by (rule job_ok_next_number [OF ok])
  show "next_number (j_id j) d \<le> j_max j" using ok j(2) num by (simp add: job_ok_def)
  have "a_number b \<noteq> next_number (j_id j) d" if "b \<in> set (attempts_of (j_id j) d)" for b
  proof -
    have "a_number b \<in> set (map a_number (attempts_of (j_id j) d))" using that by simp
    also have "map a_number (attempts_of (j_id j) d) = map int [1..<Suc (length (attempts_of (j_id j) d))]"
      using ok by (simp add: job_ok_def)
    finally show ?thesis using num by auto
  qed
  moreover have "\<not> active (a_state b)" if "b \<in> set (attempts_of (j_id j) d)" for b
    using filter_active [OF ok] j(2) that by (auto simp: filter_empty_conv)
  moreover have "get_worker (WorkerID r) d \<noteq> None"
    unfolding get_worker_def lookup_by_None using w by (metis image_eqI)
  ultimately show "insert_attempt (leased_attempt e r j d) d = Inr (d\<lparr>attempts := attempts d @ [leased_attempt e r j d]\<rparr>)"
    using fresh get_job_unique [OF wf_keys [OF wf] j(1)]
    by (auto simp: insert_attempt_def leased_attempt_def Let_def list_ex_iff)
qed

lemma latest_checkpoint_frames [simp]:
  "latest_checkpoint i (set_job k f d) = latest_checkpoint i d"
  "latest_checkpoint i (d\<lparr>attempts := as\<rparr>) = latest_checkpoint i d"
  by (simp_all add: latest_checkpoint_def set_job_def)

text \<open>C8: Placement. For a registered worker and a fresh attempt id, a lease request is idle exactly when
  no queued, unlocked job fits the worker's free capacity; otherwise it always succeeds (no budget
  or key error can arise), leases the oldest such job with the next attempt number within its
  budget, and hands out the job's newest recorded checkpoint.\<close>

theorem lease_places_oldest:
  assumes "reachable d" "w \<in> set (workers d)" "w_id w = WorkerID r" "Ids e 0 \<notin> a_id ` set (attempts d)"
  defines "cs \<equiv> filter (\<lambda>j. j_state j = QUEUED \<and> res_le (j_res j) (sub_res (w_res w) (used (w_id w) d)) \<and> \<not> Locked e (j_id j)) (jobs d)"
  shows "(cs = [] \<longrightarrow> lease_tx e r (w_res w) d = Inr (R_Idle, d))
    \<and> (cs \<noteq> [] \<longrightarrow> (\<exists>j l d'. lease_tx e r (w_res w) d = Inr (R_Lease l, d') \<and> j \<in> set cs
          \<and> (\<forall>k \<in> set cs. j_created j < j_created k \<or> j_created j = j_created k \<and> j_id j \<le> j_id k)
          \<and> l_job l = j\<lparr>j_state := LEASED\<rparr> \<and> l_number l = int (length (attempts_of (j_id j) d)) + 1
          \<and> l_number l \<le> j_max j \<and> l_checkpoint l = latest_checkpoint (j_id j) d))"
proof -
  have cs: "cs = filter (compatible e (sub_res (w_res w) (used (w_id w) d))) (jobs d)"
    unfolding cs_def by (rule filter_cong) (simp_all add: compatible_def)
  show ?thesis
  proof (cases "oldest cs")
    case None
    then have "cs = []" by (simp add: oldest_None)
    with None show ?thesis by (simp add: lease_tx_def cs assms(3))
  next
    case (Some j)
    from oldest_Some [OF Some] have j: "j \<in> set cs" "\<forall>k \<in> set cs. older j k" by auto
    then have q: "j \<in> set (jobs d)" "j_state j = QUEUED" by (auto simp: cs compatible_def)
    note ins = insert_leased [OF reachable_tables_ok [OF assms(1)] q assms(2,3,4)]
    from Some have "oldest (filter (compatible e (sub_res (w_res w) (used (WorkerID r) d))) (jobs d)) = Some j"
      by (simp add: cs assms(3))
    with ins have "\<exists>l d'. lease_tx e r (w_res w) d = Inr (R_Lease l, d')
        \<and> l_job l = j\<lparr>j_state := LEASED\<rparr> \<and> l_number l = int (length (attempts_of (j_id j) d)) + 1
        \<and> l_number l \<le> j_max j \<and> l_checkpoint l = latest_checkpoint (j_id j) d"
      by (auto simp: lease_tx_def Let_def bindR_simps leased_attempt_def)
    with j [unfolded older_def] show ?thesis by fastforce
  qed
qed

theorem lease_places_oldest_witness:
  "\<exists>l d'. lease_tx (ex_env 2) (ex_request ''2'') \<lparr>CPU = 2, MemoryMB = 2, GPU = 0\<rparr> (ex_db 2) = Inr (R_Lease l, d')
    \<and> l_number l = 1"
proof -
  have v: "jobs (ex_db 2) = [ex_row QUEUED 0]" "workers (ex_db 2) = [ex_worker 1]" "attempts (ex_db 2) = []"
    using ex_view_registered by (auto simp: ex_view_def)
  have "compatible (ex_env 2) (sub_res (w_res (ex_worker 1)) (used (w_id (ex_worker 1)) (ex_db 2))) (ex_row QUEUED 0)"
    by (simp add: compatible_def used_def v sub_res_def res_le_def zero_res_def ex_row_def ex_worker_def ex_job_def)
  then show ?thesis unfolding compatible_def
    using lease_places_oldest [OF reachable_ex, of "ex_worker 1" 2 "ex_request ''2''" "ex_env 2"]
    by (auto simp: v ex_request_def ex_worker_def attempts_of_def)
qed

section \<open>Lease time\<close>

text \<open>C9: A lease that ran out cannot be used or revived: when its expiry or the attempt's deadline is not
  after the clock of the transaction, every attempt operation is refused. While it is live, a
  heartbeat moves the expiry to the lease length from now but never past the attempt's deadline,
  and always leaves it in the future.\<close>

theorem lease_time_fence:
  assumes "reachable d" "env_ok e" "a \<in> set (attempts d)" "AttemptID r = a_id a"
  shows "(a_expires a \<le> Clk e 1 \<or> a_deadline a \<le> Clk e 2 \<longrightarrow> (\<exists>err. attempt_tx e m r d = Inl err))
    \<and> (\<forall>resp d'. attempt_tx e Heartbeat r d = Inr (resp, d') \<longrightarrow>
        (\<exists>b. get_attempt (a_id a) d' = Some b \<and> b = a\<lparr>a_expires := min (a_deadline a) (Clk e 3 + real_of_int (LeaseSeconds e))\<rparr>
          \<and> a_expires b \<le> a_deadline b \<and> Clk e 2 < a_expires b))"
proof (intro conjI impI allI)
  have got: "get_attempt (a_id a) d = Some a"
    using wf_keys [OF reachable_tables_ok [OF assms(1)]] assms(3)
    by (auto simp: get_attempt_def keys_ok_def intro: lookup_by_unique)
  then show "\<exists>err. attempt_tx e m r d = Inl err" if "a_expires a \<le> Clk e 1 \<or> a_deadline a \<le> Clk e 2"
    using that assms(4) by (auto simp: attempt_tx_def fence_def split: option.splits)
  fix resp d' assume "attempt_tx e Heartbeat r d = Inr (resp, d')"
  then show "\<exists>b. get_attempt (a_id a) d' = Some b \<and> b = a\<lparr>a_expires := min (a_deadline a) (Clk e 3 + real_of_int (LeaseSeconds e))\<rparr>
          \<and> a_expires b \<le> a_deadline b \<and> Clk e 2 < a_expires b"
  proof (cases rule: attempt_tx_Inr)
    case (1 b j)
    then have b: "b = a" using got assms(4) by simp
    have "Clk e 2 \<le> Clk e 3" "2 \<le> LeaseSeconds e" using assms(2) by (auto simp: env_ok_def mono_def)
    moreover have "Clk e 2 < a_deadline a" using 1(3) b by (simp add: fence_def)
    ultimately have "Clk e 2 < min (a_deadline a) (Clk e 3 + real_of_int (LeaseSeconds e))" by simp
    with 1(4) got assms(4) b show ?thesis
      by (auto simp: heartbeat_tx_def Let_def get_attempt_def set_attempts_def lookup_by_update_where)
  qed
qed

theorem lease_time_fence_witness:
  "\<exists>err. attempt_tx (ex_env 40) StartAttempt (ex_request ''x'') (ex_db 3) = Inl err"
proof -
  have "ex_attempt A_LEASED None None \<in> set (attempts (ex_db 3))" using ex_view_leased by (simp add: ex_view_def)
  from lease_time_fence [OF reachable_ex ex_env_ok [of 40] this, of "ex_request ''x''" StartAttempt] show ?thesis
    by (simp add: ex_attempt_def ex_request_def)
qed

section \<open>Expiry\<close>

lemma attempts_of_set_job [simp]: "attempts_of i (set_job k f d) = attempts_of i d"
  by (simp add: attempts_of_def set_job_def)

lemma attempts_of_set_one:
  assumes "keys_ok d" "a \<in> set (attempts d)" "\<And>b. a_job (f b) = a_job b"
  shows "i \<noteq> a_job a \<Longrightarrow> attempts_of i (set_attempts (\<lambda>b. a_id b = a_id a) f d) = attempts_of i d"
    and "attempts_of (a_job a) (set_attempts (\<lambda>b. a_id b = a_id a) f d)
      = update_where (\<lambda>b. a_id b = a_id a) f (attempts_of (a_job a) d)"
proof -
  show "attempts_of i (set_attempts (\<lambda>b. a_id b = a_id a) f d) = attempts_of i d" if "i \<noteq> a_job a"
    unfolding attempts_of_set_attempts [OF assms(3)]
    by (rule update_where_id) (use keys_ok_unique(3) [OF assms(1) _ assms(2)] that in \<open>auto simp: attempts_of_mem\<close>)
  show "attempts_of (a_job a) (set_attempts (\<lambda>b. a_id b = a_id a) f d)
      = update_where (\<lambda>b. a_id b = a_id a) f (attempts_of (a_job a) d)"
    using assms(3) by (simp add: attempts_of_set_attempts)
qed

definition has_expired :: "txenv \<Rightarrow> db \<Rightarrow> string \<Rightarrow> bool" where
  "has_expired e d i \<longleftrightarrow> get_job i d \<noteq> None \<and> list_ex (expired (Clk e 0)) (attempts_of i d)"

lemma reap_one_expired:
  assumes wf: "tables_ok d" and mono: "mono (Clk e)" and exp: "has_expired e d i"
    and run: "reap_one e n i d = (k, d')"
  shows "k = 1" "\<forall>b \<in> set (attempts_of i d'). \<not> active (a_state b)"
    "i' \<noteq> i \<Longrightarrow> attempts_of i' d' = attempts_of i' d" "i' \<noteq> i \<Longrightarrow> get_job i' d' = get_job i' d"
proof -
  from exp obtain b where b: "b \<in> set (attempts_of i d)" "expired (Clk e 0) b" by (auto simp: has_expired_def list_ex_iff)
  have "Clk e 0 \<le> Clk e (4 * n + 1)" using mono by (simp add: mono_def)
  with b(2) have "expired (Clk e (4 * n + 1)) b" by (auto simp: expired_def)
  with b(1) have "find (expired (Clk e (4 * n + 1))) (attempts_of i d) \<noteq> None" by (auto simp: find_None_iff)
  with run exp have "k \<noteq> 0" by (auto simp: reap_one_def has_expired_def split: option.splits)
  with run obtain a j where k: "k = 1" and a: "a \<in> set (attempts d)" "a_job a = i" "active (a_state a)"
    and j: "get_job i d = Some j"
    and d': "d' = event i (Some (a_id a)) ''LEASE_EXPIRED'' EP_Expired (Clk e (4 * n + 4))
        (set_job i (\<lambda>k. k\<lparr>j_state := RetryState (a_number a) (j_max j), j_updated := Clk e (4 * n + 3)\<rparr>)
          (set_attempts (\<lambda>b. a_id b = a_id a)
            (\<lambda>b. b\<lparr>a_state := A_EXPIRED, a_finished := Some (Clk e (4 * n + 2)),
                   a_reason := Some ''lease or attempt deadline expired''\<rparr>) d))"
    by (auto elim!: reap_one_cases)
  show "k = 1" by (rule k)
  note at = attempts_of_set_one [OF wf_keys [OF wf] a(1)]
  show "attempts_of i' d' = attempts_of i' d" if "i' \<noteq> i" using that a(2) by (simp add: d' at(1))
  show "get_job i' d' = get_job i' d" if "i' \<noteq> i"
    using that by (cases "get_job i' d") (auto simp: d' get_job_set_job dest: get_job_mem)
  have "b = a" if "b \<in> set (attempts_of i d)" "active (a_state b)" for b
    using that wf_active_last [OF wf _ a(1) _ a(3)] wf_active_last [OF wf _ _ _ that(2)] get_job_mem [OF j] a(2)
    by (auto simp: attempts_of_mem)
  then show "\<forall>b \<in> set (attempts_of i d'). \<not> active (a_state b)"
    using at(2) a(2) by (auto simp: d' set_update_where active_def)
qed

lemma reap_loop_complete:
  assumes "tables_ok d" "mono (Clk e)" "distinct is" "\<forall>i \<in> set is. has_expired e d i" "reap_loop e n is d = (k, d')"
  shows "k = length is \<and> (\<forall>i \<in> set is. \<forall>b \<in> set (attempts_of i d'). \<not> active (a_state b))
    \<and> (\<forall>i. i \<notin> set is \<longrightarrow> attempts_of i d' = attempts_of i d \<and> get_job i d' = get_job i d)"
  using assms
proof (induction "is" arbitrary: n d k)
  case (Cons i rest)
  obtain k1 d1 where one: "reap_one e n i d = (k1, d1)" by fastforce
  obtain k2 where more: "reap_loop e (Suc n) rest d1 = (k2, d')" and k: "k = k1 + k2"
    using Cons.prems(5) one by (auto split: prod.splits)
  have exp: "has_expired e d i" using Cons.prems(4) by simp
  note r = reap_one_expired [OF Cons.prems(1,2) exp one]
  have wf1: "tables_ok d1" by (rule wf_reap_one [OF Cons.prems(1) one])
  have "\<forall>i' \<in> set rest. has_expired e d1 i'"
  proof
    fix i' assume "i' \<in> set rest"
    with Cons.prems(3,4) have "i' \<noteq> i" "has_expired e d i'" by auto
    with r(3,4) show "has_expired e d1 i'" by (simp add: has_expired_def)
  qed
  from Cons.IH [OF wf1 Cons.prems(2) _ this more] Cons.prems(3) r k show ?case by fastforce
qed simp



section \<open>Recorded artifacts\<close>

definition art_scoped :: "db \<Rightarrow> artifact_row \<Rightarrow> bool" where
  "art_scoped d x \<longleftrightarrow> (case get_job (art_job x) d of None \<Rightarrow> False | Some j \<Rightarrow> artifact_ok j (art_attempt x) (art x))"

definition arts_ok :: "db \<Rightarrow> bool" where
  "arts_ok d \<longleftrightarrow> (\<forall>x \<in> set (artifacts d). art_scoped d x) \<and> distinct (map (\<lambda>x. ObjectKey (art x)) (artifacts d))"

lemma art_scoped_kept:
  assumes "art_scoped d x" "\<And>j. get_job (art_job x) d = Some j \<Longrightarrow> job_kept j d'"
  shows "art_scoped d' x"
proof -
  from assms(1) obtain j where j: "get_job (art_job x) d = Some j" "artifact_ok j (art_attempt x) (art x)"
    by (auto simp: art_scoped_def split: option.splits)
  from assms(2) [OF j(1)] get_job_mem [OF j(1)] obtain k where k: "get_job (art_job x) d' = Some k" "row_follows j k"
    by (auto simp: job_kept_def)
  with j(2) show ?thesis by (simp add: art_scoped_def artifact_ok_def key_prefix_def row_follows_def)
qed

lemma arts_ok_kept:
  assumes "arts_ok d" "artifacts d' = artifacts d" "tables_ok d" "\<And>j. job_kept j d \<Longrightarrow> job_kept j d'"
  shows "arts_ok d'"
proof -
  have "job_kept j d'" if "get_job i d = Some j" for i j
    using get_job_mem [OF that] job_kept_mem [OF assms(3)] assms(4) by blast
  then have "art_scoped d' x" if "x \<in> set (artifacts d)" for x
    by (rule art_scoped_kept [rotated]) (use assms(1) that in \<open>auto simp: arts_ok_def\<close>)
  with assms(1,2) show ?thesis by (simp add: arts_ok_def)
qed

lemma artifacts_frames [simp]:
  "artifacts (event jid aid kind p now d) = artifacts d" "artifacts (attempt_event e m r jid d) = artifacts d"
  "artifacts (set_worker w h d) = artifacts d" "artifacts (set_job i g d) = artifacts d"
  "artifacts (set_attempts pr f d) = artifacts d"
  by (simp_all add: event_def attempt_event_def set_worker_def set_job_def set_attempts_def)

lemma artifacts_submit_one: "submit_one i now jb d = Inr (row, d') \<Longrightarrow> artifacts d' = artifacts d"
  by (auto simp: submit_one_def insert_job_def bindR_Inr_iff split: option.splits if_splits)

lemma artifacts_action_tx: "action_tx e i act rid d = Inr (r, d') \<Longrightarrow> artifacts d' = artifacts d"
  by (auto simp: action_tx_def finish_action_def Let_def split: if_splits option.splits action.splits)

lemma artifacts_lease_tx: "lease_tx e r cap d = Inr (resp, d') \<Longrightarrow> artifacts d' = artifacts d"
  by (erule lease_tx_Inr) (auto simp: insert_attempt_def split: if_splits)

lemma artifacts_reap_one: "reap_one e n i d = (k, d') \<Longrightarrow> artifacts d' = artifacts d"
  by (auto simp: reap_one_def split: prod.splits option.splits)

lemma arts_ok_record:
  assumes "record_artifacts e n j aid as d = Inr d'" "arts_ok d" "get_job (j_id j) d = Some j"
  shows "arts_ok d'"
  using assms
proof (induction as arbitrary: n d)
  case (Cons a as)
  show ?case
  proof (cases "find (\<lambda>x. ObjectKey (art x) = ObjectKey a) (artifacts d)")
    case None
    let ?x = "\<lparr>art_id = Ids e n, art_job = j_id j, art_attempt = aid, art = a, art_created = Clk e (10 + n)\<rparr>"
    from None have new: "ObjectKey a \<notin> (\<lambda>x. ObjectKey (art x)) ` set (artifacts d)" by (auto simp: find_None_iff)
    have sc: "art_scoped (d\<lparr>artifacts := z\<rparr>) = art_scoped d" for z by (simp add: fun_eq_iff art_scoped_def)
    from Cons.prems(1) None have ok: "artifact_ok j aid a"
      and rec: "record_artifacts e (Suc n) j aid as (d\<lparr>artifacts := artifacts d @ [?x]\<rparr>) = Inr d'"
      by (auto split: if_splits)
    have "arts_ok (d\<lparr>artifacts := artifacts d @ [?x]\<rparr>)"
      using Cons.prems(2,3) ok new unfolding arts_ok_def sc by (auto simp: art_scoped_def)
    from Cons.IH [OF rec this] Cons.prems(3) show ?thesis by simp
  next
    case (Some x)
    with Cons.prems Cons.IH show ?thesis by (auto split: if_splits)
  qed
qed simp

lemma arts_ok_attempt_tx:
  assumes wf: "tables_ok d" and ok: "arts_ok d" and run: "attempt_tx e m r d = Inr (resp, d')"
  shows "arts_ok d'"
  using run
proof (cases rule: attempt_tx_Inr)
  case (1 a j)
  have j: "get_job (j_id j) d = Some j" using 1(2) get_job_mem [OF 1(2)] by simp
  note keep = kept_attempt_tx [OF wf _ run]
  show ?thesis
  proof (cases "m = Heartbeat \<or> m = StartAttempt")
    case True
    then have "artifacts d' = artifacts d" using 1(4) by (auto simp: heartbeat_tx_def start_tx_def Let_def split: if_splits)
    from arts_ok_kept [OF ok this wf keep] show ?thesis .
  next
    case False
    with 1(4) have "report_tx e m r j a d = Inr (resp, d')" by (auto split: if_splits)
    then show ?thesis
    proof (cases rule: report_tx_Inr)
      case (1 xs)
      let ?d = "d\<lparr>artifacts := artifacts d @ xs\<rparr>"
      have "arts_ok ?d" by (rule arts_ok_record [OF 1(2) ok j])
      moreover have "artifacts d' = artifacts ?d" unfolding 1(5) by (simp add: finish_attempt_def)
      moreover have "tables_ok ?d" using wf by simp
      ultimately show ?thesis by (rule arts_ok_kept) (use keep in simp)
    qed
  qed
qed

lemma arts_ok_worker_tx:
  assumes wf: "tables_ok d" and ok: "arts_ok d" and run: "worker_tx e m r d = Inr (resp, d')"
  shows "arts_ok d'"
proof -
  let ?d = "set_worker (WorkerID r) (\<lambda>w. w\<lparr>w_heartbeat := Clk e 0\<rparr>) d"
  have wf1: "tables_ok ?d" using wf by (subst wf_set_worker) simp_all
  have ok1: "arts_ok ?d" using arts_ok_kept [OF ok _ wf] by simp
  have "artifacts d' = artifacts d \<or> attempt_tx e m r ?d = Inr (resp, d')"
    using run by (auto simp: worker_tx_def register_tx_def Let_def split: if_splits option.splits dest: artifacts_lease_tx)
  then show ?thesis
    using arts_ok_kept [OF ok _ wf kept_worker_tx [OF wf _ run]] arts_ok_attempt_tx [OF wf1 ok1] by blast
qed

lemma arts_ok_requests [simp]: "arts_ok (d\<lparr>requests := q\<rparr>) = arts_ok d"
  by (simp add: arts_ok_def art_scoped_def)

interpretation scoped: step_invariant "\<lambda>d. tables_ok d \<and> arts_ok d"
  by unfold_locales
    (auto intro: wf_submit_one wf_action_tx wf_worker_tx wf_reap_one arts_ok_worker_tx
      arts_ok_kept [OF _ artifacts_submit_one _ kept_submit_one] arts_ok_kept [OF _ artifacts_action_tx _ kept_action_tx]
      arts_ok_kept [OF _ artifacts_reap_one _ kept_reap_one])

lemma reachable_arts_ok: "reachable d \<Longrightarrow> arts_ok d"
  using scoped.reachable_keeps [of d] tables_ok_empty by (simp add: arts_ok_def empty_db_def)

lemma newest_mem: "newest as = Some a \<Longrightarrow> a \<in> set as \<and> (\<forall>b \<in> set as. newer_artifact a b)"
proof (induction as arbitrary: a)
  case (Cons x as)
  show ?case
  proof (cases "newest as")
    case None
    then have "as = []" by (cases as) (auto split: option.splits)
    with Cons.prems show ?thesis by (simp add: newer_artifact_def)
  next
    case (Some b)
    with Cons.IH [OF Some] Cons.prems show ?thesis by (auto simp: newer_artifact_def split: if_splits)
  qed
qed simp



end
