(* ===== verification/Rpc.thy ===== *)
theory Rpc
  imports Store_Service
begin

text \<open>
  The worker's RPC client (\<open>worker/python/rungrid_worker/rpc.py\<close>) and the server entry point it
  talks to (\<open>internal/api/grpc.go\<close>).

  The network is a parameter: \<open>tr n q to now\<close> is the outcome of the n-th send of a request at
  time \<open>now\<close> with timeout \<open>to\<close> and the time at which it is known, and \<open>wake n t s\<close> the time at
  which \<open>time.sleep(s)\<close> begun at \<open>t\<close> returns. Monotonic clock readings are real numbers of
  seconds; only blocking calls take time. A reply carries the server's instants as text with
  microseconds, so \<open>micros\<close> rounds them down.
\<close>

section \<open>Requests\<close>

datatype status = UNAVAILABLE | DEADLINE_EXCEEDED | FAILED_PRECONDITION | NOT_FOUND | INVALID_ARGUMENT
  | INTERNAL | CANCELED

datatype field = F_hostname string | F_resources resources | F_logs "string list" | F_artifacts "artifact list"
  | F_exit_code int | F_reason string

record wire =
  q_request_id :: string
  q_worker_id :: string
  q_session_id :: string
  q_payload :: "field list"
  q_attempt_id :: string
  q_lease_token :: string
  q_wait :: int

record client =
  c_worker_id :: string
  c_session_id :: string

record held =
  h_lease :: lease
  h_deadline :: real

definition make_request :: "client \<Rightarrow> string \<Rightarrow> held option \<Rightarrow> int \<Rightarrow> string option \<Rightarrow> field list \<Rightarrow> wire" where
  "make_request c uuid lease wait_seconds request_id payload =
    \<lparr>q_request_id = (case request_id of None \<Rightarrow> uuid | Some i \<Rightarrow> if i = '''' then uuid else i),
     q_worker_id = c_worker_id c, q_session_id = c_session_id c, q_payload = payload,
     q_attempt_id = (case lease of None \<Rightarrow> '''' | Some l \<Rightarrow> l_attempt (h_lease l)),
     q_lease_token = (case lease of None \<Rightarrow> '''' | Some l \<Rightarrow> l_token (h_lease l)), q_wait = wait_seconds\<rparr>"

section \<open>The call loop\<close>

datatype outcome = Reply response | RpcError status

type_synonym transport = "nat \<Rightarrow> wire \<Rightarrow> real \<Rightarrow> real \<Rightarrow> outcome \<times> real"

type_synonym sleeper = "nat \<Rightarrow> real \<Rightarrow> real \<Rightarrow> real"

definition micros :: "real \<Rightarrow> real" where
  "micros t = real_of_int \<lfloor>t * 1000000\<rfloor> / 1000000"

fun lease_times :: "response \<Rightarrow> (real \<times> real) option" where
  "lease_times (R_Lease l) = Some (l_expires l, l_server l)"
| "lease_times (R_Heartbeat expires server) = Some (expires, server)"
| "lease_times _ = None"

definition local_deadline :: "real \<Rightarrow> response \<Rightarrow> real option" where
  "local_deadline started r = (case lease_times r of None \<Rightarrow> None
     | Some (expires, server) \<Rightarrow> Some (started + (micros expires - micros server) - 0.5))"

definition retryable :: "status \<Rightarrow> bool" where
  "retryable s \<longleftrightarrow> s = UNAVAILABLE \<or> s = DEADLINE_EXCEEDED"

definition send_timeout :: "int \<Rightarrow> real \<Rightarrow> real \<Rightarrow> real" where
  "send_timeout wait_seconds end_time now = max 0.01 (min (5 + real_of_int wait_seconds) (end_time - now))"

partial_function (option) call_loop ::
  "transport \<Rightarrow> sleeper \<Rightarrow> wire \<Rightarrow> real \<Rightarrow> nat \<Rightarrow> real \<Rightarrow> real \<Rightarrow> ((status + response) \<times> real \<times> (wire \<times> real) list) option" where
  "call_loop tr wake q end_time n now delay =
    (let to = send_timeout (q_wait q) end_time now; (out, t) = tr n q to now in
     case out of
       Reply r \<Rightarrow> Some (Inr r, t, [(q, to)])
     | RpcError s \<Rightarrow>
         if \<not> retryable s \<or> t + delay \<ge> end_time then Some (Inl s, t, [(q, to)])
         else Option.bind (call_loop tr wake q end_time (Suc n) (wake n t delay) (min (delay * 2) 1))
                (\<lambda>(res, t', sends). Some (res, t', (q, to) # sends)))"

definition call :: "transport \<Rightarrow> sleeper \<Rightarrow> wire \<Rightarrow> real \<Rightarrow> real
    \<Rightarrow> ((status + (response \<times> real option)) \<times> real \<times> (wire \<times> real) list) option" where
  "call tr wake q timeout started =
    (case call_loop tr wake q (started + timeout) 0 started 0.1 of
       None \<Rightarrow> None
     | Some (Inl s, t, sends) \<Rightarrow> Some (Inl s, t, sends)
     | Some (Inr r, t, sends) \<Rightarrow> Some (Inr (r, local_deadline started r), t, sends))"

section \<open>The server entry point\<close>

fun with_field :: "field \<Rightarrow> request \<Rightarrow> request" where
  "with_field (F_hostname s) r = r\<lparr>Hostname := s\<rparr>"
| "with_field (F_resources x) r = r\<lparr>ReqResources := x\<rparr>"
| "with_field (F_logs ls) r = r\<lparr>Logs := ls\<rparr>"
| "with_field (F_artifacts as) r = r\<lparr>Artifacts := as\<rparr>"
| "with_field (F_exit_code n) r = r\<lparr>ExitCode := n\<rparr>"
| "with_field (F_reason s) r = r\<lparr>Reason := s\<rparr>"

definition decode_request :: "wire \<Rightarrow> request" where
  "decode_request q = fold with_field (q_payload q)
     \<lparr>RequestID = q_request_id q, WorkerID = q_worker_id q, SessionID = q_session_id q, AttemptID = q_attempt_id q,
      LeaseToken = q_lease_token q, Hostname = '''', ReqResources = zero_res, ExitCode = 0, Reason = '''', Logs = [],
      Artifacts = []\<rparr>"

fun status_of :: "store_error \<Rightarrow> status" where
  "status_of ErrConflict = FAILED_PRECONDITION"
| "status_of ErrInvalid = INVALID_ARGUMENT"
| "status_of ErrNotFound = NOT_FOUND"
| "status_of ErrDB = INTERNAL"

definition serve :: "txenv \<Rightarrow> rpc_method \<Rightarrow> wire \<Rightarrow> db \<Rightarrow> outcome" where
  "serve e m q d = (case RPC e m (decode_request q) d of Inl err \<Rightarrow> RpcError (status_of err) | Inr (r, _) \<Rightarrow> Reply r)"

section \<open>The loop ends in time\<close>

text \<open>What gRPC and the operating system promise: a send ends no earlier than it began and no later
  than its timeout plus a slack, and a sleep lasts its length up to the slack.\<close>

definition transport_ok :: "transport \<Rightarrow> sleeper \<Rightarrow> real \<Rightarrow> bool" where
  "transport_ok tr wake slack \<longleftrightarrow> 0 \<le> slack
     \<and> (\<forall>n q to now. 0 \<le> to \<longrightarrow> now \<le> snd (tr n q to now) \<and> snd (tr n q to now) \<le> now + to + slack)
     \<and> (\<forall>n t s. t + s \<le> wake n t s \<and> wake n t s \<le> t + s + slack)"

lemma call_loop_ends:
  assumes ok: "transport_ok tr wake slack" and "end_time - now \<le> real k * 0.1" "0.1 \<le> delay" "now \<le> end_time + slack"
  shows "\<exists>res t sends. call_loop tr wake q end_time n now delay = Some (res, t, sends)
    \<and> now \<le> t \<and> t \<le> end_time + 0.01 + 2 * slack \<and> length sends \<le> Suc k
    \<and> (\<forall>(p, to) \<in> set sends. p = q \<and> 0.01 \<le> to \<and> to \<le> max 0.01 (5 + real_of_int (q_wait q)))"
  using assms(2-)
proof (induction k arbitrary: n now delay)
  case (0 n now delay)
  let ?to = "send_timeout (q_wait q) end_time now"
  obtain out t where tr: "tr n q ?to now = (out, t)" by fastforce
  have "0 \<le> ?to" by (simp add: send_timeout_def)
  with tr ok have t: "now \<le> t" "t \<le> now + ?to + slack" "0 \<le> slack" unfolding transport_ok_def by (metis snd_conv)+
  then have "t + delay \<ge> end_time" "t \<le> end_time + 0.01 + 2 * slack" using 0 by (auto simp: send_timeout_def)
  with tr t 0 show ?case
    by (subst call_loop.simps) (auto simp: Let_def send_timeout_def split: outcome.splits)
next
  case (Suc k n now delay)
  let ?to = "send_timeout (q_wait q) end_time now"
  obtain out t where tr: "tr n q ?to now = (out, t)" by fastforce
  have "0 \<le> ?to" by (simp add: send_timeout_def)
  with tr ok have t: "now \<le> t" "t \<le> now + ?to + slack" "0 \<le> slack" unfolding transport_ok_def by (metis snd_conv)+
  have bound: "t \<le> end_time + 0.01 + 2 * slack" using t Suc.prems by (auto simp: send_timeout_def)
  have to: "0.01 \<le> ?to" "?to \<le> max 0.01 (5 + real_of_int (q_wait q))" by (auto simp: send_timeout_def)
  show ?case
  proof (cases "\<exists>s. out = RpcError s \<and> retryable s \<and> t + delay < end_time")
    case False
    with tr t bound to show ?thesis by (subst call_loop.simps) (auto simp: Let_def split: outcome.splits)
  next
    case True
    then obtain s where s: "out = RpcError s" "retryable s" "t + delay < end_time" by blast
    have w: "t + delay \<le> wake n t delay" "wake n t delay \<le> t + delay + slack" using ok by (auto simp: transport_ok_def)
    have "\<exists>res t' sends. call_loop tr wake q end_time (Suc n) (wake n t delay) (min (delay * 2) 1) = Some (res, t', sends)
      \<and> wake n t delay \<le> t' \<and> t' \<le> end_time + 0.01 + 2 * slack \<and> length sends \<le> Suc k
      \<and> (\<forall>(p, to) \<in> set sends. p = q \<and> 0.01 \<le> to \<and> to \<le> max 0.01 (5 + real_of_int (q_wait q)))"
      by (rule Suc.IH) (use Suc.prems t w s in \<open>auto simp: algebra_simps\<close>)
    with tr s to t w Suc.prems show ?thesis
      by (subst call_loop.simps) (auto simp: Let_def)
  qed
qed

definition as_outcome :: "status + response \<Rightarrow> outcome" where
  "as_outcome v = (case v of Inl s \<Rightarrow> RpcError s | Inr r \<Rightarrow> Reply r)"

lemma call_loop_last:
  assumes "call_loop tr wake q end_time n now delay = Some y"
  shows "snd (snd y) \<noteq> [] \<and> (\<exists>to now'. tr (n + length (snd (snd y)) - 1) q to now' = (as_outcome (fst y), fst (snd y)))"
proof (induction rule: call_loop.raw_induct [OF _ assms])
  case (1 loop tr wake q end_time n now delay y)
  obtain out t where tr: "tr n q (send_timeout (q_wait q) end_time now) now = (out, t)" by fastforce
  show ?case
  proof (cases "\<exists>s. out = RpcError s \<and> retryable s \<and> t + delay < end_time")
    case False
    with 1(2) tr have "y = (case out of Reply r \<Rightarrow> Inr r | RpcError s \<Rightarrow> Inl s, t, [(q, send_timeout (q_wait q) end_time now)])"
      by (auto simp: Let_def split: outcome.splits if_splits)
    moreover have "as_outcome (case out of Reply r \<Rightarrow> Inr r | RpcError s \<Rightarrow> Inl s) = out"
      by (simp add: as_outcome_def split: outcome.splits)
    ultimately show ?thesis using tr by auto
  next
    case True
    with 1(2) tr obtain z where z: "loop tr wake q end_time (Suc n) (wake n t delay) (min (delay * 2) 1) = Some z"
      and y: "y = (fst z, fst (snd z), (q, send_timeout (q_wait q) end_time now) # snd (snd z))"
      by (auto simp: Let_def bind_eq_Some_conv split: if_splits)
    from 1(1) [OF z] show ?thesis by (auto simp: y)
  qed
qed

text \<open>C16: Every call ends. For any behaviour of the network within the promises of \<open>transport_ok\<close>, the call
  returns a reply or raises, at most a hundredth of a second and the slack of the two last
  blocking calls after its timeout; it sends at least once and at most about ten times per
  second, always the very same request, each time with a timeout between 0.01 s and five seconds
  plus the long-poll wait.\<close>

theorem call_ends_in_time:
  assumes ok: "transport_ok tr wake slack" and "0 \<le> timeout"
  shows "\<exists>v t sends. call tr wake q timeout started = Some (v, t, sends)
    \<and> started \<le> t \<and> t \<le> started + timeout + 0.01 + 2 * slack
    \<and> 1 \<le> length sends \<and> length sends \<le> Suc (nat \<lceil>10 * timeout\<rceil>)
    \<and> (\<forall>(p, to) \<in> set sends. p = q \<and> 0.01 \<le> to \<and> to \<le> max 0.01 (5 + real_of_int (q_wait q)))"
proof -
  have "timeout \<le> real (nat \<lceil>10 * timeout\<rceil>) * 0.1" using real_nat_ceiling_ge [of "10 * timeout"] by simp
  then have "\<exists>res t sends. call_loop tr wake q (started + timeout) 0 started 0.1 = Some (res, t, sends)
    \<and> started \<le> t \<and> t \<le> started + timeout + 0.01 + 2 * slack \<and> length sends \<le> Suc (nat \<lceil>10 * timeout\<rceil>)
    \<and> (\<forall>(p, to) \<in> set sends. p = q \<and> 0.01 \<le> to \<and> to \<le> max 0.01 (5 + real_of_int (q_wait q)))"
    by (intro call_loop_ends [OF ok]) (use assms in \<open>simp_all add: transport_ok_def\<close>)
  then obtain res t sends where r: "call_loop tr wake q (started + timeout) 0 started 0.1 = Some (res, t, sends)"
    and rest: "started \<le> t" "t \<le> started + timeout + 0.01 + 2 * slack" "length sends \<le> Suc (nat \<lceil>10 * timeout\<rceil>)"
    "\<forall>(p, to) \<in> set sends. p = q \<and> 0.01 \<le> to \<and> to \<le> max 0.01 (5 + real_of_int (q_wait q))" by blast
  have "sends \<noteq> []" using call_loop_last [OF r] by simp
  then have "1 \<le> length sends" by (cases sends) auto
  with rest show ?thesis by (cases res) (auto simp: call_def r)
qed

definition ex_wire :: wire where
  "ex_wire = make_request \<lparr>c_worker_id = ''w'', c_session_id = ''s''\<rparr> (ex_id 9) None 0 None []"

theorem call_ends_in_time_witness:
  "\<exists>v t sends. call (\<lambda>n q to now. (RpcError UNAVAILABLE, now + to)) (\<lambda>n t s. t + s) ex_wire 10 0 = Some (v, t, sends)
    \<and> t \<le> 10.01"
  using call_ends_in_time [of "\<lambda>n q to now. (RpcError UNAVAILABLE, now + to)" "\<lambda>n t s. t + s" 0 10 ex_wire 0]
  by (auto simp: transport_ok_def)

section \<open>The local deadline is conservative\<close>

lemma micros_bounds: "micros t \<le> t" "t < micros t + 0.000001"
proof -
  have "real_of_int \<lfloor>t * 1000000\<rfloor> \<le> t * 1000000" by linarith
  then show "micros t \<le> t" by (simp add: micros_def)
  have "t * 1000000 < real_of_int \<lfloor>t * 1000000\<rfloor> + 1" by linarith
  then show "t < micros t + 0.000001" by (simp add: micros_def field_simps)
qed

lemma local_deadline_bound:
  assumes "local_deadline started r = Some dl" "lease_times r = Some (expires, server)" "started + offset \<le> server"
  shows "dl + offset < expires - 0.4999"
  using assms micros_bounds(1) [of expires] micros_bounds(2) [of server] by (auto simp: local_deadline_def)

text \<open>C17: The worker never trusts a lease longer than the server does. When the server's clock runs at a
  fixed offset from the worker's and was read after the call started (however often the request
  was sent again), then at every local time before the deadline the call computes, the server's
  clock is still almost half a second short of the lease's expiry.\<close>

theorem call_deadline_conservative:
  assumes "call tr wake q timeout started = Some (Inr (r, Some dl), t, sends)"
    and "lease_times r = Some (expires, server)" "started + offset \<le> server" "now < dl"
  shows "now + offset < expires - 0.4999"
proof -
  have "local_deadline started r = Some dl"
    using assms(1) by (auto simp: call_def split: option.splits sum.splits)
  from local_deadline_bound [OF this assms(2,3)] assms(4) show ?thesis by linarith
qed

theorem call_deadline_conservative_witness:
  "call (\<lambda>n q to now. (Reply (R_Heartbeat 130 100), now + 1)) (\<lambda>n t s. t + s) ex_wire 10 0
      = Some (Inr (R_Heartbeat 130 100, Some 29.5), 1, [(ex_wire, 5)]) \<and> 29 + 100 < (130::real) - 0.4999"
proof -
  have "call (\<lambda>n q to now. (Reply (R_Heartbeat 130 100), now + 1)) (\<lambda>n t s. t + s) ex_wire 10 0
      = Some (Inr (R_Heartbeat 130 100, Some 29.5), 1, [(ex_wire, 5)])"
    by (simp add: call_def call_loop.simps local_deadline_def micros_def send_timeout_def ex_wire_def make_request_def)
  moreover from call_deadline_conservative [OF this, of 130 100 100 29] have "29 + 100 < (130::real) - 0.4999" by simp
  ultimately show ?thesis by blast
qed

section \<open>Exactly once over a lossy network\<close>

text \<open>A network between the client and the control plane: before the n-th send other clients run
  the operations \<open>n_ops n\<close>, the request is delivered or lost, and so is its answer.\<close>

record net =
  n_ops :: "nat \<Rightarrow> op list"
  n_env :: "nat \<Rightarrow> txenv"
  n_delivered :: "nat \<Rightarrow> bool"
  n_answered :: "nat \<Rightarrow> bool"
  n_time :: "nat \<Rightarrow> real \<Rightarrow> real \<Rightarrow> real"

definition net_step :: "net \<Rightarrow> rpc_method \<Rightarrow> wire \<Rightarrow> nat \<Rightarrow> op list" where
  "net_step net m q i = n_ops net i @ (if n_delivered net i then [Op_RPC (n_env net i) m (decode_request q)] else [])"

definition net_db :: "net \<Rightarrow> rpc_method \<Rightarrow> wire \<Rightarrow> db \<Rightarrow> nat \<Rightarrow> db" where
  "net_db net m q d n = fold exec (concat (map (net_step net m q) [0..<n]) @ n_ops net n) d"

definition net_transport :: "net \<Rightarrow> rpc_method \<Rightarrow> db \<Rightarrow> transport" where
  "net_transport net m d n q to now =
    (if n_delivered net n \<and> n_answered net n then serve (n_env net n) m q (net_db net m q d n) else RpcError UNAVAILABLE,
     n_time net n to now)"

lemma net_db_later:
  assumes "k < i" "n_delivered net k"
  shows "\<exists>ps. net_db net m q d i = fold exec ps (exec (Op_RPC (n_env net k) m (decode_request q)) (net_db net m q d k))"
proof -
  have "[0..<i] = [0..<k] @ k # [Suc k..<i]" using assms(1) by (metis le_add_diff_inverse less_imp_le upt_add_eq_append upt_conv_Cons zero_le)
  then show ?thesis using assms(2)
    by (intro exI [of _ "concat (map (net_step net m q) [Suc k..<i]) @ n_ops net i"]) (simp add: net_db_def net_step_def)
qed

lemma serve_Reply: "serve e m q d = Reply r \<longleftrightarrow> (\<exists>d'. RPC e m (decode_request q) d = Inr (r, d'))"
  by (auto simp: serve_def split: sum.splits)

lemma RPC_again:
  assumes "RPC e m r d = Inr (resp, d1)" "Hash e' = Hash e"
  shows "RPC e' m r (fold exec ps d1) = Inr (resp, fold exec ps d1)"
proof -
  from assms(1) have "WorkerID r \<noteq> ''''" "SessionID r \<noteq> ''''" "length (WorkerID r) \<le> 256" "length (SessionID r) \<le> 256"
    by (auto simp: RPC_def split: if_splits)
  with RPC_replay [OF assms(1) refl refl] assms(2) show ?thesis by simp
qed

text \<open>C2: At-least-once sending and receipts make exactly-once calls. Whatever is lost in between and
  whatever other clients do meanwhile, a call that returns a reply was executed by exactly one of
  its deliveries: the earlier ones were refused and rolled back, the later ones got the recorded
  reply and changed nothing, and that reply is the one the call returns.\<close>

theorem call_exactly_once:
  assumes run: "call (net_transport net m d) wake q timeout started = Some (Inr (r, dl), t, sends)"
    and hash: "\<And>i. Hash (n_env net i) = h"
  shows "\<exists>k < length sends. n_delivered net k \<and> serve (n_env net k) m q (net_db net m q d k) = Reply r
    \<and> (\<forall>i < length sends. n_delivered net i \<longrightarrow>
        (i < k \<longrightarrow> (\<exists>s. serve (n_env net i) m q (net_db net m q d i) = RpcError s)
          \<and> exec (Op_RPC (n_env net i) m (decode_request q)) (net_db net m q d i) = net_db net m q d i)
      \<and> (k < i \<longrightarrow> serve (n_env net i) m q (net_db net m q d i) = Reply r
          \<and> exec (Op_RPC (n_env net i) m (decode_request q)) (net_db net m q d i) = net_db net m q d i))"
proof -
  let ?s = "\<lambda>i. serve (n_env net i) m q (net_db net m q d i)"
  let ?P = "\<lambda>i. n_delivered net i \<and> (\<exists>r. ?s i = Reply r)"
  from run have "call_loop (net_transport net m d) wake q (started + timeout) 0 started 0.1 = Some (Inr r, t, sends)"
    by (auto simp: call_def split: option.splits sum.splits)
  from call_loop_last [OF this] have ne: "sends \<noteq> []" and last: "n_delivered net (length sends - 1)" "?s (length sends - 1) = Reply r"
    by (auto simp: as_outcome_def net_transport_def split: if_splits)
  define k where "k = (LEAST i. ?P i)"
  have Pk: "?P k" unfolding k_def by (rule LeastI [of ?P "length sends - 1"]) (use last in blast)
  have kle: "k \<le> length sends - 1" unfolding k_def by (rule Least_le) (use last in blast)
  then have klt: "k < length sends" using ne by (cases sends) auto
  from Pk obtain r0 d1 where r0: "RPC (n_env net k) m (decode_request q) (net_db net m q d k) = Inr (r0, d1)"
    by (auto simp: serve_Reply)
  have later: "RPC (n_env net i) m (decode_request q) (net_db net m q d i) = Inr (r0, net_db net m q d i)" if "k < i" for i
  proof -
    from net_db_later [OF that, of net m q d] Pk obtain ps where
      "net_db net m q d i = fold exec ps (exec (Op_RPC (n_env net k) m (decode_request q)) (net_db net m q d k))" by blast
    then have "net_db net m q d i = fold exec ps d1" using r0 by (simp add: committed_def)
    with RPC_again [OF r0, of "n_env net i" ps] hash show ?thesis by simp
  qed
  have "r0 = r"
  proof (cases "k = length sends - 1")
    case True
    with last r0 show ?thesis by (simp add: serve_def)
  next
    case False
    with kle later [of "length sends - 1"] last(2) show ?thesis by (simp add: serve_def)
  qed
  moreover have "(\<exists>s. ?s i = RpcError s) \<and> exec (Op_RPC (n_env net i) m (decode_request q)) (net_db net m q d i) = net_db net m q d i"
    if "i < k" "n_delivered net i" for i
    using not_less_Least [of i ?P] that by (auto simp: k_def serve_def committed_def split: sum.splits)
  ultimately show ?thesis using klt Pk later r0 by (auto intro!: exI [of _ k] simp: serve_def committed_def)
qed

definition ex_start_wire :: wire where
  "ex_start_wire = \<lparr>q_request_id = ''3'', q_worker_id = ''w'', q_session_id = ''s'',
     q_payload = [F_hostname ''h'', F_resources \<lparr>CPU = 2, MemoryMB = 2, GPU = 0\<rparr>],
     q_attempt_id = ex_id 4, q_lease_token = ex_id 5, q_wait = 0\<rparr>"

definition ex_net :: net where
  "ex_net = \<lparr>n_ops = (\<lambda>_. []), n_env = (\<lambda>_. ex_env 3), n_delivered = (\<lambda>_. True), n_answered = (\<lambda>n. n > 0),
     n_time = (\<lambda>n to now. now + 1)\<rparr>"

lemma ex_start_decode: "decode_request ex_start_wire = ex_request ''3''"
  by (simp add: decode_request_def ex_start_wire_def ex_request_def)

lemma ex_net_call:
  "\<exists>sends. call (net_transport ex_net StartAttempt (ex_db 3)) (\<lambda>n t s. t + s) ex_start_wire 10 0
     = Some (Inr (R_Accepted, None), 2.1, sends) \<and> length sends = 2"
proof -
  from ex_start_runs obtain d1 where d1: "RPC (ex_env 3) StartAttempt (ex_request ''3'') (ex_db 3) = Inr (R_Accepted, d1)" ..
  have "net_db ex_net StartAttempt ex_start_wire (ex_db 3) 1 = d1"
    using d1 by (simp add: net_db_def net_step_def ex_net_def ex_start_decode committed_def)
  with RPC_again [OF d1 refl, of "[]"] have "serve (ex_env 3) StartAttempt ex_start_wire (net_db ex_net StartAttempt ex_start_wire (ex_db 3) 1) = Reply R_Accepted"
    by (simp add: serve_def ex_start_decode)
  then have two: "net_transport ex_net StartAttempt (ex_db 3) 1 ex_start_wire to now = (Reply R_Accepted, now + 1)" for to now
    by (simp add: net_transport_def ex_net_def)
  have one: "net_transport ex_net StartAttempt (ex_db 3) 0 ex_start_wire to now = (RpcError UNAVAILABLE, now + 1)" for to now
    by (simp add: net_transport_def ex_net_def)
  have "call_loop (net_transport ex_net StartAttempt (ex_db 3)) (\<lambda>n t s. t + s) ex_start_wire 10 1 1.1 0.2
      = Some (Inr R_Accepted, 2.1, [(ex_start_wire, send_timeout 0 10 1.1)])"
    using two by (subst call_loop.simps) (simp add: Let_def ex_start_wire_def)
  then have "call_loop (net_transport ex_net StartAttempt (ex_db 3)) (\<lambda>n t s. t + s) ex_start_wire 10 0 0 0.1
      = Some (Inr R_Accepted, 2.1, [(ex_start_wire, send_timeout 0 10 0), (ex_start_wire, send_timeout 0 10 1.1)])"
    using one by (subst call_loop.simps) (simp add: Let_def retryable_def ex_start_wire_def)
  then show ?thesis by (simp add: call_def local_deadline_def)
qed

theorem call_exactly_once_witness:
  "\<exists>k < 2. serve (ex_env 3) StartAttempt ex_start_wire (net_db ex_net StartAttempt ex_start_wire (ex_db 3) k) = Reply R_Accepted"
proof -
  from ex_net_call obtain sends where
    run: "call (net_transport ex_net StartAttempt (ex_db 3)) (\<lambda>n t s. t + s) ex_start_wire 10 0
      = Some (Inr (R_Accepted, None), 2.1, sends)" "length sends = 2" by blast
  from call_exactly_once [OF run(1), of ex_hash] run(2) show ?thesis by (auto simp: ex_net_def)
qed

end
