(* ===== verification/Sha256.thy ===== *)
theory Sha256
  imports Scheduler_Model
begin

text \<open>
  The SHA-256 hash object of Python's \<open>hashlib\<close>, as \<open>rungrid_worker/artifacts.py\<close> and the
  evidence scripts use it: an object that absorbs bytes chunk by chunk and prints its digest in
  lower case hexadecimal. Bytes are \<^typ>\<open>8 word\<close>s and the compression function works on 32-bit
  words. The main fact is that the digest depends only on the concatenation of the chunks.
\<close>

type_synonym bytes = "8 word list"

type_synonym sha_words = "32 word list"

section \<open>Compression\<close>

text \<open>The constants are the first 32 bits of the fractional parts of the cube and square roots of the
  first primes; \<open>root_bits\<close> finds an integer root bit by bit.\<close>

fun root_bits :: "nat \<Rightarrow> int \<Rightarrow> nat \<Rightarrow> int \<Rightarrow> int" where
  "root_bits k n 0 x = x"
| "root_bits k n (Suc b) x = root_bits k n b (if (x + 2 ^ b) ^ k \<le> n then x + 2 ^ b else x)"

definition root_fraction :: "nat \<Rightarrow> int \<Rightarrow> 32 word" where
  "root_fraction k p = word_of_int (root_bits k (p * 2 ^ (32 * k)) 40 0)"

definition sha_primes :: "int list" where
  "sha_primes = [2, 3, 5, 7, 11, 13, 17, 19, 23, 29, 31, 37, 41, 43, 47, 53,
     59, 61, 67, 71, 73, 79, 83, 89, 97, 101, 103, 107, 109, 113, 127, 131,
     137, 139, 149, 151, 157, 163, 167, 173, 179, 181, 191, 193, 197, 199, 211, 223,
     227, 229, 233, 239, 241, 251, 257, 263, 269, 271, 277, 281, 283, 293, 307, 311]"

definition sha_K :: sha_words where
  "sha_K = map (root_fraction 3) sha_primes"

definition sha_H0 :: sha_words where
  "sha_H0 = map (root_fraction 2) (take 8 sha_primes)"

definition sha_ch :: "32 word \<Rightarrow> 32 word \<Rightarrow> 32 word \<Rightarrow> 32 word" where
  "sha_ch x y z = (x AND y) XOR (NOT x AND z)"

definition sha_maj :: "32 word \<Rightarrow> 32 word \<Rightarrow> 32 word \<Rightarrow> 32 word" where
  "sha_maj x y z = (x AND y) XOR (x AND z) XOR (y AND z)"

definition sha_sum :: "nat \<Rightarrow> nat \<Rightarrow> nat \<Rightarrow> 32 word \<Rightarrow> 32 word" where
  "sha_sum i j k x = word_rotr i x XOR word_rotr j x XOR word_rotr k x"

definition sha_sigma :: "nat \<Rightarrow> nat \<Rightarrow> nat \<Rightarrow> 32 word \<Rightarrow> 32 word" where
  "sha_sigma i j k x = word_rotr i x XOR word_rotr j x XOR drop_bit k x"

fun sha_word :: "bytes \<Rightarrow> 32 word" where
  "sha_word bs = foldl (\<lambda>w b. push_bit 8 w OR ucast b) 0 bs"

text \<open>The message schedule, newest word first: each step needs the words 2, 7, 15 and 16 back.\<close>

definition sched_step :: "sha_words \<Rightarrow> sha_words" where
  "sched_step ws = (sha_sigma 17 19 10 (ws ! 1) + ws ! 6 + sha_sigma 7 18 3 (ws ! 14) + ws ! 15) # ws"

definition schedule :: "bytes \<Rightarrow> sha_words" where
  "schedule block = rev ((sched_step ^^ 48) (rev (map sha_word (chunks 4 block))))"

fun sha_round :: "sha_words \<Rightarrow> 32 word \<times> 32 word \<Rightarrow> sha_words" where
  "sha_round [a, b, c, d, e, f, g, h] (k, w) =
    (let t1 = h + sha_sum 6 11 25 e + sha_ch e f g + k + w;
         t2 = sha_sum 2 13 22 a + sha_maj a b c in
     [t1 + t2, a, b, c, d + t1, e, f, g])"
| "sha_round s _ = s"

definition compress :: "sha_words \<Rightarrow> bytes \<Rightarrow> sha_words" where
  "compress s block = map2 (+) s (foldl sha_round s (zip sha_K (schedule block)))"

section \<open>The hash object\<close>

record sha =
  sha_state :: sha_words
  sha_buf :: bytes
  sha_len :: nat

function absorb :: "sha_words \<Rightarrow> bytes \<Rightarrow> sha_words \<times> bytes" where
  "absorb s bs = (if length bs < 64 then (s, bs) else absorb (compress s (take 64 bs)) (drop 64 bs))"
  by auto
termination by (relation "measure (\<lambda>(s, bs). length bs)") auto

declare absorb.simps [simp del]

definition sha_new :: sha where
  "sha_new = \<lparr>sha_state = sha_H0, sha_buf = [], sha_len = 0\<rparr>"

definition sha_update :: "sha \<Rightarrow> bytes \<Rightarrow> sha" where
  "sha_update h bs = (let (s, rest) = absorb (sha_state h) (sha_buf h @ bs) in
     \<lparr>sha_state = s, sha_buf = rest, sha_len = sha_len h + length bs\<rparr>)"

definition big_endian :: "nat \<Rightarrow> 'a::len word \<Rightarrow> bytes" where
  "big_endian n x = map (\<lambda>i. ucast (drop_bit (8 * i) x)) (rev [0..<n])"

definition sha_padding :: "nat \<Rightarrow> bytes" where
  "sha_padding len = [0x80] @ replicate ((119 - len mod 64) mod 64) 0 @ big_endian 8 (word_of_nat (8 * len) :: 64 word)"

definition sha_digest :: "sha \<Rightarrow> bytes" where
  "sha_digest h = concat (map (big_endian 4)
     (fst (absorb (sha_state h) (sha_buf h @ sha_padding (sha_len h)))))"

definition hexdigest :: "sha \<Rightarrow> string" where
  "hexdigest h = hex (sha_digest h)"

definition sha256_hex :: "bytes \<Rightarrow> string" where
  "sha256_hex bs = hexdigest (sha_update sha_new bs)"

section \<open>Chunks do not matter\<close>

lemma absorb_append: "absorb s (xs @ ys) = (case absorb s xs of (s', rest) \<Rightarrow> absorb s' (rest @ ys))"
proof (induction s xs rule: absorb.induct)
  case (1 s xs)
  show ?case
  proof (cases "length xs < 64")
    case True
    then show ?thesis by (simp add: absorb.simps [of s xs])
  next
    case False
    then have "absorb s (xs @ ys) = absorb (compress s (take 64 xs)) (drop 64 xs @ ys)"
      by (subst absorb.simps) simp
    with False 1 show ?thesis by (simp add: absorb.simps [of s xs])
  qed
qed

lemma sha_update_append: "sha_update h (xs @ ys) = sha_update (sha_update h xs) ys"
proof -
  have "sha_buf h @ xs @ ys = (sha_buf h @ xs) @ ys" by simp
  then show ?thesis unfolding sha_update_def by (simp only: absorb_append [of _ "sha_buf h @ xs"]) (simp split: prod.splits)
qed

lemma absorb_short: "absorb s xs = (s', rest) \<Longrightarrow> length rest < 64"
proof (induction s xs rule: absorb.induct)
  case (1 s xs)
  then show ?case by (subst (asm) absorb.simps) (auto split: if_splits)
qed

lemma sha_update_Nil: "length (sha_buf h) < 64 \<Longrightarrow> sha_update h [] = h"
  by (simp add: sha_update_def absorb.simps [of _ "sha_buf h"])

lemma sha_update_buf: "length (sha_buf (sha_update h xs)) < 64"
  by (auto simp: sha_update_def dest: absorb_short split: prod.splits)

lemma foldl_sha_update: "length (sha_buf h) < 64 \<Longrightarrow> foldl sha_update h cs = sha_update h (concat cs)"
  by (induction cs arbitrary: h) (simp_all add: sha_update_Nil sha_update_append sha_update_buf)

section \<open>Shape of the digest\<close>

lemma compress_length: "length s = 8 \<Longrightarrow> length (compress s b) = 8"
proof -
  have r: "length (sha_round s p) = length s" for s p
    by (induction s p rule: sha_round.induct) (simp_all add: Let_def)
  have "length (foldl sha_round s ps) = length s" for ps
    by (induction ps arbitrary: s) (simp_all add: r)
  then show "length s = 8 \<Longrightarrow> length (compress s b) = 8" by (simp add: compress_def)
qed

lemma absorb_length: "length s = 8 \<Longrightarrow> length (fst (absorb s bs)) = 8"
proof (induction s bs rule: absorb.induct)
  case (1 s bs)
  then show ?case by (subst absorb.simps) (simp add: compress_length)
qed

lemma sha_update_length: "length (sha_state h) = 8 \<Longrightarrow> length (sha_state (sha_update h bs)) = 8"
  using absorb_length [of "sha_state h" "sha_buf h @ bs"]
  by (cases "absorb (sha_state h) (sha_buf h @ bs)") (simp add: sha_update_def)

lemma length_concat_const: "\<forall>x \<in> set xs. length (f x) = n \<Longrightarrow> length (concat (map f xs)) = n * length xs"
  by (induction xs) auto

lemma sha_digest_length: "length (sha_state h) = 8 \<Longrightarrow> length (sha_digest h) = 32"
  unfolding sha_digest_def by (subst length_concat_const [where n = 4]) (simp_all add: big_endian_def absorb_length)

lemma sha256_hex_checksum: "checksumPattern (sha256_hex bs)"
proof -
  have "length (sha_digest (sha_update sha_new bs)) = 32"
    by (intro sha_digest_length sha_update_length) (simp add: sha_new_def sha_H0_def sha_primes_def)
  then show ?thesis by (simp add: sha256_hex_def hexdigest_def checksumPattern_def hex_lower)
qed

end
