(* ===== verification/Artifacts.thy ===== *)
theory Artifacts
  imports Rpc Sha256
begin

text \<open>
  The worker's artifact transfer (\<open>worker/python/rungrid_worker/artifacts.py\<close>): the digest of a
  file, the upload with its five tries and the restore of a checkpoint.

  The object store is a parameter. \<open>u_put n\<close> says how the n-th \<open>put_object\<close> ends, \<open>u_body n\<close>
  what the n-th opening of the file reads, \<open>u_alive n\<close> what the n-th \<open>alive()\<close> answers and
  \<open>u_size\<close> what \<open>stat\<close> finds; the calls made are recorded in \<open>u_puts\<close>, with the calls of
  \<open>on_failure\<close> counted and the sleeps listed. \<open>download\<close> is what \<open>download_file\<close> writes.
\<close>

section \<open>Digest\<close>

definition digest :: "bytes \<Rightarrow> string" where
  "digest content = hexdigest (foldl sha_update sha_new (chunks (1024 * 1024) content))"

lemma digest_sha256: "digest content = sha256_hex content"
  by (simp add: digest_def sha256_hex_def foldl_sha_update sha_new_def)

section \<open>Upload\<close>

datatype put_outcome = Put_Ok | Put_Raises

datatype transfer_error = LeaseLost | PutFailed | DownloadFailed | ChecksumMismatch

record put_call =
  p_key :: string
  p_body :: bytes
  p_sha256 :: string

record upload_env =
  u_alive :: "nat \<Rightarrow> bool"
  u_put :: "nat \<Rightarrow> put_outcome"
  u_body :: "nat \<Rightarrow> bytes"
  u_size :: nat
  u_uuid :: string

record upload_state =
  u_puts :: "put_call list"
  u_failures :: nat
  u_sleeps :: "real list"

definition object_key :: "held \<Rightarrow> string \<Rightarrow> string \<Rightarrow> string \<Rightarrow> string" where
  "object_key l kind uuid name =
    (let prefix = strip is_slash (ArtifactPrefix (j_def (l_job (h_lease l)))) in
     join ''/'' (filter (\<lambda>s. s \<noteq> '''') [prefix, j_id (l_job (h_lease l)), l_attempt (h_lease l), kind, uuid @ ''-'' @ name]))"

fun upload_loop :: "upload_env \<Rightarrow> string \<Rightarrow> string \<Rightarrow> string \<Rightarrow> nat list \<Rightarrow> upload_state
    \<Rightarrow> (transfer_error + artifact option) \<times> upload_state" where
  "upload_loop v key checksum kind [] s = (Inr None, s)"
| "upload_loop v key checksum kind (n # ns) s =
    (if \<not> u_alive v n then (Inl LeaseLost, s)
     else
       let s = s\<lparr>u_puts := u_puts s @ [\<lparr>p_key = key, p_body = u_body v n, p_sha256 = checksum\<rparr>]\<rparr> in
       (case u_put v n of
          Put_Ok \<Rightarrow> (Inr (Some \<lparr>ObjectKey = key, ContentType = ''application/octet-stream'',
             SizeBytes = int (u_size v), Checksum = checksum, Kind = kind\<rparr>), s)
        | Put_Raises \<Rightarrow>
            let s = s\<lparr>u_failures := Suc (u_failures s)\<rparr> in
            if n = 4 then (Inl PutFailed, s)
            else upload_loop v key checksum kind ns (s\<lparr>u_sleeps := u_sleeps s @ [min (0.2 * 2 ^ n) 2]\<rparr>)))"

definition upload :: "upload_env \<Rightarrow> string \<Rightarrow> bytes \<Rightarrow> held \<Rightarrow> string \<Rightarrow> upload_state
    \<Rightarrow> (transfer_error + artifact option) \<times> upload_state" where
  "upload v name content l kind = upload_loop v (object_key l kind (u_uuid v) name) (digest content) kind [0..<5]"

section \<open>Restore\<close>

definition restore :: "(string \<Rightarrow> bytes option) \<Rightarrow> artifact \<Rightarrow> transfer_error + bytes" where
  "restore download a = (case download (ObjectKey a) of
     None \<Rightarrow> Inl DownloadFailed
   | Some target \<Rightarrow> if digest target \<noteq> Checksum a then Inl ChecksumMismatch else Inr target)"

section \<open>What the loop does\<close>

definition uploaded :: "upload_env \<Rightarrow> string \<Rightarrow> string \<Rightarrow> string \<Rightarrow> artifact" where
  "uploaded v key checksum kind = \<lparr>ObjectKey = key, ContentType = ''application/octet-stream'',
     SizeBytes = int (u_size v), Checksum = checksum, Kind = kind\<rparr>"

definition put_of :: "upload_env \<Rightarrow> string \<Rightarrow> string \<Rightarrow> nat \<Rightarrow> put_call" where
  "put_of v key checksum n = \<lparr>p_key = key, p_body = u_body v n, p_sha256 = checksum\<rparr>"

text \<open>The state after the tries \<open>n\<close> to \<open>k - 1\<close> all raised, and after a last successful put.\<close>

definition tried :: "upload_env \<Rightarrow> string \<Rightarrow> string \<Rightarrow> nat \<Rightarrow> nat \<Rightarrow> upload_state \<Rightarrow> upload_state" where
  "tried v key checksum n k s = s\<lparr>u_puts := u_puts s @ map (put_of v key checksum) [n..<k],
     u_failures := u_failures s + (k - n), u_sleeps := u_sleeps s @ map (\<lambda>i. min (0.2 * 2 ^ i) 2) [n..<min k 4]\<rparr>"

definition stored :: "upload_env \<Rightarrow> string \<Rightarrow> string \<Rightarrow> nat \<Rightarrow> upload_state \<Rightarrow> upload_state" where
  "stored v key checksum k s = s\<lparr>u_puts := u_puts s @ [put_of v key checksum k]\<rparr>"

lemma tried_self [simp]: "tried v key checksum n n s = s"
  by (simp add: tried_def)

lemma tried_step: "n < k \<Longrightarrow> n < 4 \<Longrightarrow> tried v key checksum (Suc n) k (tried v key checksum n (Suc n) s) = tried v key checksum n k s"
  by (simp add: tried_def upt_conv_Cons)

text \<open>The first try that ends the loop: the lease is gone, the put succeeds, or it was the fifth.\<close>

lemma upload_loop_result:
  assumes "n \<le> 4"
  shows "\<exists>k. n \<le> k \<and> k \<le> 4 \<and> (k < 4 \<longrightarrow> \<not> u_alive v k \<or> u_put v k = Put_Ok)
    \<and> upload_loop v key checksum kind [n..<5] s =
       (if \<not> u_alive v k then (Inl LeaseLost, tried v key checksum n k s)
        else if u_put v k = Put_Ok
          then (Inr (Some (uploaded v key checksum kind)), stored v key checksum k (tried v key checksum n k s))
        else (Inl PutFailed, tried v key checksum n 5 s))"
  using assms
proof (induction "4 - n" arbitrary: n s)
  case 0
  then have "n = 4" by simp
  moreover have "[4..<5] = [4::nat]" by (simp add: upt_rec)
  ultimately show ?case
    by (intro exI [of _ 4]) (cases "u_put v 4"; simp add: put_of_def uploaded_def stored_def tried_def Let_def)
next
  case (Suc m)
  then have n: "n < 4" "m = 4 - Suc n" "Suc n \<le> 4" by auto
  then have up: "[n..<5] = n # [Suc n..<5]" by (simp add: upt_conv_Cons)
  show ?case
  proof (cases "u_alive v n \<and> u_put v n = Put_Raises")
    case False
    then show ?thesis
      using n by (intro exI [of _ n]) (cases "u_put v n"; simp add: up put_of_def uploaded_def stored_def Let_def)
  next
    case True
    have "upload_loop v key checksum kind [n..<5] s = upload_loop v key checksum kind [Suc n..<5] (tried v key checksum n (Suc n) s)"
      using True n by (simp add: up tried_def put_of_def Let_def)
    moreover from Suc.hyps(1) [OF n(2,3)] obtain k where "Suc n \<le> k" "k \<le> 4" "k < 4 \<longrightarrow> \<not> u_alive v k \<or> u_put v k = Put_Ok"
      "upload_loop v key checksum kind [Suc n..<5] (tried v key checksum n (Suc n) s) =
        (let s1 = tried v key checksum n (Suc n) s in
         if \<not> u_alive v k then (Inl LeaseLost, tried v key checksum (Suc n) k s1)
         else if u_put v k = Put_Ok
           then (Inr (Some (uploaded v key checksum kind)), stored v key checksum k (tried v key checksum (Suc n) k s1))
         else (Inl PutFailed, tried v key checksum (Suc n) 5 s1))" unfolding Let_def by blast
    ultimately show ?thesis
      using n by (intro exI [of _ k]) (simp add: tried_step)
  qed
qed

section \<open>Keys and dots\<close>

lemma contains_dots_Cons:
  "contains ''..'' (x # s) \<longleftrightarrow> (x = CHR ''.'' \<and> s \<noteq> [] \<and> hd s = CHR ''.'') \<or> contains ''..'' s"
  by (cases s) auto

lemma contains_dots_split:
  "c \<noteq> CHR ''.'' \<Longrightarrow> contains ''..'' (u @ c # v) \<longleftrightarrow> contains ''..'' u \<or> contains ''..'' v"
proof (induction u)
  case (Cons x u)
  then show ?case by (cases u) (auto simp: contains_dots_Cons)
qed (simp add: contains_dots_Cons)

lemma no_dot_no_dots: "CHR ''.'' \<notin> set s \<Longrightarrow> \<not> contains ''..'' s"
  by (induction s) (auto simp: contains_dots_Cons)

lemma contains_strip: "contains sub (strip p s) \<Longrightarrow> contains sub s"
proof -
  have l: "\<exists>u. s = u @ dropWhile p s" for s :: string by (metis takeWhile_dropWhile_id)
  have r: "\<exists>u. s = rev (dropWhile p (rev s)) @ u" for s :: string
    by (metis rev_append rev_rev_ident takeWhile_dropWhile_id)
  obtain u where u: "s = u @ lstrip p s" using l [of s] by (auto simp: lstrip_def)
  obtain v where v: "lstrip p s = strip p s @ v" using r [of "lstrip p s"] by (auto simp: strip_def rstrip_def)
  show "contains sub (strip p s) \<Longrightarrow> contains sub s"
    unfolding contains_iff using u v by (metis append.assoc)
qed

lemma list_all_block: "list_all P (take k (drop j s)) \<Longrightarrow> j \<le> i \<Longrightarrow> i < j + k \<Longrightarrow> i < length s \<Longrightarrow> P (s ! i)"
  by (auto simp: list_all_length dest: spec [of _ "i - j"])

lemma idPattern_chars:
  assumes "idPattern s" "c \<in> set s"
  shows "is_hex c \<or> c = CHR ''-''"
proof -
  from assms(2) obtain i where i: "i < length s" "s ! i = c" by (auto simp: in_set_conv_nth)
  have len: "length s = 36" using assms(1) by (simp add: idPattern_def)
  have blocks: "list_all is_hex (take 8 (drop 0 s))" "list_all is_hex (take 4 (drop 9 s))" "list_all is_hex (take 4 (drop 14 s))"
    "list_all is_hex (take 4 (drop 19 s))" "list_all is_hex (take 12 (drop 24 s))"
    using assms(1) len by (simp_all add: idPattern_def)
  have dashes: "s ! 8 = CHR ''-''" "s ! 13 = CHR ''-''" "s ! 18 = CHR ''-''" "s ! 23 = CHR ''-''"
    using assms(1) by (simp_all add: idPattern_def)
  consider "i < 8" | "9 \<le> i \<and> i < 13" | "14 \<le> i \<and> i < 18" | "19 \<le> i \<and> i < 23" | "24 \<le> i \<and> i < 36" | "i \<in> {8, 13, 18, 23}"
    using i(1) len by fastforce
  then show ?thesis using blocks [THEN list_all_block, of i] i dashes by cases auto
qed

lemma idPattern_no_dot: "idPattern s \<Longrightarrow> CHR ''.'' \<notin> set s"
  using idPattern_chars is_hex_not_dot by fastforce

lemma idPattern_nonempty: "idPattern s \<Longrightarrow> s \<noteq> ''''"
  by (auto simp: idPattern_def)

definition artifact_kinds :: "string set" where
  "artifact_kinds = {''checkpoint'', ''output'', ''log''}"

lemma object_key_eq:
  assumes "idPattern (j_id (l_job (h_lease l)))" "idPattern (l_attempt (h_lease l))" "kind \<in> artifact_kinds"
  shows "object_key l kind uuid name
    = key_prefix (l_job (h_lease l)) (l_attempt (h_lease l)) @ kind @ ''/'' @ uuid @ ''-'' @ name"
  using assms idPattern_nonempty by (auto simp: object_key_def key_prefix_def artifact_kinds_def Let_def)

lemma object_key_dots:
  assumes "idPattern (j_id (l_job (h_lease l)))" "idPattern (l_attempt (h_lease l))" "idPattern uuid" "kind \<in> artifact_kinds"
    and "Validate (j_def (l_job (h_lease l))) = None"
  shows "contains ''..'' (object_key l kind uuid name) \<longleftrightarrow> contains ''..'' name"
proof -
  have k: "\<not> contains ''..'' kind" using assms(4) by (auto simp: artifact_kinds_def)
  have pre: "\<not> contains ''..'' (strip is_slash (ArtifactPrefix (j_def (l_job (h_lease l)))))"
    using contains_strip Validate_None(7) [OF assms(5)] by blast
  note nd = assms(1-3) [THEN idPattern_no_dot, THEN no_dot_no_dots]
  show ?thesis
    unfolding object_key_eq [OF assms(1,2,4)] key_prefix_def Let_def
    using nd k pre by (simp add: contains_dots_split)
qed

section \<open>Properties\<close>

text \<open>The digest of a file does not depend on the megabyte chunks it is read in: it is the SHA-256 of
  the whole content, and it always has the form the server demands of a checksum.\<close>

lemma digest_whole_file:
  "digest content = sha256_hex content \<and> checksumPattern (digest content)"
  by (simp add: digest_sha256 sha256_hex_checksum)

definition no_puts :: upload_state where
  "no_puts = \<lparr>u_puts = [], u_failures = 0, u_sleeps = []\<rparr>"

lemma sleeps_bounded: "k \<le> 4 \<Longrightarrow> sum_list (map (\<lambda>i. min (0.2 * 2 ^ i) 2) [0..<k]) \<le> (3::real)"
proof -
  assume "k \<le> 4"
  then consider "k = 0" | "k = 1" | "k = 2" | "k = 3" | "k = 4" by fastforce
  then show ?thesis by cases (simp_all add: upt_rec)
qed

lemma tried_no_puts:
  "length (u_puts (tried v key c 0 k no_puts)) = k" "u_failures (tried v key c 0 k no_puts) = k"
  "\<forall>p \<in> set (u_puts (tried v key c 0 k no_puts)). p_key p = key \<and> p_sha256 p = c"
  "sum_list (u_sleeps (tried v key c 0 k no_puts)) \<le> 3"
  using sleeps_bounded [of "min k 4"] by (auto simp: tried_def no_puts_def put_of_def)

lemma stored_sel [simp]:
  "u_puts (stored v key c k s) = u_puts s @ [put_of v key c k]" "u_failures (stored v key c k s) = u_failures s"
  "u_sleeps (stored v key c k s) = u_sleeps s"
  by (simp_all add: stored_def)

lemma put_of_sel [simp]: "p_key (put_of v key c n) = key" "p_sha256 (put_of v key c n) = c" "p_body (put_of v key c n) = u_body v n"
  by (simp_all add: put_of_def)

lemma upload_cases:
  assumes "upload v name content l kind no_puts = (r, s)"
  obtains k where "k \<le> 4" "\<not> u_alive v k" "r = Inl LeaseLost" "s = tried v (object_key l kind (u_uuid v) name) (digest content) 0 k no_puts"
  | k where "k \<le> 4" "u_alive v k" "u_put v k = Put_Ok"
      "r = Inr (Some (uploaded v (object_key l kind (u_uuid v) name) (digest content) kind))"
      "s = stored v (object_key l kind (u_uuid v) name) (digest content) k
            (tried v (object_key l kind (u_uuid v) name) (digest content) 0 k no_puts)"
  | "u_alive v 4" "u_put v 4 = Put_Raises" "r = Inl PutFailed"
      "s = tried v (object_key l kind (u_uuid v) name) (digest content) 0 5 no_puts"
proof -
  obtain k where k: "k \<le> 4" "k < 4 \<longrightarrow> \<not> u_alive v k \<or> u_put v k = Put_Ok"
    and res: "(r, s) = (if \<not> u_alive v k then (Inl LeaseLost, tried v (object_key l kind (u_uuid v) name) (digest content) 0 k no_puts)
        else if u_put v k = Put_Ok
          then (Inr (Some (uploaded v (object_key l kind (u_uuid v) name) (digest content) kind)),
                stored v (object_key l kind (u_uuid v) name) (digest content) k (tried v (object_key l kind (u_uuid v) name) (digest content) 0 k no_puts))
        else (Inl PutFailed, tried v (object_key l kind (u_uuid v) name) (digest content) 0 5 no_puts))"
    using upload_loop_result [of 0 v "object_key l kind (u_uuid v) name" "digest content" kind no_puts] assms
    by (auto simp: upload_def)
  show thesis
  proof (cases "u_alive v k")
    case False
    with res k show ?thesis by (intro that(1)) auto
  next
    case alive: True
    show ?thesis
    proof (cases "u_put v k")
      case Put_Ok
      with alive res k show ?thesis by (intro that(2)) auto
    next
      case Put_Raises
      with alive k have "k = 4" by auto
      with alive Put_Raises res show ?thesis by (intro that(3)) auto
    qed
  qed
qed

text \<open>Bounded retries under one key. An upload makes at most five puts, all with the same key and the
  checksum computed before the first; it sleeps at most three seconds in total and counts one
  failure per put that raised. It returns the artifact entry only after a put that succeeded,
  raises the put's error only after the fifth, and never falls through without a result.\<close>

lemma upload_bounded:
  assumes "upload v name content l kind no_puts = (r, s)"
  shows "length (u_puts s) \<le> 5 \<and> sum_list (u_sleeps s) \<le> 3
    \<and> (\<forall>p \<in> set (u_puts s). p_key p = object_key l kind (u_uuid v) name \<and> p_sha256 p = digest content)
    \<and> r \<noteq> Inr None
    \<and> (\<forall>a. r = Inr (Some a) \<longrightarrow> a = uploaded v (object_key l kind (u_uuid v) name) (digest content) kind
         \<and> u_failures s = length (u_puts s) - 1 \<and> u_put v (u_failures s) = Put_Ok)
    \<and> (r = Inl PutFailed \<longrightarrow> length (u_puts s) = 5 \<and> u_failures s = 5)
    \<and> (r = Inl LeaseLost \<longrightarrow> \<not> u_alive v (length (u_puts s)))"
  using assms tried_no_puts
  by (cases rule: upload_cases) auto

definition ex_held :: held where
  "ex_held = \<lparr>h_lease = \<lparr>l_job = ex_row LEASED 2, l_attempt = ex_id 4, l_number = 1, l_token = ex_id 5, l_expires = 32,
     l_server = 2, l_checkpoint = None\<rparr>, h_deadline = 30\<rparr>"

definition ex_upload :: upload_env where
  "ex_upload = \<lparr>u_alive = (\<lambda>_. True), u_put = (\<lambda>n. if n = 0 then Put_Raises else Put_Ok), u_body = (\<lambda>_. [1, 2]),
     u_size = 2, u_uuid = ex_id 7\<rparr>"

lemma ex_upload_runs:
  "upload ex_upload ''a.txt'' [1, 2] ex_held ''output'' no_puts
    = (Inr (Some (uploaded ex_upload (object_key ex_held ''output'' (ex_id 7) ''a.txt'') (digest [1, 2]) ''output'')),
       stored ex_upload (object_key ex_held ''output'' (ex_id 7) ''a.txt'') (digest [1, 2]) 1
         (tried ex_upload (object_key ex_held ''output'' (ex_id 7) ''a.txt'') (digest [1, 2]) 0 1 no_puts))"
  by (simp add: upload_def ex_upload_def upt_rec tried_def stored_def uploaded_def put_of_def no_puts_def Let_def)

theorem upload_bounded_witness:
  "length (u_puts (snd (upload ex_upload ''a.txt'' [1, 2] ex_held ''output'' no_puts))) \<le> 5
    \<and> sum_list (u_sleeps (snd (upload ex_upload ''a.txt'' [1, 2] ex_held ''output'' no_puts))) \<le> 3"
  unfolding ex_upload_runs snd_conv using upload_bounded [OF ex_upload_runs] by (elim conjE) (intro conjI)

lemma uploaded_ok:
  assumes "Validate (j_def (l_job (h_lease l))) = None" "idPattern (j_id (l_job (h_lease l)))"
    and "idPattern (l_attempt (h_lease l))" "idPattern (u_uuid v)" "kind \<in> artifact_kinds"
  shows "artifact_ok (l_job (h_lease l)) (l_attempt (h_lease l)) (uploaded v (object_key l kind (u_uuid v) name) (digest content) kind)
    \<longleftrightarrow> \<not> contains ''..'' name"
proof -
  have "prefix (key_prefix (l_job (h_lease l)) (l_attempt (h_lease l))) (object_key l kind (u_uuid v) name)"
    by (simp add: object_key_eq [OF assms(2,3,5)])
  then show ?thesis
    using object_key_dots [OF assms(2,3,4,5,1), of name] assms(5) sha256_hex_checksum
    by (simp add: artifact_ok_def uploaded_def digest_sha256 artifact_kinds_def)
qed

text \<open>C18: What the worker uploads, the server accepts. For a job the server admitted and identifiers in the
  server's form, the entry an upload returns passes the server's check of a reported artifact
  (key under the attempt's prefix, no \<open>..\<close>, checksum form, size and kind) exactly when the file's
  name has no two dots in a row.\<close>

theorem upload_accepted_by_server:
  assumes "upload v name content l kind no_puts = (Inr (Some a), s)"
    and "Validate (j_def (l_job (h_lease l))) = None" "idPattern (j_id (l_job (h_lease l)))"
    and "idPattern (l_attempt (h_lease l))" "idPattern (u_uuid v)" "kind \<in> artifact_kinds"
  shows "artifact_ok (l_job (h_lease l)) (l_attempt (h_lease l)) a \<longleftrightarrow> \<not> contains ''..'' name"
proof -
  have a: "a = uploaded v (object_key l kind (u_uuid v) name) (digest content) kind"
    using assms(1) by (cases rule: upload_cases) auto
  show ?thesis unfolding a by (rule uploaded_ok [OF assms(2-6)])
qed

lemma ex_ids: "idPattern (ex_id n)"
proof -
  have "is_hex (hex_digit n)" by (rule lower_hex_is_hex [OF hex_digit_lower])
  then show ?thesis by (simp add: ex_id_def idPattern_def is_hex_def)
qed

lemma ex_job_valid: "Validate ex_job = None"
  by (simp add: Validate_def ex_job_def Valid_def NUL_def env_of_def)

theorem upload_accepted_by_server_witness:
  "artifact_ok (ex_row LEASED 2) (ex_id 4)
     (uploaded ex_upload (object_key ex_held ''output'' (ex_id 7) ''a.txt'') (digest [1, 2]) ''output'')"
  using upload_accepted_by_server [OF ex_upload_runs] ex_ids ex_job_valid
  by (simp add: ex_held_def ex_row_def ex_upload_def artifact_kinds_def)

text \<open>C19: Checkpoint round trip. When the file did not change while it was uploaded and the store returns
  what the last put wrote, restoring the returned entry gives back the very bytes; and whatever
  the store returns, a restore that succeeds delivers bytes with the recorded SHA-256.\<close>

theorem restore_after_upload:
  assumes "upload v name content l kind no_puts = (Inr (Some a), s)" "\<And>n. u_body v n = content"
    and "download (ObjectKey a) = Some (p_body (last (u_puts s)))"
  shows "restore download a = Inr content
    \<and> (\<forall>other b. restore other a = Inr b \<longrightarrow> sha256_hex b = sha256_hex content)"
proof -
  have a: "Checksum a = digest content" "p_body (last (u_puts s)) = content"
    using assms(1,2) by (cases rule: upload_cases; auto simp: uploaded_def)+
  then show ?thesis
    using assms(3) by (auto simp: restore_def digest_sha256 split: option.splits if_splits)
qed

theorem restore_after_upload_witness:
  "restore (\<lambda>_. Some [1, 2]) (uploaded ex_upload (object_key ex_held ''output'' (ex_id 7) ''a.txt'') (digest [1, 2]) ''output'')
     = Inr [1, 2]"
  using restore_after_upload [OF ex_upload_runs, of "\<lambda>_. Some [1, 2]"] by (simp add: ex_upload_def)

end
