(* ===== verification/Worker.thy ===== *)
theory Worker
  imports Artifacts
begin

text \<open>
  The worker process (\<open>worker/python/rungrid_worker/main.py\<close>): one attempt (\<open>execute\<close>, with its
  heartbeat thread \<open>renew\<close> and its log reader \<open>read_logs\<close>) and the lease loop (\<open>run\<close>).

  The thread that runs an attempt is a function of everything it can observe. Its trace lists
  what it did so far, and every observation of the outside (the clock, the shared \<open>lost\<close> flag and
  \<open>deadline\<close> cell that the heartbeat thread writes, the child process, files, network and object
  store) is an arbitrary function of that trace in the record \<open>world\<close>. Every interleaving with the
  other threads is one such function, so a statement about all worlds covers them all.

  \<open>None\<close> is not returning; a \<open>flow\<close> is a value, an early \<open>return\<close> or a raised exception.
\<close>

section \<open>Effects\<close>

datatype exn = X_Rpc status | X_Transfer transfer_error | X_Os | X_Type

datatype 'a flow = Go 'a | Return | Raise exn

datatype ev = E_Call rpc_method wire real bool
  | E_Upload artifact | E_UploadFailed string
  | E_Restored bytes | E_Spawn "string list" "string \<rightharpoonup> string"
  | E_Sleep | E_Kill | E_KillGroup | E_Join | E_Close | E_Log string | E_Done

type_synonym 'a act = "ev list \<Rightarrow> ('a flow \<times> ev list) option"

definition retA :: "'a \<Rightarrow> 'a act" where
  "retA x tr = Some (Go x, tr)"

definition bindA :: "'a act \<Rightarrow> ('a \<Rightarrow> 'b act) \<Rightarrow> 'b act" where
  "bindA m f tr = Option.bind (m tr) (\<lambda>(r, tr').
     case r of Go x \<Rightarrow> f x tr' | Return \<Rightarrow> Some (Return, tr') | Raise e \<Rightarrow> Some (Raise e, tr'))"

definition emit :: "ev \<Rightarrow> unit act" where
  "emit e tr = Some (Go (), tr @ [e])"

definition raiseA :: "exn \<Rightarrow> 'a act" where
  "raiseA e tr = Some (Raise e, tr)"

definition returnA :: "'a act" where
  "returnA tr = Some (Return, tr)"

text \<open>What the thread finds when it looks at the world at this point of its trace.\<close>

definition observe :: "(ev list \<Rightarrow> 'a act) \<Rightarrow> 'a act" where
  "observe f tr = f tr tr"

fun mapA :: "('a \<Rightarrow> 'b act) \<Rightarrow> 'a list \<Rightarrow> 'b list act" where
  "mapA f [] = retA []"
| "mapA f (x # xs) = bindA (f x) (\<lambda>y. bindA (mapA f xs) (\<lambda>ys. retA (y # ys)))"

fun forA :: "('a \<Rightarrow> unit act) \<Rightarrow> 'a list \<Rightarrow> unit act" where
  "forA f [] = retA ()"
| "forA f (x # xs) = bindA (f x) (\<lambda>_. forA f xs)"

section \<open>The world of an attempt\<close>

record world =
  w_lease :: held
  w_client :: client
  w_environ :: "string \<rightharpoonup> string"
  w_dir :: string
  w_lost :: "ev list \<Rightarrow> bool"
  w_deadline :: "ev list \<Rightarrow> real"
  w_now :: "ev list \<Rightarrow> real"
  w_uuid :: "ev list \<Rightarrow> string"
  w_net :: "ev list \<Rightarrow> rpc_method \<Rightarrow> transport"
  w_wake :: "ev list \<Rightarrow> sleeper"
  w_up :: "ev list \<Rightarrow> upload_env"
  w_file :: "ev list \<Rightarrow> string \<Rightarrow> bytes option"
  w_download :: "ev list \<Rightarrow> string \<Rightarrow> bytes option"
  w_popen :: "ev list \<Rightarrow> bool"
  w_poll :: "ev list \<Rightarrow> int option"
  w_lines :: "ev list \<Rightarrow> string list"
  w_checkpoints :: "ev list \<Rightarrow> string list"
  w_outputs :: "ev list \<Rightarrow> (string \<times> bool \<times> bool) list"
  w_reader_alive :: "ev list \<Rightarrow> bool"
  w_message :: "exn \<Rightarrow> pystr"

definition alive :: "world \<Rightarrow> ev list \<Rightarrow> bool" where
  "alive w tr \<longleftrightarrow> \<not> w_lost w tr \<and> w_now w tr < w_deadline w tr"

definition do_call :: "world \<Rightarrow> rpc_method \<Rightarrow> real \<Rightarrow> string option \<Rightarrow> field list \<Rightarrow> unit act" where
  "do_call w m timeout rid payload tr =
    (let q = make_request (w_client w) (w_uuid w tr) (Some (w_lease w)) 0 rid payload in
     case call (w_net w tr m) (w_wake w tr) q timeout (w_now w tr) of
       None \<Rightarrow> None
     | Some (Inl s, _) \<Rightarrow> Some (Raise (X_Rpc s), tr @ [E_Call m q timeout False])
     | Some (Inr _, _) \<Rightarrow> Some (Go (), tr @ [E_Call m q timeout True]))"

definition do_upload :: "world \<Rightarrow> string \<Rightarrow> string \<Rightarrow> artifact act" where
  "do_upload w kind path tr =
    (case w_file w tr path of
       None \<Rightarrow> Some (Raise X_Os, tr @ [E_UploadFailed path])
     | Some content \<Rightarrow>
        (case upload (w_up w tr) (basename path) content (w_lease w) kind no_puts of
           (Inr (Some a), _) \<Rightarrow> Some (Go a, tr @ [E_Upload a])
         | (Inr None, _) \<Rightarrow> Some (Raise X_Os, tr @ [E_UploadFailed path])
         | (Inl e, _) \<Rightarrow> Some (Raise (X_Transfer e), tr @ [E_UploadFailed path])))"

section \<open>The environment of the command\<close>

definition make_env :: "world \<Rightarrow> string \<rightharpoonup> string" where
  "make_env w =
    (let l = h_lease (w_lease w);
         env = w_environ w ++ map_of (env_of (j_def (l_job l)));
         env = env(''RUNGRID_JOB_ID'' \<mapsto> j_id (l_job l), ''RUNGRID_ATTEMPT_ID'' \<mapsto> l_attempt l,
                   ''RUNGRID_ATTEMPT_NUMBER'' \<mapsto> str_int (l_number l),
                   ''RUNGRID_OUTPUT_DIR'' \<mapsto> w_dir w @ ''/outputs'',
                   ''RUNGRID_CHECKPOINT_DIR'' \<mapsto> w_dir w @ ''/checkpoints'', ''PYTHONUNBUFFERED'' \<mapsto> ''1'');
         env = env(''RUNGRID_CHECKPOINT_PATH'' := None) in
     case l_checkpoint l of None \<Rightarrow> env | Some _ \<Rightarrow> env(''RUNGRID_CHECKPOINT_PATH'' \<mapsto> w_dir w @ ''/resume.json''))"

section \<open>Progress reports\<close>

definition report_artifacts :: "world \<Rightarrow> artifact list \<Rightarrow> unit act" where
  "report_artifacts w entries = forA (\<lambda>batch. do_call w ReportProgress 10 None [F_artifacts batch]) (chunks 100 entries)"

definition progress :: "world \<Rightarrow> string list \<Rightarrow> string list act" where
  "progress w up = observe (\<lambda>tr.
    let batch = take 100 (w_lines w tr);
        paths = filter (\<lambda>p. p \<notin> set up) (w_checkpoints w tr) in
    bindA (mapA (do_upload w ''checkpoint'') paths) (\<lambda>entries.
      if batch = [] \<and> entries = [] then retA up
      else observe (\<lambda>tr.
        bindA (do_call w ReportProgress (max 0.1 (min 10 (w_deadline w tr - w_now w tr))) (Some (w_uuid w tr)) [F_logs batch])
          (\<lambda>_. bindA (forA (\<lambda>line. emit (E_Log line)) batch)
            (\<lambda>_. bindA (report_artifacts w entries) (\<lambda>_. retA (up @ paths)))))))"

section \<open>One attempt\<close>

partial_function (option) poll_loop :: "world \<Rightarrow> string list \<Rightarrow> ev list \<Rightarrow> ((int \<times> string list) flow \<times> ev list) option" where
  "poll_loop w up tr =
    (case w_poll w tr of
       Some rc \<Rightarrow> Some (Go (rc, up), tr)
     | None \<Rightarrow>
         if \<not> alive w tr then Some (Return, tr @ [E_Kill])
         else Option.bind (progress w up tr) (\<lambda>(r, tr').
           case r of
             Go up' \<Rightarrow> poll_loop w up' (tr' @ [E_Sleep])
           | Return \<Rightarrow> Some (Return, tr')
           | Raise e \<Rightarrow> Some (Raise e, tr')))"

definition drain_reader :: "world \<Rightarrow> unit act" where
  "drain_reader w = bindA (emit E_Kill) (\<lambda>_. bindA (emit E_Join) (\<lambda>_. observe (\<lambda>tr.
     if w_reader_alive w tr then bindA (emit E_KillGroup) (\<lambda>_. emit E_Join) else retA ())))"

definition output_files :: "world \<Rightarrow> ev list \<Rightarrow> string list" where
  "output_files w tr = map fst (filter (\<lambda>(p, is_file, is_symlink). is_file \<and> \<not> is_symlink) (w_outputs w tr))"

definition final_method :: "int \<Rightarrow> rpc_method" where
  "final_method rc = (if rc = 0 then CompleteAttempt else FailAttempt)"

definition report_final :: "world \<Rightarrow> int \<Rightarrow> unit act" where
  "report_final w rc = observe (\<lambda>tr.
    bindA (do_call w (final_method rc) 10 (Some (w_uuid w tr))
        [F_exit_code rc, F_reason (if rc = 0 then '''' else ''command exited nonzero'')])
      (\<lambda>_. emit (E_Log (method_name (final_method rc)))))"

definition finish :: "world \<Rightarrow> int \<Rightarrow> string list \<Rightarrow> unit act" where
  "finish w rc up =
    bindA (drain_reader w) (\<lambda>_. observe (\<lambda>tr.
      if \<not> alive w tr then returnA
      else bindA (progress w up) (\<lambda>_. bindA (do_upload w ''log'' (w_dir w @ ''/execution.log'')) (\<lambda>log. observe (\<lambda>tr.
        bindA (mapA (do_upload w ''output'') (output_files w tr)) (\<lambda>outs.
          bindA (report_artifacts w (log # outs)) (\<lambda>_. report_final w rc)))))))"

text \<open>\<open>os.environ | definition.get("environment", {})\<close> raises when the definition holds \<open>null\<close>, which is how the server
  spells a nil map; then the checkpoint is restored.\<close>

definition prepare_env :: "world \<Rightarrow> unit act" where
  "prepare_env w = (if Environment (j_def (l_job (h_lease (w_lease w)))) = None then raiseA X_Type else case l_checkpoint (h_lease (w_lease w)) of
     None \<Rightarrow> retA ()
   | Some c \<Rightarrow> observe (\<lambda>tr. case restore (w_download w tr) c of
        Inl e \<Rightarrow> raiseA (X_Transfer e)
      | Inr b \<Rightarrow> emit (E_Restored b)))"

definition spawn :: "world \<Rightarrow> unit act" where
  "spawn w = observe (\<lambda>tr. if w_popen w tr
     then emit (E_Spawn (Command (j_def (l_job (h_lease (w_lease w))))) (make_env w)) else raiseA X_Os)"

definition body :: "world \<Rightarrow> unit act" where
  "body w = observe (\<lambda>tr.
    if \<not> alive w tr then returnA
    else bindA (do_call w StartAttempt (max 0.1 (w_deadline w tr - w_now w tr)) None [])
      (\<lambda>_. bindA (prepare_env w) (\<lambda>_. observe (\<lambda>tr.
        if \<not> alive w tr then returnA
        else bindA (spawn w) (\<lambda>_. bindA (poll_loop w []) (\<lambda>(rc, up). finish w rc up))))))"

definition on_exception :: "world \<Rightarrow> exn \<Rightarrow> unit act" where
  "on_exception w e =
    bindA (emit (E_Log ''attempt error'')) (\<lambda>_. observe (\<lambda>tr.
      if \<not> alive w tr then retA ()
      else do_call w FailAttempt 10 None [F_exit_code (- 1), F_reason (utf8 (take 8192 (w_message w e)))]))"

fun spawned :: "ev list \<Rightarrow> bool" where
  "spawned tr = list_ex (\<lambda>e. case e of E_Spawn _ _ \<Rightarrow> True | _ \<Rightarrow> False) tr"

definition cleanup :: "ev list \<Rightarrow> ev list" where
  "cleanup tr = (if spawned tr then tr @ [E_Kill, E_Close] else tr) @ [E_Done]"

definition execute :: "world \<Rightarrow> ev list option" where
  "execute w = Option.bind (body w []) (\<lambda>(r, tr).
     case r of
       Raise e \<Rightarrow> map_option (\<lambda>(_, tr'). cleanup tr') (on_exception w e tr)
     | _ \<Rightarrow> Some (cleanup tr))"

section \<open>The heartbeat thread\<close>

text \<open>One input per round of \<open>renew\<close>: whether \<open>done.wait(0.5)\<close> saw the flag, the clock at the check and at
  the call, the network of the call and whether the command is running.\<close>

record hb_round =
  i_done :: bool
  i_now :: real
  i_call :: real
  i_uuid :: string
  i_net :: transport
  i_wake :: sleeper
  i_process :: bool

record hb =
  hb_lost :: bool
  hb_deadline :: real

datatype hb_ev = H_Call real | H_Kill

datatype hb_end = H_Waiting | H_Stopped | H_Died

definition hb_alive :: "hb \<Rightarrow> real \<Rightarrow> bool" where
  "hb_alive s now \<longleftrightarrow> \<not> hb_lost s \<and> now < hb_deadline s"

definition hb_call :: "client \<Rightarrow> held \<Rightarrow> hb_round \<Rightarrow> real \<Rightarrow> (status + (response \<times> real option)) option" where
  "hb_call c l i timeout = map_option fst
     (call (i_net i) (i_wake i) (make_request c (i_uuid i) (Some l) 0 None []) timeout (i_call i))"

fun renew :: "client \<Rightarrow> held \<Rightarrow> hb_round list \<Rightarrow> hb \<Rightarrow> (hb_end \<times> hb_ev list \<times> hb) option" where
  "renew c l [] s = Some (H_Waiting, [], s)"
| "renew c l (i # is) s =
    (if i_done i then Some (H_Stopped, [], s)
     else if \<not> hb_alive s (i_now i) then Some (H_Stopped, if i_process i then [H_Kill] else [], s\<lparr>hb_lost := True\<rparr>)
     else
       let timeout = min 2 (max 0.1 (hb_deadline s - i_call i)); more = map_option (\<lambda>(e, evs, t). (e, H_Call timeout # evs, t)) in
       (case hb_call c l i timeout of
          None \<Rightarrow> None
        | Some (Inr (_, Some dl)) \<Rightarrow> more (renew c l is (s\<lparr>hb_deadline := dl\<rparr>))
        | Some (Inr (_, None)) \<Rightarrow> Some (H_Died, [H_Call timeout], s)
        | Some (Inl st) \<Rightarrow>
            more (renew c l is (if st = FAILED_PRECONDITION \<or> st = NOT_FOUND then s\<lparr>hb_lost := True\<rparr> else s))))"

section \<open>The log reader\<close>

text \<open>\<open>readline(4096)\<close> until the end of the stream: up to and including a newline, at most 4096 bytes.\<close>

fun line_length :: "nat \<Rightarrow> bytes \<Rightarrow> nat" where
  "line_length 0 bs = 0"
| "line_length (Suc n) [] = 0"
| "line_length (Suc n) (b # bs) = (if b = 10 then 1 else Suc (line_length n bs))"

lemma line_length_bounds:
  "line_length n bs \<le> n" "line_length n bs \<le> length bs" "0 < n \<Longrightarrow> bs \<noteq> [] \<Longrightarrow> 0 < line_length n bs"
  by (induction n bs rule: line_length.induct) auto

function read_lines :: "bytes \<Rightarrow> bytes list" where
  "read_lines bs = (if bs = [] then [] else take (line_length 4096 bs) bs # read_lines (drop (line_length 4096 bs) bs))"
  by auto
termination
  by (relation "measure length") (auto simp: line_length_bounds(3))

declare read_lines.simps [simp del]

text \<open>\<open>bytes.decode(errors="replace")\<close>: how many continuation bytes a lead byte asks for and the range
  of the first; a broken sequence becomes one U+FFFD for its longest valid start.\<close>

definition lead :: "nat \<Rightarrow> (nat \<times> nat \<times> nat) option" where
  "lead b = (if 0xC2 \<le> b \<and> b \<le> 0xDF then Some (1, 0x80, 0xBF)
     else if b = 0xE0 then Some (2, 0xA0, 0xBF) else if b = 0xED then Some (2, 0x80, 0x9F)
     else if 0xE1 \<le> b \<and> b \<le> 0xEF then Some (2, 0x80, 0xBF)
     else if b = 0xF0 then Some (3, 0x90, 0xBF) else if b = 0xF4 then Some (3, 0x80, 0x8F)
     else if 0xF1 \<le> b \<and> b \<le> 0xF3 then Some (3, 0x80, 0xBF) else None)"

fun continuation :: "nat \<Rightarrow> nat \<Rightarrow> nat \<Rightarrow> nat list \<Rightarrow> nat list" where
  "continuation 0 lo hi bs = []"
| "continuation (Suc n) lo hi [] = []"
| "continuation (Suc n) lo hi (b # bs) = (if lo \<le> b \<and> b \<le> hi then b # continuation n 0x80 0xBF bs else [])"

definition decode1 :: "nat \<Rightarrow> nat list \<Rightarrow> nat \<times> nat" where
  "decode1 b bs =
    (if b < 0x80 then (b, 1)
     else (case lead b of None \<Rightarrow> (0xFFFD, 1)
       | Some (n, lo, hi) \<Rightarrow>
           let cs = continuation n lo hi bs in
           if length cs = n then (foldl (\<lambda>c x. c * 64 + x mod 64) (b mod (if n = 1 then 32 else if n = 2 then 16 else 8)) cs, Suc n)
           else (0xFFFD, Suc (length cs))))"

lemma decode1_consumes: "0 < snd (decode1 b bs)"
  by (auto simp: decode1_def Let_def split: option.splits)

function decode_replace :: "nat list \<Rightarrow> pystr" where
  "decode_replace [] = []"
| "decode_replace (b # bs) = fst (decode1 b bs) # decode_replace (drop (snd (decode1 b bs)) (b # bs))"
  by pat_completeness auto
termination
proof (relation "measure length")
  show "(drop (snd (decode1 b bs)) (b # bs), b # bs) \<in> measure length" for b bs
    using decode1_consumes [of b bs] by simp
qed simp

definition py_space :: "nat \<Rightarrow> bool" where
  "py_space c \<longleftrightarrow> (9 \<le> c \<and> c \<le> 13) \<or> (28 \<le> c \<and> c \<le> 32) \<or> c \<in> {0x85, 0xA0, 0x1680, 0x2028, 0x2029, 0x202F, 0x205F, 0x3000}
     \<or> (0x2000 \<le> c \<and> c \<le> 0x200A)"

definition log_line :: "bytes \<Rightarrow> string" where
  "log_line chunk = utf8 (rev (dropWhile py_space (rev (decode_replace (map unat chunk)))))"

record log_state =
  lg_file :: bytes
  lg_queue :: "string list"

datatype log_step = L_Chunk bytes | L_Take nat

fun read_logs :: "log_step \<Rightarrow> log_state \<Rightarrow> log_state" where
  "read_logs (L_Chunk chunk) s = s\<lparr>lg_file := lg_file s @ chunk,
     lg_queue := (if length (lg_queue s) < 1000 then lg_queue s @ [log_line chunk] else lg_queue s)\<rparr>"
| "read_logs (L_Take n) s = s\<lparr>lg_queue := drop n (lg_queue s)\<rparr>"

section \<open>The lease loop\<close>

text \<open>The main thread of a worker, with the same convention: \<open>r_done tr f\<close> says whether the future
  submitted at position \<open>f\<close> of the trace is done, and \<open>r_stopping\<close> is the stop event. The model ends
  with the \<open>ReleaseWorker\<close> call; leaving the pool then waits for the attempts, which end by themselves.
  \<open>future.result()\<close> has no effect since \<open>execute\<close> never raises.\<close>

datatype rev_ev = V_Call rpc_method wire real bool | V_Submit held | V_Wait real | V_Log string

record run_world =
  r_client :: client
  r_resources :: resources
  r_hostname :: string
  r_stopping :: "rev_ev list \<Rightarrow> bool"
  r_done :: "rev_ev list \<Rightarrow> nat \<Rightarrow> bool"
  r_now :: "rev_ev list \<Rightarrow> real"
  r_uuid :: "rev_ev list \<Rightarrow> string"
  r_net :: "rev_ev list \<Rightarrow> rpc_method \<Rightarrow> transport"
  r_wake :: "rev_ev list \<Rightarrow> sleeper"

definition run_call :: "run_world \<Rightarrow> rpc_method \<Rightarrow> real \<Rightarrow> int \<Rightarrow> field list \<Rightarrow> rev_ev list
    \<Rightarrow> ((status + (response \<times> real option)) \<times> rev_ev list) option" where
  "run_call w m timeout wait_seconds payload tr =
    (let q = make_request (r_client w) (r_uuid w tr) None wait_seconds None payload in
     map_option (\<lambda>(v, _). (v, tr @ [V_Call m q timeout (\<not> isl v)])) (call (r_net w tr m) (r_wake w tr) q timeout (r_now w tr)))"

text \<open>The \<open>except grpc.RpcError\<close> branch of a round.\<close>

definition unavailable :: "nat list \<Rightarrow> real \<Rightarrow> rev_ev list \<Rightarrow> nat list \<times> real \<times> rev_ev list" where
  "unavailable futures last_heartbeat tr = (futures, last_heartbeat, tr @ [V_Log ''control plane unavailable'', V_Wait 1])"

definition lease_round :: "run_world \<Rightarrow> nat list \<Rightarrow> real \<Rightarrow> rev_ev list \<Rightarrow> (nat list \<times> real \<times> rev_ev list) option" where
  "lease_round w futures last_heartbeat tr =
    (if int (length futures) \<ge> CPU (r_resources w) then Some (futures, last_heartbeat, tr @ [V_Wait 0.1])
     else map_option (\<lambda>(v, tr). case v of
         Inl _ \<Rightarrow> unavailable futures last_heartbeat tr
       | Inr (R_Lease l, Some dl) \<Rightarrow> (futures @ [length tr], last_heartbeat, tr @ [V_Submit \<lparr>h_lease = l, h_deadline = dl\<rparr>])
       | Inr _ \<Rightarrow> (futures, last_heartbeat, tr @ [V_Wait 0.2]))
       (run_call w LeaseJob 5 2 [] tr))"

definition run_round :: "run_world \<Rightarrow> nat list \<Rightarrow> real \<Rightarrow> rev_ev list \<Rightarrow> (nat list \<times> real \<times> rev_ev list) option" where
  "run_round w futures last_heartbeat tr =
    (let futures = filter (\<lambda>f. \<not> r_done w tr f) futures in
     if r_now w tr - last_heartbeat > 3
     then Option.bind (run_call w Heartbeat 3 0 [] tr) (\<lambda>(v, tr). case v of
            Inl _ \<Rightarrow> Some (unavailable futures last_heartbeat tr)
          | Inr _ \<Rightarrow> lease_round w futures (r_now w tr) tr)
     else lease_round w futures last_heartbeat tr)"

partial_function (option) run_loop :: "run_world \<Rightarrow> nat list \<Rightarrow> real \<Rightarrow> rev_ev list \<Rightarrow> (nat list \<times> rev_ev list) option" where
  "run_loop w futures last_heartbeat tr =
    (if r_stopping w tr then Some (futures, tr)
     else Option.bind (run_round w futures last_heartbeat tr)
            (\<lambda>(futures, last_heartbeat, tr). run_loop w futures last_heartbeat tr))"

definition run :: "run_world \<Rightarrow> ((status + unit) \<times> rev_ev list) option" where
  "run w = Option.bind (run_call w RegisterWorker 60 0 [F_hostname (r_hostname w), F_resources (r_resources w)] []) (\<lambda>(v, tr).
     case v of Inl s \<Rightarrow> Some (Inl s, tr)
     | Inr _ \<Rightarrow> Option.bind (run_loop w [] 0 (tr @ [V_Log ''registered''])) (\<lambda>(futures, tr).
         map_option (\<lambda>(v, tr). (map_sum id (\<lambda>_. ()) v, tr)) (run_call w ReleaseWorker 5 0 [] tr)))"

end
