(* ===== verification/Worker_Props.thy ===== *)
theory Worker_Props
  imports Worker
begin

text \<open>
  What an attempt guarantees, whatever its world does. Three kinds of facts about an action are
  used, each with one rule per construct of the language of effects: \<open>adds P\<close> (it only appends
  events that satisfy \<open>P\<close>), \<open>returns\<close> (it always comes back) and \<open>triple\<close> (a partial correctness
  triple with a postcondition for normal results and one for returns and exceptions).
\<close>

section \<open>Rules for the language of effects\<close>

named_theorems act_simps
named_theorems adds_rules
named_theorems returns_rules

lemma bindA_Some [act_simps]:
  "bindA m f tr = Some (r, tr') \<longleftrightarrow>
     (\<exists>x t. m tr = Some (Go x, t) \<and> f x t = Some (r, tr')) \<or> (m tr = Some (Return, tr') \<and> r = Return)
     \<or> (\<exists>e. m tr = Some (Raise e, tr') \<and> r = Raise e)"
proof (cases "m tr")
  case (Some p)
  then show ?thesis by (cases p; cases "fst p") (auto simp: bindA_def)
qed (simp add: bindA_def)

lemma basic_Some [act_simps]:
  "retA x tr = Some (r, tr') \<longleftrightarrow> r = Go x \<and> tr' = tr" "emit e tr = Some (s, tr') \<longleftrightarrow> s = Go () \<and> tr' = tr @ [e]"
  "raiseA ex tr = Some (r, tr') \<longleftrightarrow> r = Raise ex \<and> tr' = tr" "returnA tr = Some (r, tr') \<longleftrightarrow> r = Return \<and> tr' = tr"
  by (auto simp: retA_def emit_def raiseA_def returnA_def)

definition adds :: "(ev \<Rightarrow> bool) \<Rightarrow> 'a act \<Rightarrow> bool" where
  "adds P m \<longleftrightarrow> (\<forall>tr r tr'. m tr = Some (r, tr') \<longrightarrow> (\<exists>es. tr' = tr @ es \<and> list_all P es))"

lemma addsD: "adds P m \<Longrightarrow> m tr = Some (r, tr') \<Longrightarrow> \<exists>es. tr' = tr @ es \<and> list_all P es"
  by (simp add: adds_def)

lemma adds_basic [adds_rules]: "adds P (retA x)" "P e \<Longrightarrow> adds P (emit e)" "adds P (raiseA ex)" "adds P returnA"
  by (auto simp: adds_def act_simps)

lemma adds_bind [adds_rules]: "adds P m \<Longrightarrow> (\<And>x. adds P (f x)) \<Longrightarrow> adds P (bindA m f)"
  unfolding adds_def act_simps by (fastforce simp: list_all_append)

lemma adds_observe [adds_rules]: "(\<And>t. adds P (f t)) \<Longrightarrow> adds P (observe f)"
  unfolding adds_def observe_def by blast

lemma adds_mapA [adds_rules]: "(\<And>x. adds P (f x)) \<Longrightarrow> adds P (mapA f xs)"
  by (induction xs) (auto intro!: adds_rules)

lemma adds_forA [adds_rules]: "(\<And>x. x \<in> set xs \<Longrightarrow> adds P (f x)) \<Longrightarrow> adds P (forA f xs)"
  by (induction xs) (auto intro!: adds_rules)

definition returns :: "'a act \<Rightarrow> bool" where
  "returns m \<longleftrightarrow> (\<forall>tr. m tr \<noteq> None)"

lemma returnsD: "returns m \<Longrightarrow> \<exists>r tr'. m tr = Some (r, tr')"
  by (auto simp: returns_def)

lemma returns_basic [returns_rules]: "returns (retA x)" "returns (emit e)" "returns (raiseA ex)" "returns returnA"
  by (simp_all add: returns_def retA_def emit_def raiseA_def returnA_def)

lemma returns_bind [returns_rules]: "returns m \<Longrightarrow> (\<And>x. returns (f x)) \<Longrightarrow> returns (bindA m f)"
proof (unfold returns_def, intro allI)
  fix tr assume m: "\<forall>tr. m tr \<noteq> None" and f: "\<And>x. \<forall>tr. f x tr \<noteq> None"
  then obtain r t where "m tr = Some (r, t)" by (metis option.exhaust surj_pair)
  with f show "bindA m f tr \<noteq> None" by (cases r) (auto simp: bindA_def)
qed

lemma returns_observe [returns_rules]: "(\<And>t. returns (f t)) \<Longrightarrow> returns (observe f)"
  unfolding returns_def observe_def by blast

lemma returns_mapA [returns_rules]: "(\<And>x. returns (f x)) \<Longrightarrow> returns (mapA f xs)"
  by (induction xs) (auto intro!: returns_rules)

lemma returns_forA [returns_rules]: "(\<And>x. returns (f x)) \<Longrightarrow> returns (forA f xs)"
  by (induction xs) (auto intro!: returns_rules)

definition triple :: "(ev list \<Rightarrow> bool) \<Rightarrow> 'a act \<Rightarrow> ('a \<Rightarrow> ev list \<Rightarrow> bool) \<Rightarrow> (ev list \<Rightarrow> bool) \<Rightarrow> bool" where
  "triple P m Q E \<longleftrightarrow> (\<forall>tr r tr'. P tr \<and> m tr = Some (r, tr') \<longrightarrow> (case r of Go x \<Rightarrow> Q x tr' | _ \<Rightarrow> E tr'))"

lemma tripleI: "(\<And>tr r tr'. P tr \<Longrightarrow> m tr = Some (r, tr') \<Longrightarrow> case r of Go x \<Rightarrow> Q x tr' | _ \<Rightarrow> E tr') \<Longrightarrow> triple P m Q E"
  unfolding triple_def by blast

lemma tripleD: "triple P m Q E \<Longrightarrow> P tr \<Longrightarrow> m tr = Some (r, tr') \<Longrightarrow> case r of Go x \<Rightarrow> Q x tr' | _ \<Rightarrow> E tr'"
  by (simp add: triple_def)

lemma triple_bind: "triple P m R E \<Longrightarrow> (\<And>x. triple (R x) (f x) Q E) \<Longrightarrow> triple P (bindA m f) Q E"
  unfolding triple_def act_simps by (fastforce split: flow.splits)

lemma triple_conseq:
  "triple P m Q E \<Longrightarrow> (\<And>tr. P' tr \<Longrightarrow> P tr) \<Longrightarrow> (\<And>x tr. Q x tr \<Longrightarrow> Q' x tr) \<Longrightarrow> (\<And>tr. E tr \<Longrightarrow> E' tr) \<Longrightarrow> triple P' m Q' E'"
  unfolding triple_def by (fastforce split: flow.splits)

lemma triple_ret: "(\<And>tr. P tr \<Longrightarrow> Q x tr) \<Longrightarrow> triple P (retA x) Q E"
  by (auto simp: triple_def act_simps)

lemma triple_emit: "(\<And>tr. P tr \<Longrightarrow> Q () (tr @ [e])) \<Longrightarrow> triple P (emit e) Q E"
  by (auto simp: triple_def act_simps)

lemma triple_observe: "(\<And>t. P t \<Longrightarrow> triple (\<lambda>tr. tr = t) (f t) Q E) \<Longrightarrow> triple P (observe f) Q E"
  unfolding triple_def observe_def by blast

lemma triple_observe_any: "(\<And>t. triple P (f t) Q E) \<Longrightarrow> triple P (observe f) Q E"
  unfolding triple_def observe_def by blast

text \<open>A fact that every extension of a trace keeps survives every action that only appends.\<close>

lemma triple_stable:
  assumes "triple P m Q E" "adds (\<lambda>_. True) m" "\<And>tr es. S tr \<Longrightarrow> S (tr @ es)"
  shows "triple (\<lambda>tr. P tr \<and> S tr) m (\<lambda>x tr. Q x tr \<and> S tr) (\<lambda>tr. E tr \<and> S tr)"
proof (rule tripleI)
  fix tr r tr' assume pre: "P tr \<and> S tr" and run: "m tr = Some (r, tr')"
  from addsD [OF assms(2) run] obtain es where "tr' = tr @ es" by blast
  with assms(3) pre have "S tr'" by blast
  with tripleD [OF assms(1) _ run] pre show "case r of Go x \<Rightarrow> Q x tr' \<and> S tr' | _ \<Rightarrow> E tr' \<and> S tr'"
    by (cases r) auto
qed

section \<open>What each action adds\<close>

lemma adds_do_call:
  assumes "\<And>q ok. q_payload q = payload \<Longrightarrow> q_attempt_id q = l_attempt (h_lease (w_lease w)) \<Longrightarrow> P (E_Call m q timeout ok)"
  shows "adds P (do_call w m timeout rid payload)"
  unfolding adds_def do_call_def Let_def
  using assms by (auto simp: make_request_def split: option.splits sum.splits)

lemma adds_do_upload:
  assumes "\<And>v content. P (E_Upload (uploaded v (object_key (w_lease w) kind (u_uuid v) (basename path)) (digest content) kind))"
    and "P (E_UploadFailed path)"
  shows "adds P (do_upload w kind path)"
proof (unfold adds_def, intro allI impI)
  fix tr r tr' assume run: "do_upload w kind path tr = Some (r, tr')"
  show "\<exists>es. tr' = tr @ es \<and> list_all P es"
  proof (cases "w_file w tr path")
    case None
    with run assms show ?thesis by (auto simp: do_upload_def)
  next
    case (Some content)
    obtain x s where up: "upload (w_up w tr) (basename path) content (w_lease w) kind no_puts = (x, s)" by fastforce
    with run Some assms show ?thesis by (cases rule: upload_cases [OF up]) (auto simp: do_upload_def up)
  qed
qed

lemma adds_report_artifacts:
  assumes "\<And>q batch ok. q_payload q = [F_artifacts batch] \<Longrightarrow> length batch \<le> 100 \<Longrightarrow> set batch \<subseteq> set entries
      \<Longrightarrow> q_attempt_id q = l_attempt (h_lease (w_lease w)) \<Longrightarrow> P (E_Call ReportProgress q 10 ok)"
  shows "adds P (report_artifacts w entries)"
  unfolding report_artifacts_def
  by (rule adds_forA, rule adds_do_call, rule assms) (auto dest: chunks_length chunks_subset)

text \<open>The requests an attempt can send, apart from the failure report of an exception.\<close>

definition usual_request :: "world \<Rightarrow> rpc_method \<Rightarrow> wire \<Rightarrow> bool" where
  "usual_request w m q \<longleftrightarrow> q_attempt_id q = l_attempt (h_lease (w_lease w)) \<and>
    ((m = StartAttempt \<and> q_payload q = [])
     \<or> (m = ReportProgress \<and> (\<exists>tr. q_payload q = [F_logs (take 100 (w_lines w tr))]))
     \<or> (m = ReportProgress \<and> (\<exists>batch. length batch \<le> 100 \<and> q_payload q = [F_artifacts batch]))
     \<or> (\<exists>rc. m = final_method rc \<and> q_payload q = [F_exit_code rc, F_reason (if rc = 0 then '''' else ''command exited nonzero'')]))"

definition not_call :: "ev \<Rightarrow> bool" where
  "not_call e \<longleftrightarrow> (case e of E_Call _ _ _ _ \<Rightarrow> False | _ \<Rightarrow> True)"

definition covers :: "world \<Rightarrow> (ev \<Rightarrow> bool) \<Rightarrow> bool" where
  "covers w P \<longleftrightarrow> (\<forall>m q to ok. usual_request w m q \<longrightarrow> P (E_Call m q to ok)) \<and> (\<forall>e. not_call e \<longrightarrow> P e)"

lemma covers_events:
  assumes "covers w P"
  shows "P (E_Upload a)" "P (E_UploadFailed p)" "P (E_Restored b)" "P (E_Spawn c v)" "P E_Sleep" "P E_Kill"
    "P E_KillGroup" "P E_Join" "P (E_Log s)"
  using assms by (simp_all add: covers_def not_call_def)

lemma covers_calls:
  assumes "covers w P"
  shows "adds P (do_call w StartAttempt timeout rid [])"
    and "adds P (do_call w ReportProgress timeout rid [F_logs (take 100 (w_lines w t))])"
    and "adds P (report_artifacts w entries)" and "adds P (report_final w rc)" and "adds P (do_upload w kind path)"
proof -
  have call: "P (E_Call m q to ok)" if "usual_request w m q" for m q to ok using assms that by (simp add: covers_def)
  show "adds P (do_call w StartAttempt timeout rid [])" by (rule adds_do_call, rule call) (simp add: usual_request_def)
  show "adds P (do_call w ReportProgress timeout rid [F_logs (take 100 (w_lines w t))])"
    by (rule adds_do_call, rule call) (auto simp: usual_request_def)
  show "adds P (report_artifacts w entries)" by (rule adds_report_artifacts, rule call) (auto simp: usual_request_def)
  have "adds P (do_call w (final_method rc) timeout rid
      [F_exit_code rc, F_reason (if rc = 0 then '''' else ''command exited nonzero'')])" for timeout rid
    by (rule adds_do_call, rule call) (auto simp: usual_request_def)
  with covers_events [OF assms] show "adds P (report_final w rc)" unfolding report_final_def by (intro adds_rules)
  show "adds P (do_upload w kind path)" by (rule adds_do_upload) (simp_all add: covers_events [OF assms])
qed

lemma adds_if: "(c \<Longrightarrow> adds P m) \<Longrightarrow> (\<not> c \<Longrightarrow> adds P n) \<Longrightarrow> adds P (if c then m else n)"
  by simp

lemma adds_progress:
  assumes cov: "covers w P"
  shows "adds P (progress w up)"
  unfolding progress_def Let_def by (intro adds_rules adds_if covers_calls [OF cov] covers_events [OF cov])

lemma adds_poll_loop:
  assumes cov: "covers w P"
  shows "adds P (poll_loop w up)"
proof (unfold adds_def, intro allI impI)
  fix tr r tr' assume run: "poll_loop w up tr = Some (r, tr')"
  have "\<exists>es. snd y = tr @ es \<and> list_all P es" if "poll_loop w up tr = Some y" "covers w P" for y
    using that(2)
  proof (induction rule: poll_loop.raw_induct [OF _ that(1)])
    case (1 loop w up tr y)
    show ?case
    proof (cases "w_poll w tr = None \<and> alive w tr")
      case False
      with 1(2) covers_events [OF 1(3)] show ?thesis by (auto split: option.splits)
    next
      case True
      with 1(2) obtain r1 t1 where pr: "progress w up tr = Some (r1, t1)"
        and y: "(case r1 of Go up' \<Rightarrow> loop w up' (t1 @ [E_Sleep]) | Return \<Rightarrow> Some (Return, t1) | Raise e \<Rightarrow> Some (Raise e, t1)) = Some y"
        by (auto simp: bind_eq_Some_conv)
      from addsD [OF adds_progress [OF 1(3)] pr] obtain es where es: "t1 = tr @ es" "list_all P es" by blast
      show ?thesis
      proof (cases r1)
        case (Go up')
        with y have "loop w up' (t1 @ [E_Sleep]) = Some y" by simp
        from 1(1) [OF this 1(3)] obtain es' where "snd y = (t1 @ [E_Sleep]) @ es'" "list_all P es'" by blast
        with es covers_events [OF 1(3)] show ?thesis by auto
      qed (use y es in auto)
    qed
  qed
  from this [OF run cov] show "\<exists>es. tr' = tr @ es \<and> list_all P es" by simp
qed

lemma adds_finish:
  assumes cov: "covers w P"
  shows "adds P (finish w rc up)"
  unfolding finish_def drain_reader_def
  by (intro adds_rules adds_if covers_calls [OF cov] covers_events [OF cov] adds_progress [OF cov])

lemma adds_body:
  assumes cov: "covers w P"
  shows "adds P (body w)"
proof -
  have "adds P (prepare_env w)" unfolding prepare_env_def
    using covers_events [OF cov] by (auto intro!: adds_rules split: option.splits sum.splits)
  moreover have "adds P (spawn w)" unfolding spawn_def
    using covers_events [OF cov] by (auto intro!: adds_rules)
  ultimately show ?thesis
    unfolding body_def using adds_poll_loop [OF cov] adds_finish [OF cov] covers_calls(1) [OF cov]
    by (auto intro!: adds_rules split: prod.splits)
qed

end
