(* ===== verification/Attempt.thy ===== *)
theory Attempt
  imports Worker_Props
begin

text \<open>
  Properties of one attempt (\<open>Worker.execute\<close>) and of its helper threads.
\<close>

section \<open>Every event of an attempt\<close>

definition failure_report :: "world \<Rightarrow> wire \<Rightarrow> bool" where
  "failure_report w q \<longleftrightarrow> q_attempt_id q = l_attempt (h_lease (w_lease w))
     \<and> (\<exists>e. q_payload q = [F_exit_code (- 1), F_reason (utf8 (take 8192 (w_message w e)))])"

lemma adds_on_exception:
  assumes cov: "covers w P" and fail: "\<And>q to ok. failure_report w q \<Longrightarrow> P (E_Call FailAttempt q to ok)"
  shows "adds P (on_exception w e)"
proof -
  have "adds P (do_call w FailAttempt 10 None [F_exit_code (- 1), F_reason (utf8 (take 8192 (w_message w e)))])"
    by (rule adds_do_call, rule fail) (auto simp: failure_report_def)
  then show ?thesis unfolding on_exception_def by (intro adds_rules adds_if covers_events [OF cov])
qed

lemma list_all_cleanup:
  "covers w P \<Longrightarrow> list_all P tr \<Longrightarrow> list_all P (cleanup tr)"
  by (simp add: cleanup_def covers_def not_call_def del: spawned.simps)

lemma execute_cases:
  assumes "execute w = Some tr"
  obtains r t where "body w [] = Some (r, t)" "\<And>e. r \<noteq> Raise e" "tr = cleanup t"
  | e t s t' where "body w [] = Some (Raise e, t)" "on_exception w e t = Some (s, t')" "tr = cleanup t'"
proof -
  from assms obtain r t where b: "body w [] = Some (r, t)" by (auto simp: execute_def bind_eq_Some_conv)
  show thesis
  proof (cases "\<exists>e. r = Raise e")
    case True
    then obtain e where r: "r = Raise e" ..
    with assms b obtain s t' where "on_exception w e t = Some (s, t')" "tr = cleanup t'" by (auto simp: execute_def)
    with b r show ?thesis by (intro that(2)) auto
  next
    case False
    with assms b have "tr = cleanup t" by (auto simp: execute_def split: flow.splits)
    with b False show ?thesis by (intro that(1)) auto
  qed
qed

lemma execute_events:
  assumes run: "execute w = Some tr" and cov: "covers w P"
    and fail: "\<And>q to ok. failure_report w q \<Longrightarrow> P (E_Call FailAttempt q to ok)"
  shows "list_all P tr"
  using run
proof (cases rule: execute_cases)
  case (1 r t)
  with addsD [OF adds_body [OF cov] 1(1)] list_all_cleanup [OF cov] show ?thesis by auto
next
  case (2 e t s t')
  have "adds P (on_exception w e)" by (rule adds_on_exception [OF cov]) (rule fail)
  with 2 addsD [OF adds_body [OF cov] 2(1)] addsD [of P _ t s t'] list_all_cleanup [OF cov] show ?thesis by fastforce
qed

section \<open>Requests within the server's limits\<close>

definition limits_ok :: "request \<Rightarrow> bool" where
  "limits_ok r \<longleftrightarrow> length (Logs r) \<le> 100 \<and> length (Artifacts r) \<le> 100 \<and> length (Reason r) \<le> 8192
     \<and> list_all (\<lambda>line. length line \<le> 16384) (Logs r)"

text \<open>The server's size check, read off its rejections.\<close>

lemma report_tx_limits: "\<not> limits_ok r \<Longrightarrow> \<exists>err. report_tx e m r j a d = Inl err"
  by (auto simp: limits_ok_def report_tx_def list_ex_iff list_all_iff)

lemma lead_pos: "lead b = Some (n, lo, hi) \<Longrightarrow> n \<noteq> 0"
  by (auto simp: lead_def split: if_splits)

lemma continuation_length: "length (continuation n lo hi xs) \<le> length xs"
  by (induction n lo hi xs rule: continuation.induct) auto

lemma decode1_cases:
  obtains "b < 0x80" "decode1 b bs = (b, 1)"
  | k where "decode1 b bs = (0xFFFD, Suc k)" "k \<le> length bs"
  | c n where "decode1 b bs = (c, Suc n)" "n \<noteq> 0" "n \<le> length bs"
proof (cases "b < 0x80")
  case True
  then show thesis by (intro that(1)) (simp_all add: decode1_def)
next
  case False
  show thesis
  proof (cases "lead b")
    case None
    with False show thesis by (intro that(2) [of 0]) (simp_all add: decode1_def)
  next
    case (Some t)
    obtain n lo hi where t: "t = (n, lo, hi)" by (cases t)
    let ?cs = "continuation n lo hi bs"
    show thesis
    proof (cases "length ?cs = n")
      case True
      with False Some t show thesis
        by (intro that(3) [of _ n]) (use lead_pos continuation_length [of n lo hi bs] in \<open>auto simp: decode1_def Let_def\<close>)
    next
      case short: False
      with False Some t show thesis
        by (intro that(2) [of "length ?cs"]) (use continuation_length [of n lo hi bs] in \<open>auto simp: decode1_def Let_def\<close>)
    qed
  qed
qed

lemma utf8_char_length: "length (utf8_char c) \<le> 4"
  by (simp add: utf8_char_def)

lemma decode1_length: "length (utf8_char (fst (decode1 b bs))) \<le> 3 * min (snd (decode1 b bs)) (Suc (length bs))"
proof (cases rule: decode1_cases [of b bs])
  case (3 c n)
  then show ?thesis using utf8_char_length [of c] by simp
qed (simp_all add: utf8_char_def)

lemma utf8_append [simp]: "utf8 (s @ t) = utf8 s @ utf8 t"
  by (simp add: utf8_def)

lemma utf8_Cons: "length (utf8 (c # s)) = length (utf8_char c) + length (utf8 s)"
  by (simp add: utf8_def)

lemma decode_replace_length: "length (utf8 (decode_replace bs)) \<le> 3 * length bs"
proof (induction bs rule: decode_replace.induct)
  case (2 b bs)
  let ?k = "snd (decode1 b bs)"
  have "length (utf8 (decode_replace (drop ?k (b # bs)))) \<le> 3 * (Suc (length bs) - ?k)" using 2 by simp
  moreover have "length (utf8_char (fst (decode1 b bs))) \<le> 3 * min ?k (Suc (length bs))" by (rule decode1_length)
  ultimately show ?case by (auto simp: utf8_Cons min_def simp del: drop_Suc_Cons split: if_splits)
qed (simp add: utf8_def)

lemma rstrip_prefix: "\<exists>t. s = rev (dropWhile p (rev s)) @ t"
  by (metis rev_append rev_rev_ident takeWhile_dropWhile_id)

lemma log_line_length: "length (log_line chunk) \<le> 3 * length chunk"
proof -
  obtain t where t: "decode_replace (map unat chunk) = rev (dropWhile py_space (rev (decode_replace (map unat chunk)))) @ t"
    using rstrip_prefix by blast
  have "length (utf8 (decode_replace (map unat chunk))) \<le> 3 * length chunk"
    using decode_replace_length [of "map unat chunk"] by simp
  then show ?thesis by (subst (asm) t) (simp add: log_line_def)
qed

lemma read_lines_chunks: "c \<in> set (read_lines bs) \<Longrightarrow> c \<noteq> [] \<and> length c \<le> 4096"
proof (induction bs rule: read_lines.induct)
  case (1 bs)
  show ?case
  proof (cases "bs = []")
    case False
    with 1 line_length_bounds [of 4096 bs] show ?thesis by (subst (asm) (2) read_lines.simps) (auto simp: min_def)
  qed (use 1 in \<open>simp add: read_lines.simps\<close>)
qed

lemma concat_read_lines: "concat (read_lines bs) = bs"
proof (induction bs rule: read_lines.induct)
  case (1 bs)
  then show ?case by (subst read_lines.simps) simp
qed

text \<open>The lines in the queue are those the reader put there.\<close>

definition lines_read :: "world \<Rightarrow> bool" where
  "lines_read w \<longleftrightarrow> (\<forall>tr. \<forall>x \<in> set (w_lines w tr). \<exists>out. \<exists>c \<in> set (read_lines out). x = log_line c)"

lemma lines_read_length:
  assumes "lines_read w" "x \<in> set (w_lines w tr)"
  shows "length x \<le> 16384"
proof -
  from assms obtain out c where "c \<in> set (read_lines out)" "x = log_line c" unfolding lines_read_def by blast
  with read_lines_chunks [of c out] log_line_length [of c] show ?thesis by simp
qed

lemma decode_payload:
  "q_payload q = [] \<Longrightarrow> limits_ok (decode_request q)"
  "q_payload q = [F_logs ls] \<Longrightarrow> limits_ok (decode_request q) \<longleftrightarrow> length ls \<le> 100 \<and> list_all (\<lambda>x. length x \<le> 16384) ls"
  "q_payload q = [F_artifacts as] \<Longrightarrow> limits_ok (decode_request q) \<longleftrightarrow> length as \<le> 100"
  "q_payload q = [F_exit_code rc, F_reason s] \<Longrightarrow> limits_ok (decode_request q) \<longleftrightarrow> length s \<le> 8192"
  by (simp_all add: decode_request_def limits_ok_def)

lemma usual_request_limits:
  assumes "lines_read w" "usual_request w m q"
  shows "limits_ok (decode_request q)"
  using assms(2) lines_read_length [OF assms(1)] unfolding usual_request_def
  by (auto simp: decode_payload list_all_iff dest!: in_set_takeD)

definition in_limits :: "ev \<Rightarrow> bool" where
  "in_limits e \<longleftrightarrow> (case e of E_Call m q to ok \<Rightarrow> limits_ok (decode_request q) | _ \<Rightarrow> True)"

lemma list_all_D: "list_all P xs \<Longrightarrow> x \<in> set xs \<Longrightarrow> P x"
  by (simp add: list_all_iff)



lemma utf8_replicate: "length (utf8 (replicate n c)) = n * length (utf8_char c)"
  by (induction n) (simp_all add: utf8_def)


text \<open>The decoder never swallows a NUL byte, since it is no continuation byte, and \<open>rstrip\<close> does not strip it.\<close>

lemma continuation_bytes: "0x80 \<le> lo \<Longrightarrow> \<forall>b \<in> set (continuation n lo hi bs). 0x80 \<le> b"
  "continuation n lo hi bs = take (length (continuation n lo hi bs)) bs"
  by (induction n lo hi bs rule: continuation.induct) auto

lemma decode1_keeps_nul:
  assumes "0 \<in> set bs"
  shows "0 \<in> set (drop (snd (decode1 b bs)) (b # bs))"
proof (cases "lead b")
  case None
  then show ?thesis using assms by (simp add: decode1_def)
next
  case (Some t)
  obtain n lo hi where t: "t = (n, lo, hi)" by (cases t)
  let ?cs = "continuation n lo hi bs"
  have "0x80 \<le> lo" using Some t by (auto simp: lead_def split: if_splits)
  from continuation_bytes(1) [OF this] have "0 \<notin> set ?cs" by fastforce
  then have "0 \<notin> set (take (length ?cs) bs)" using continuation_bytes(2) by metis
  then have "0 \<in> set (drop (length ?cs) bs)" using assms by (metis UnE append_take_drop_id set_append)
  moreover have "0 \<in> set bs" by (rule assms)
  ultimately show ?thesis by (auto simp: decode1_def Some t Let_def)
qed

lemma decode_replace_nul: "0 \<in> set bs \<Longrightarrow> 0 \<in> set (decode_replace bs)"
proof (induction bs rule: decode_replace.induct)
  case (2 b bs)
  show ?case
  proof (cases "b = 0")
    case True
    then show ?thesis by (simp add: decode1_def)
  next
    case False
    with 2 decode1_keeps_nul [of bs b] show ?thesis by simp
  qed
qed simp

lemma dropWhile_keeps: "x \<in> set xs \<Longrightarrow> \<not> p x \<Longrightarrow> x \<in> set (dropWhile p xs)"
  by (induction xs) auto

lemma in_concat_mapI: "y \<in> set s \<Longrightarrow> x \<in> set (f y) \<Longrightarrow> x \<in> set (concat (map f s))"
  by auto

lemma log_line_nul:
  assumes "0 \<in> set chunk"
  shows "NUL \<in> set (log_line chunk)"
proof -
  let ?s = "rev (dropWhile py_space (rev (decode_replace (map unat chunk))))"
  have "unat (0 :: 8 word) \<in> unat ` set chunk" by (rule imageI) (rule assms)
  then have "0 \<in> set (map unat chunk)" by simp
  from decode_replace_nul [OF this] have "0 \<in> set ?s" using dropWhile_keeps [of 0 _ py_space] by (simp add: py_space_def)
  moreover have "0 \<in> set (utf8_char 0)" by (simp add: utf8_char_def)
  ultimately have "0 \<in> set (concat (map utf8_char ?s))" by (rule in_concat_mapI)
  then have "char_of (0::nat) \<in> set (utf8 ?s)" unfolding utf8_def set_map by (rule imageI)
  moreover have "char_of (0::nat) = NUL" by (simp add: NUL_def char_of_def)
  ultimately show ?thesis by (simp add: log_line_def)
qed

text \<open>C28: A NUL byte in the output cannot be reported. When the command writes a NUL byte, the log line made of that
  chunk keeps it, and no progress report that carries the line is ever accepted: the database stores no NUL.\<close>

theorem nul_output_refused:
  assumes "0 \<in> set chunk" "log_line chunk \<in> set batch"
  shows "\<exists>err. report_tx e ReportProgress (decode_request (make_request c uuid lease 0 rid [F_logs batch])) j a d = Inl err"
proof -
  let ?r = "decode_request (make_request c uuid lease 0 rid [F_logs batch])"
  have "\<not> event_text ?r"
    using log_line_nul [OF assms(1)] assms(2) by (auto simp: event_text_def decode_request_def make_request_def pg_text_def list_all_iff)
  then show ?thesis by (auto simp: report_tx_def bindR_def Let_def split: sum.splits)
qed

theorem nul_output_refused_witness:
  "\<exists>err. report_tx (ex_env 4) ReportProgress (decode_request (make_request \<lparr>c_worker_id = ''w'', c_session_id = ''s''\<rparr> (ex_id 9)
      (Some ex_held) 0 None [F_logs [log_line [104, 0, 105]]])) (ex_row RUNNING 3) (ex_attempt A_RUNNING (Some 3) None) (ex_db 3) = Inl err"
  by (rule nul_output_refused [of "[104, 0, 105]"]) simp_all

section \<open>The log file and the queue\<close>

definition log_chunks :: "log_step list \<Rightarrow> bytes list" where
  "log_chunks steps = concat (map (\<lambda>s. case s of L_Chunk c \<Rightarrow> [c] | L_Take n \<Rightarrow> []) steps)"

lemma read_logs_fold:
  "lg_file (fold read_logs steps s) = lg_file s @ concat (log_chunks steps)
   \<and> (length (lg_queue s) \<le> 1000 \<longrightarrow> length (lg_queue (fold read_logs steps s)) \<le> 1000)
   \<and> set (lg_queue (fold read_logs steps s)) \<subseteq> set (lg_queue s) \<union> log_line ` set (log_chunks steps)"
proof (induction steps arbitrary: s)
  case (Cons x steps)
  show ?case
  proof (cases x)
    case (L_Chunk c)
    with Cons [of "read_logs x s"] show ?thesis by (auto simp: log_chunks_def)
  next
    case (L_Take n)
    with Cons [of "read_logs x s"] show ?thesis by (auto simp: log_chunks_def dest: in_set_dropD)
  qed
qed (simp add: log_chunks_def)

text \<open>The full log survives a full queue. However slowly the reports drain the bounded queue, the log
  file that becomes the artifact holds exactly the bytes the command printed; the queue never
  holds more than a thousand lines, and each of them fits the server's line limit.\<close>

lemma log_file_complete:
  assumes "log_chunks steps = read_lines out"
  shows "lg_file (fold read_logs steps \<lparr>lg_file = [], lg_queue = []\<rparr>) = out
    \<and> length (lg_queue (fold read_logs steps \<lparr>lg_file = [], lg_queue = []\<rparr>)) \<le> 1000
    \<and> (\<forall>x \<in> set (lg_queue (fold read_logs steps \<lparr>lg_file = [], lg_queue = []\<rparr>)). length x \<le> 12288)"
proof -
  let ?s = "fold read_logs steps \<lparr>lg_file = [], lg_queue = []\<rparr>"
  have f: "lg_file ?s = out" "length (lg_queue ?s) \<le> 1000" "set (lg_queue ?s) \<subseteq> log_line ` set (read_lines out)"
    using read_logs_fold [of steps "\<lparr>lg_file = [], lg_queue = []\<rparr>"] assms by (auto simp: concat_read_lines)
  moreover have "length (log_line c) \<le> 12288" if "c \<in> set (read_lines out)" for c
    using log_line_length [of c] read_lines_chunks [OF that] by simp
  ultimately show ?thesis by auto
qed

theorem log_file_complete_witness:
  "lg_file (fold read_logs [L_Chunk [104, 105, 10], L_Take 5] \<lparr>lg_file = [], lg_queue = []\<rparr>) = [104, 105, 10]"
proof -
  have "line_length (Suc (Suc (Suc n))) [104, 105, 10] = 3" for n by simp
  from this [of 4093] have "line_length 4096 [104, 105, 10] = 3" by simp
  then have "read_lines [104, 105, 10] = [[104, 105, 10]]" by (simp add: read_lines.simps [of "[104, 105, 10]"] read_lines.simps [of "[]"])
  then have "log_chunks [L_Chunk [104, 105, 10], L_Take 5] = read_lines [104, 105, 10]" by (simp add: log_chunks_def)
  from log_file_complete [OF this] show ?thesis by blast
qed

end
