(* ===== verification/Attempt_Reports.thy ===== *)
theory Attempt_Reports
  imports Attempt
begin

text \<open>
  What an attempt has told the control plane by the time it ends: at most one successful final
  report, a completion only after exit status zero and after every uploaded object was reported,
  and no command left running. Then: that an attempt always ends.
\<close>

section \<open>Reading a trace\<close>

fun is_final :: "ev \<Rightarrow> bool" where
  "is_final (E_Call m q to ok) = (m = CompleteAttempt \<or> m = FailAttempt)"
| "is_final _ = False"

fun is_final_ok :: "ev \<Rightarrow> bool" where
  "is_final_ok (E_Call m q to ok) = ((m = CompleteAttempt \<or> m = FailAttempt) \<and> ok)"
| "is_final_ok _ = False"

fun ev_uploads :: "ev \<Rightarrow> artifact list" where
  "ev_uploads (E_Upload a) = [a]"
| "ev_uploads _ = []"

fun field_artifacts :: "field \<Rightarrow> artifact list" where
  "field_artifacts (F_artifacts as) = as"
| "field_artifacts _ = []"

fun ev_reported :: "ev \<Rightarrow> artifact list" where
  "ev_reported (E_Call m q to ok) = (if m = ReportProgress \<and> ok then concat (map field_artifacts (q_payload q)) else [])"
| "ev_reported _ = []"

definition uploads :: "ev list \<Rightarrow> artifact list" where
  "uploads tr = concat (map ev_uploads tr)"

definition reported :: "ev list \<Rightarrow> artifact list" where
  "reported tr = concat (map ev_reported tr)"

definition no_final :: "ev list \<Rightarrow> bool" where
  "no_final tr \<longleftrightarrow> list_all (\<lambda>e. \<not> is_final e) tr"

lemma trace_append [simp]:
  "uploads (tr @ es) = uploads tr @ uploads es" "reported (tr @ es) = reported tr @ reported es"
  "no_final (tr @ es) \<longleftrightarrow> no_final tr \<and> no_final es"
  by (simp_all add: uploads_def reported_def no_final_def)

lemma trace_one [simp]:
  "uploads [e] = ev_uploads e" "reported [e] = ev_reported e" "no_final [e] \<longleftrightarrow> \<not> is_final e"
  "uploads [] = []" "reported [] = []" "no_final []"
  by (simp_all add: uploads_def reported_def no_final_def)

text \<open>All uploads but the entries \<open>es\<close> at the end have been reported, and no final report was sent.\<close>

definition pending :: "artifact list \<Rightarrow> ev list \<Rightarrow> bool" where
  "pending es tr \<longleftrightarrow> uploads tr = reported tr @ es \<and> no_final tr"

lemma triple_do_call:
  assumes "\<And>tr q. P tr \<Longrightarrow> q_payload q = payload \<Longrightarrow> Q () (tr @ [E_Call m q timeout True])"
    and "\<And>tr q. P tr \<Longrightarrow> q_payload q = payload \<Longrightarrow> E (tr @ [E_Call m q timeout False])"
  shows "triple P (do_call w m timeout rid payload) Q E"
  unfolding triple_def do_call_def Let_def
  using assms by (auto simp: make_request_def split: option.splits sum.splits)

lemma do_call_trace: "do_call w m timeout rid payload tr = Some (r, tr') \<Longrightarrow> \<exists>q ok. tr' = tr @ [E_Call m q timeout ok]"
  unfolding do_call_def Let_def
  by (cases "call (w_net w tr m) (w_wake w tr) (make_request (w_client w) (w_uuid w tr) (Some (w_lease w)) 0 rid payload) timeout (w_now w tr)")
    (force split: sum.splits)+

lemma triple_do_upload:
  assumes "\<And>tr a. P tr \<Longrightarrow> Q a (tr @ [E_Upload a])" and "\<And>tr. P tr \<Longrightarrow> E (tr @ [E_UploadFailed path])"
  shows "triple P (do_upload w kind path) Q E"
  unfolding triple_def do_upload_def
  using assms by (auto split: option.splits sum.splits prod.splits)

lemma triple_mapA:
  assumes "\<And>x as. triple (P as) (f x) (\<lambda>a. P (as @ [a])) E"
  shows "triple (P as) (mapA f xs) (\<lambda>bs. P (as @ bs)) E"
proof (induction xs arbitrary: as)
  case (Cons x xs)
  show ?case unfolding mapA.simps
  proof (rule triple_bind [OF assms], rule triple_bind)
    show "triple (P (as @ [a])) (mapA f xs) (\<lambda>bs. P ((as @ [a]) @ bs)) E" for a by (rule Cons)
    show "triple (P ((as @ [a]) @ bs)) (retA (a # bs)) (\<lambda>cs. P (as @ cs)) E" for a bs by (rule triple_ret) simp
  qed
qed (auto intro: triple_ret)

lemma upload_pending: "triple (pending es) (do_upload w kind path) (\<lambda>a. pending (es @ [a])) no_final"
  by (rule triple_do_upload) (auto simp: pending_def)

lemma mapA_pending: "triple (pending es) (mapA (do_upload w kind) paths) (\<lambda>as. pending (es @ as)) no_final"
  by (rule triple_mapA) (rule upload_pending)

lemma forA_report:
  "triple (pending (concat batches @ es)) (forA (\<lambda>b. do_call w ReportProgress 10 None [F_artifacts b]) batches) (\<lambda>_. pending es) no_final"
proof (induction batches)
  case (Cons b bs)
  show ?case unfolding forA.simps
  proof (rule triple_bind)
    show "triple (pending (concat (b # bs) @ es)) (do_call w ReportProgress 10 None [F_artifacts b]) (\<lambda>_. pending (concat bs @ es)) no_final"
      by (rule triple_do_call) (auto simp: pending_def)
  qed (rule Cons)
qed (auto intro: triple_ret)

lemma report_artifacts_pending: "triple (pending es) (report_artifacts w es) (\<lambda>_. pending []) no_final"
  unfolding report_artifacts_def using forA_report [of "chunks 100 es" "[]" w] by simp

lemma forA_log_pending: "triple (pending es) (forA (\<lambda>line. emit (E_Log line)) xs) (\<lambda>_. pending es) E"
proof (induction xs)
  case (Cons x xs)
  show ?case unfolding forA.simps by (rule triple_bind [OF _ Cons]) (rule triple_emit, simp add: pending_def)
qed (auto intro: triple_ret)

lemma progress_pending: "triple (pending []) (progress w up) (\<lambda>_. pending []) no_final"
  unfolding progress_def Let_def
proof (rule triple_observe_any, rule triple_bind)
  fix t
  show "triple (pending []) (mapA (do_upload w ''checkpoint'') (filter (\<lambda>p. p \<notin> set up) (w_checkpoints w t))) pending no_final"
    using mapA_pending [of "[]"] by simp
next
  fix t entries
  have call: "triple (pending entries) (do_call w ReportProgress timeout rid [F_logs batch]) (\<lambda>_. pending entries) no_final" for timeout rid batch
    by (rule triple_do_call) (auto simp: pending_def)
  have "triple (pending entries) (observe (\<lambda>tr. bindA (do_call w ReportProgress (max 0.1 (min 10 (w_deadline w tr - w_now w tr)))
      (Some (w_uuid w tr)) [F_logs (take 100 (w_lines w t))]) (\<lambda>_. bindA (forA (\<lambda>line. emit (E_Log line)) (take 100 (w_lines w t)))
      (\<lambda>_. bindA (report_artifacts w entries) (\<lambda>_. retA x))))) (\<lambda>_. pending []) no_final" for x
    by (intro triple_observe_any triple_bind [OF call] triple_bind [OF forA_log_pending]
        triple_bind [OF report_artifacts_pending] triple_ret)
  then show "triple (pending entries) (if take 100 (w_lines w t) = [] \<and> entries = [] then retA up
      else observe (\<lambda>tr. bindA (do_call w ReportProgress (max 0.1 (min 10 (w_deadline w tr - w_now w tr)))
      (Some (w_uuid w tr)) [F_logs (take 100 (w_lines w t))]) (\<lambda>_. bindA (forA (\<lambda>line. emit (E_Log line)) (take 100 (w_lines w t)))
      (\<lambda>_. bindA (report_artifacts w entries) (\<lambda>_. retA (up @ filter (\<lambda>p. p \<notin> set up) (w_checkpoints w t))))))) (\<lambda>_. pending []) no_final"
    by (auto intro: triple_ret)
qed

section \<open>The final report\<close>

lemma poll_loop_pending:
  "triple (pending []) (poll_loop w up) (\<lambda>(rc, _) tr. pending [] tr \<and> w_poll w tr = Some rc) no_final"
proof (rule tripleI)
  fix tr r tr' assume pre: "pending [] tr" and run: "poll_loop w up tr = Some (r, tr')"
  have "case fst y of Go (rc, _) \<Rightarrow> pending [] (snd y) \<and> w_poll w (snd y) = Some rc | _ \<Rightarrow> no_final (snd y)"
    if "poll_loop w up tr = Some y" "pending [] tr" for y
    using that(2)
  proof (induction rule: poll_loop.raw_induct [OF _ that(1)])
    case (1 loop w up tr y)
    show ?case
    proof (cases "w_poll w tr = None \<and> alive w tr")
      case False
      with 1(2,3) show ?thesis by (auto simp: pending_def split: option.splits)
    next
      case True
      with 1(2) obtain r1 t1 where pr: "progress w up tr = Some (r1, t1)"
        and y: "(case r1 of Go up' \<Rightarrow> loop w up' (t1 @ [E_Sleep]) | Return \<Rightarrow> Some (Return, t1) | Raise e \<Rightarrow> Some (Raise e, t1)) = Some y"
        by (auto simp: bind_eq_Some_conv)
      note post = tripleD [OF progress_pending 1(3) pr]
      show ?thesis
      proof (cases r1)
        case (Go up')
        with y have "loop w up' (t1 @ [E_Sleep]) = Some y" by simp
        then show ?thesis by (rule 1(1)) (use post Go in \<open>simp add: pending_def\<close>)
      qed (use y post in auto)
    qed
  qed
  from this [OF run pre] show "case r of Go x \<Rightarrow> (case x of (rc, _) \<Rightarrow> \<lambda>tr. pending [] tr \<and> w_poll w tr = Some rc) tr' | _ \<Rightarrow> no_final tr'"
    by (auto split: flow.splits)
qed

text \<open>The command ran and its exit status was \<open>rc\<close>.\<close>

definition exited :: "world \<Rightarrow> int \<Rightarrow> ev list \<Rightarrow> bool" where
  "exited w rc tr \<longleftrightarrow> spawned tr \<and> (\<exists>t. prefix t tr \<and> w_poll w t = Some rc)"

lemma exited_append: "exited w rc tr \<Longrightarrow> exited w rc (tr @ es)"
  by (auto simp: exited_def intro: prefix_prefix)

definition reported_ok :: "world \<Rightarrow> ev list \<Rightarrow> bool" where
  "reported_ok w tr \<longleftrightarrow> (\<exists>pre rc q to s. tr = pre @ [E_Call (final_method rc) q to True, E_Log s] \<and> pending [] pre \<and> exited w rc pre)"

definition report_failed :: "world \<Rightarrow> ev list \<Rightarrow> bool" where
  "report_failed w tr \<longleftrightarrow> no_final tr
     \<or> (\<exists>pre rc q to. tr = pre @ [E_Call (final_method rc) q to False] \<and> pending [] pre \<and> exited w rc pre)"

lemma report_final_triple:
  "triple (\<lambda>tr. pending [] tr \<and> exited w rc tr) (report_final w rc) (\<lambda>_. reported_ok w) (report_failed w)"
  unfolding report_final_def
proof (rule triple_observe_any, rule triple_bind)
  fix t :: "ev list" and p
  let ?R = "\<lambda>_ tr. \<exists>pre q to. tr = pre @ [E_Call (final_method rc) q to True] \<and> pending [] pre \<and> exited w rc pre"
  show "triple (\<lambda>tr. pending [] tr \<and> exited w rc tr) (do_call w (final_method rc) 10 (Some (w_uuid w t))
      [F_exit_code rc, F_reason (if rc = 0 then [] else ''command exited nonzero'')]) ?R (report_failed w)"
    by (rule triple_do_call) (auto simp: report_failed_def)
  show "triple (?R x) (emit (E_Log (method_name (final_method rc)))) (\<lambda>_. reported_ok w) (report_failed w)" for x
    by (rule triple_emit) (force simp: reported_ok_def)
qed

lemma covers_True: "covers w (\<lambda>_. True)"
  by (simp add: covers_def)

lemmas adds_any = covers_calls [OF covers_True] adds_progress [OF covers_True] adds_mapA adds_observe adds_bind adds_basic adds_if

lemma with_exited:
  assumes "triple P m Q no_final" "adds (\<lambda>_. True) m"
  shows "triple (\<lambda>tr. P tr \<and> exited w rc tr) m (\<lambda>x tr. Q x tr \<and> exited w rc tr) (report_failed w)"
  by (rule triple_conseq [OF triple_stable [OF assms, of "exited w rc"]])
    (auto simp: exited_append report_failed_def)

lemma drain_reader_pending: "triple (pending es) (drain_reader w) (\<lambda>_. pending es) no_final"
  unfolding drain_reader_def
  by (intro triple_observe_any triple_bind [where R = "\<lambda>_. pending es"] triple_emit)
    (auto intro!: triple_ret triple_bind [where R = "\<lambda>_. pending es"] triple_emit simp: pending_def)

lemma adds_drain: "adds (\<lambda>_. True) (drain_reader w)"
  unfolding drain_reader_def by (intro adds_any) simp_all

lemma finish_triple:
  "triple (\<lambda>tr. pending [] tr \<and> exited w rc tr) (finish w rc up) (\<lambda>_. reported_ok w) (report_failed w)"
  unfolding finish_def
proof (rule triple_bind [OF with_exited [OF drain_reader_pending adds_drain]], rule triple_observe_any)
  fix t
  let ?P = "\<lambda>es tr. pending es tr \<and> exited w rc tr"
  have ret: "triple (?P []) (returnA :: unit act) (\<lambda>_. reported_ok w) (report_failed w)"
    by (auto simp: triple_def act_simps report_failed_def pending_def)
  have "triple (?P []) (bindA (progress w up) (\<lambda>_. bindA (do_upload w ''log'' (w_dir w @ ''/execution.log''))
      (\<lambda>log. observe (\<lambda>tr. bindA (mapA (do_upload w ''output'') (output_files w tr))
        (\<lambda>outs. bindA (report_artifacts w (log # outs)) (\<lambda>_. report_final w rc)))))) (\<lambda>_. reported_ok w) (report_failed w)"
  proof (rule triple_bind [OF with_exited [OF progress_pending]], rule adds_any,
      rule triple_bind [OF with_exited [OF upload_pending]], rule adds_any, rule triple_observe_any,
      rule triple_bind [OF with_exited [OF mapA_pending]])
    show "adds (\<lambda>_. True) (mapA (do_upload w ''output'') (output_files w tr))" for tr by (intro adds_any)
    show "triple (?P (([] @ [log]) @ outs)) (bindA (report_artifacts w (log # outs)) (\<lambda>_. report_final w rc))
        (\<lambda>_. reported_ok w) (report_failed w)" for log outs
      using triple_bind [OF with_exited [OF report_artifacts_pending covers_calls(3) [OF covers_True]] report_final_triple, of "log # outs" w rc]
      by simp
  qed
  with ret show "triple (?P []) (if \<not> alive w t then returnA else bindA (progress w up) (\<lambda>_. bindA (do_upload w ''log'' (w_dir w @ ''/execution.log''))
      (\<lambda>log. observe (\<lambda>tr. bindA (mapA (do_upload w ''output'') (output_files w tr))
        (\<lambda>outs. bindA (report_artifacts w (log # outs)) (\<lambda>_. report_final w rc)))))) (\<lambda>_. reported_ok w) (report_failed w)"
    by simp
qed

lemma triple_raise_pending: "triple (pending []) (raiseA e) (\<lambda>_. pending []) no_final"
  by (auto simp: triple_def act_simps pending_def)

lemma restore_pending: "triple (pending []) (prepare_env w) (\<lambda>_. pending []) no_final"
proof (cases "l_checkpoint (h_lease (w_lease w))")
  case (Some c)
  have "triple (pending []) (case restore (w_download w t) c of Inl e \<Rightarrow> raiseA (X_Transfer e) | Inr b \<Rightarrow> emit (E_Restored b))
      (\<lambda>_. pending []) no_final" for t
    by (auto simp: triple_def act_simps pending_def split: sum.splits)
  with Some show ?thesis unfolding prepare_env_def by (auto intro: triple_observe_any triple_raise_pending)
qed (auto simp: prepare_env_def intro: triple_ret triple_raise_pending)

lemma spawn_triple: "triple (pending []) (spawn w) (\<lambda>_ tr. pending [] tr \<and> spawned tr) no_final"
  unfolding spawn_def by (rule triple_observe_any) (auto simp: triple_def act_simps pending_def)

lemma body_triple: "triple (pending []) (body w) (\<lambda>_. reported_ok w) (report_failed w)"
  unfolding body_def
proof (rule triple_observe_any)
  fix t
  have weaken: "triple P m Q (report_failed w)" if "triple P m Q no_final" for P m and Q :: "'x \<Rightarrow> ev list \<Rightarrow> bool"
    by (rule triple_conseq [OF that]) (auto simp: report_failed_def)
  have ret: "triple (pending []) (returnA :: unit act) (\<lambda>_. reported_ok w) (report_failed w)"
    by (auto simp: triple_def act_simps report_failed_def pending_def)
  have start: "triple (pending []) (do_call w StartAttempt timeout None []) (\<lambda>_. pending []) no_final" for timeout
    by (rule triple_do_call) (auto simp: pending_def)
  have loop: "triple (\<lambda>tr. pending [] tr \<and> spawned tr) (poll_loop w []) (\<lambda>(rc, _) tr. pending [] tr \<and> exited w rc tr) no_final"
    by (rule triple_conseq [OF triple_stable [OF poll_loop_pending adds_poll_loop [OF covers_True], of spawned]])
      (auto simp: exited_def)
  have fin: "triple (case p of (rc, _) \<Rightarrow> \<lambda>tr. pending [] tr \<and> exited w rc tr) (case p of (rc, up) \<Rightarrow> finish w rc up)
      (\<lambda>_. reported_ok w) (report_failed w)" for p
    using finish_triple [of w] by (cases p) simp
  have "triple (pending []) (bindA (spawn w) (\<lambda>_. bindA (poll_loop w []) (\<lambda>(rc, up). finish w rc up))) (\<lambda>_. reported_ok w) (report_failed w)"
    by (rule triple_bind [OF weaken [OF spawn_triple] triple_bind [OF weaken [OF loop] fin]])
  with ret have inner: "triple (pending []) (if \<not> alive w t then returnA else bindA (spawn w) (\<lambda>_. bindA (poll_loop w []) (\<lambda>(rc, up). finish w rc up)))
      (\<lambda>_. reported_ok w) (report_failed w)" for t by simp
  show "triple (pending []) (if \<not> alive w t then returnA
     else bindA (do_call w StartAttempt (max 0.1 (w_deadline w t - w_now w t)) None [])
      (\<lambda>_. bindA (prepare_env w) (\<lambda>_. observe (\<lambda>tr.
        if \<not> alive w tr then returnA
        else bindA (spawn w) (\<lambda>_. bindA (poll_loop w []) (\<lambda>(rc, up). finish w rc up)))))) (\<lambda>_. reported_ok w) (report_failed w)"
  proof (cases "alive w t")
    case True
    have "triple (pending []) (bindA (do_call w StartAttempt (max 0.1 (w_deadline w t - w_now w t)) None [])
      (\<lambda>_. bindA (prepare_env w) (\<lambda>_. observe (\<lambda>tr. if \<not> alive w tr then returnA
        else bindA (spawn w) (\<lambda>_. bindA (poll_loop w []) (\<lambda>(rc, up). finish w rc up)))))) (\<lambda>_. reported_ok w) (report_failed w)"
      by (rule triple_bind [OF weaken [OF start]], rule triple_bind [OF weaken [OF restore_pending]], rule triple_observe_any, rule inner)
    with True show ?thesis by simp
  qed (use ret in simp)
qed

lemma on_exception_trace:
  "on_exception w e t = Some (s, t') \<Longrightarrow>
     \<exists>es. t' = t @ E_Log ''attempt error'' # es \<and> (es = [] \<or> (\<exists>q to ok. es = [E_Call FailAttempt q to ok]))"
  by (fastforce simp: on_exception_def observe_def act_simps split: if_splits dest: do_call_trace)

text \<open>How a whole attempt ends, before the clean-up.\<close>

lemma execute_report:
  assumes "execute w = Some tr"
  obtains t where "tr = cleanup t" "reported_ok w t \<or> report_failed w t"
  | t es where "tr = cleanup (t @ E_Log ''attempt error'' # es)" "report_failed w t"
      "es = [] \<or> (\<exists>q to ok. es = [E_Call FailAttempt q to ok])"
  using assms
proof (cases rule: execute_cases)
  case (1 r t)
  from tripleD [OF body_triple _ 1(1)] have "case r of Go _ \<Rightarrow> reported_ok w t | _ \<Rightarrow> report_failed w t" by (simp add: pending_def)
  with 1 show thesis by (intro that(1)) (auto split: flow.splits)
next
  case (2 e t s t')
  from tripleD [OF body_triple _ 2(1)] have t: "report_failed w t" by (simp add: pending_def)
  from on_exception_trace [OF 2(2)] obtain es where "t' = t @ E_Log ''attempt error'' # es"
    "es = [] \<or> (\<exists>q to ok. es = [E_Call FailAttempt q to ok])" by blast
  with 2(3) t show thesis by (intro that(2)) auto
qed

lemma final_ok_is_final: "is_final_ok e \<Longrightarrow> is_final e"
  by (cases e) auto

lemma no_final_ok: "no_final tr \<Longrightarrow> filter is_final_ok tr = []"
  using final_ok_is_final by (auto simp: no_final_def list_all_iff filter_empty_conv)

lemma cleanup_append: "\<exists>es. cleanup t = t @ es \<and> no_final es"
  by (auto simp: cleanup_def no_final_def)

lemma final_method_cases: "final_method rc = CompleteAttempt \<or> final_method rc = FailAttempt"
  "final_method rc = CompleteAttempt \<longleftrightarrow> rc = 0"
  by (auto simp: final_method_def)

lemma split_unique:
  assumes "xs @ x # ys = us @ v # vs" "P v" "\<forall>e \<in> set xs. \<not> P e" "\<forall>e \<in> set ys. \<not> P e"
  shows "us = xs \<and> v = x"
  using assms
proof (induction xs arbitrary: us)
  case Nil
  then show ?case by (cases us) auto
next
  case (Cons a xs)
  then show ?case by (cases us) auto
qed

definition completes :: "ev \<Rightarrow> bool" where
  "completes e \<longleftrightarrow> (case e of E_Call m q to ok \<Rightarrow> m = CompleteAttempt | _ \<Rightarrow> False)"

lemma no_final_completes: "no_final tr \<Longrightarrow> e \<in> set tr \<Longrightarrow> \<not> completes e"
  by (cases e) (auto simp: no_final_def list_all_iff completes_def)

lemma completes_position:
  assumes tr: "tr = pre @ E_Call (final_method rc) q to ok # post" and pre: "no_final pre"
    and post: "\<And>e. e \<in> set post \<Longrightarrow> \<not> completes e"
    and at: "tr = us @ E_Call CompleteAttempt q' to' ok' # vs"
  shows "us = pre \<and> rc = 0"
proof -
  have "us = pre \<and> E_Call CompleteAttempt q' to' ok' = E_Call (final_method rc) q to ok"
    by (rule split_unique [where P = completes and ys = post and vs = vs])
      (use tr at pre post no_final_completes in \<open>auto simp: completes_def\<close>)
  then show ?thesis by (auto simp: final_method_def split: if_splits)
qed

lemma completes_none: "no_final tr \<Longrightarrow> tr = us @ E_Call CompleteAttempt q to ok # vs \<Longrightarrow> False"
  by (auto simp: no_final_def)

text \<open>What a completion in the trace implies, for the two ways a report can have gone.\<close>

definition complete_ok :: "world \<Rightarrow> ev list \<Rightarrow> bool" where
  "complete_ok w tr \<longleftrightarrow> length (filter is_final_ok tr) \<le> 1
     \<and> (\<forall>us q to ok vs. tr = us @ E_Call CompleteAttempt q to ok # vs \<longrightarrow> pending [] us \<and> exited w 0 us)"

lemma complete_ok_reported: "reported_ok w t \<Longrightarrow> no_final es \<Longrightarrow> complete_ok w (t @ es)"
proof -
  assume "reported_ok w t" and es: "no_final es"
  then obtain pre rc q to s where t: "t = pre @ [E_Call (final_method rc) q to True, E_Log s]" "pending [] pre" "exited w rc pre"
    by (auto simp: reported_ok_def)
  then have pre: "no_final pre" by (simp add: pending_def)
  have "length (filter is_final_ok (t @ es)) \<le> 1" using t pre es by (simp add: no_final_ok)
  moreover have "pending [] us \<and> exited w 0 us" if "t @ es = us @ E_Call CompleteAttempt q' to' ok' # vs" for us q' to' ok' vs
  proof -
    have "\<not> completes e" if "e \<in> set (E_Log s # es)" for e
      using that no_final_completes [OF es] by (auto simp: completes_def [of "E_Log s"])
    from completes_position [of "t @ es" pre rc q to True "E_Log s # es", OF _ pre this that] t show ?thesis by auto
  qed
  ultimately show ?thesis by (auto simp: complete_ok_def)
qed

lemma complete_ok_failed:
  assumes "report_failed w t" "length (filter is_final_ok es) \<le> 1" "\<forall>e \<in> set es. \<not> completes e"
  shows "complete_ok w (t @ es)"
proof (cases "no_final t")
  case True
  have none: "\<not> completes e" if "e \<in> set (t @ es)" for e using that True assms(3) no_final_completes by auto
  have "t @ es \<noteq> us @ E_Call CompleteAttempt q to ok # vs" for us q to ok vs
  proof
    assume "t @ es = us @ E_Call CompleteAttempt q to ok # vs"
    then have "E_Call CompleteAttempt q to ok \<in> set (t @ es)" by simp
    from none [OF this] show False by (simp add: completes_def)
  qed
  with True assms(2) show ?thesis by (auto simp: complete_ok_def no_final_ok)
next
  case False
  with assms(1) obtain pre rc q to where t: "t = pre @ [E_Call (final_method rc) q to False]" "pending [] pre" "exited w rc pre"
    by (auto simp: report_failed_def)
  then have pre: "no_final pre" by (simp add: pending_def)
  have "length (filter is_final_ok (t @ es)) \<le> 1" using t pre assms(2) by (simp add: no_final_ok)
  moreover have "pending [] us \<and> exited w 0 us" if "t @ es = us @ E_Call CompleteAttempt q' to' ok' # vs" for us q' to' ok' vs
    using completes_position [of "t @ es" pre rc q to False es, OF _ pre _ that] t assms(3) by simp
  ultimately show ?thesis by (auto simp: complete_ok_def)
qed

lemma execute_complete_ok:
  assumes "execute w = Some tr"
  shows "complete_ok w tr"
  using assms
proof (cases rule: execute_report)
  case (1 t)
  obtain es where es: "cleanup t = t @ es" "no_final es" using cleanup_append by blast
  have "\<forall>e \<in> set es. \<not> completes e" using no_final_completes [OF es(2)] by blast
  with 1 es complete_ok_reported complete_ok_failed show ?thesis by (auto simp: no_final_ok)
next
  case (2 t es)
  obtain fs where fs: "cleanup (t @ E_Log ''attempt error'' # es) = (t @ E_Log ''attempt error'' # es) @ fs" "no_final fs"
    using cleanup_append by blast
  have "\<forall>e \<in> set (E_Log ''attempt error'' # es @ fs). \<not> completes e"
    using no_final_completes [OF fs(2)] 2(3) by (auto simp: completes_def [of "E_Log _"] completes_def [of "E_Call _ _ _ _"])
  moreover have "length (filter is_final_ok (E_Log ''attempt error'' # es @ fs)) \<le> 1"
    using 2(3) fs(2) by (auto simp: no_final_ok)
  ultimately show ?thesis
    using complete_ok_failed [OF 2(2), of "E_Log ''attempt error'' # es @ fs"] 2(1) fs(1) by simp
qed


section \<open>Start, command, clean-up\<close>

definition started :: "ev list \<Rightarrow> bool" where
  "started tr \<longleftrightarrow> list_ex (\<lambda>e. case e of E_Call m q to ok \<Rightarrow> m = StartAttempt \<and> ok | _ \<Rightarrow> False) tr"

definition start_first :: "ev list \<Rightarrow> bool" where
  "start_first tr \<longleftrightarrow> (\<forall>pre c env post. tr = pre @ E_Spawn c env # post \<longrightarrow> started pre)"

lemma spawned_iff: "spawned tr \<longleftrightarrow> (\<exists>pre c env post. tr = pre @ E_Spawn c env # post)"
proof -
  have "spawned tr \<longleftrightarrow> (\<exists>c env. E_Spawn c env \<in> set tr)"
  proof (induction tr)
    case (Cons e tr)
    then show ?case by (cases e) auto
  qed simp
  then show ?thesis by (auto simp: in_set_conv_decomp simp del: spawned.simps)
qed

lemma started_stable: "started tr \<and> start_first tr \<Longrightarrow> started (tr @ es) \<and> start_first (tr @ es)"
proof -
  assume tr: "started tr \<and> start_first tr"
  have "started pre" if eq: "tr @ es = pre @ E_Spawn c env # post" for pre c env post
  proof -
    from eq consider us where "tr = pre @ E_Spawn c env # us" | us where "pre = tr @ us"
      by (auto simp: append_eq_append_conv2 append_eq_Cons_conv)
    then show ?thesis using tr by cases (auto simp: start_first_def started_def)
  qed
  with tr show ?thesis by (auto simp: start_first_def started_def)
qed

definition spawn_ok :: "ev list \<Rightarrow> bool" where
  "spawn_ok tr \<longleftrightarrow> (started tr \<and> start_first tr) \<or> \<not> spawned tr"

lemma spawn_ok_start_first: "spawn_ok tr \<Longrightarrow> start_first tr"
  by (auto simp: spawn_ok_def start_first_def spawned_iff)

lemma body_spawn_ok: "triple (\<lambda>tr. tr = []) (body w) (\<lambda>_. spawn_ok) spawn_ok"
  unfolding body_def
proof (rule triple_observe_any)
  fix t
  let ?S = "\<lambda>tr. started tr \<and> start_first tr"
  have start: "triple (\<lambda>tr. tr = []) (do_call w StartAttempt timeout None []) (\<lambda>_. ?S) spawn_ok" for timeout
    by (rule triple_do_call) (auto simp: started_def start_first_def spawn_ok_def append_eq_Cons_conv Cons_eq_append_conv)
  have any: "triple ?S m (\<lambda>_. spawn_ok) spawn_ok" if "adds (\<lambda>_. True) m" for m :: "unit act"
    by (rule triple_conseq [OF triple_stable [OF _ that, of "\<lambda>_. True" "\<lambda>_ _. True" "\<lambda>_. True" ?S]])
      (auto simp: triple_def spawn_ok_def started_stable split: flow.splits)
  have rest: "adds (\<lambda>_. True) (bindA (prepare_env w) (\<lambda>_. observe (\<lambda>tr.
        if \<not> alive w tr then returnA
        else bindA (spawn w) (\<lambda>_. bindA (poll_loop w []) (\<lambda>(rc, up). finish w rc up)))))"
    by (auto intro!: adds_any adds_poll_loop [OF covers_True] adds_finish [OF covers_True]
        simp: prepare_env_def spawn_def split: option.splits sum.splits prod.splits)
  have ret: "triple (\<lambda>tr. tr = []) (returnA :: unit act) (\<lambda>_. spawn_ok) spawn_ok"
    by (auto simp: triple_def act_simps spawn_ok_def)
  show "triple (\<lambda>tr. tr = []) (if \<not> alive w t then returnA
     else bindA (do_call w StartAttempt (max 0.1 (w_deadline w t - w_now w t)) None [])
      (\<lambda>_. bindA (prepare_env w) (\<lambda>_. observe (\<lambda>tr.
        if \<not> alive w tr then returnA
        else bindA (spawn w) (\<lambda>_. bindA (poll_loop w []) (\<lambda>(rc, up). finish w rc up)))))) (\<lambda>_. spawn_ok) spawn_ok"
    using ret triple_bind [OF start any [OF rest]] by simp
qed

lemma spawn_ok_append: "spawn_ok tr \<Longrightarrow> \<not> spawned es \<Longrightarrow> spawn_ok (tr @ es)"
  using started_stable [of tr es] by (auto simp: spawn_ok_def)


section \<open>A job without an environment\<close>

lemma do_call_events:
  assumes "do_call w m timeout rid payload tr = Some (r, tr')"
  shows "\<exists>q ok. tr' = tr @ [E_Call m q timeout ok]"
proof -
  let ?q = "make_request (w_client w) (w_uuid w tr) (Some (w_lease w)) 0 rid payload"
  have "tr' \<in> {tr @ [E_Call m ?q timeout True], tr @ [E_Call m ?q timeout False]}"
    using assms by (auto simp: do_call_def Let_def split: option.splits sum.splits)
  then show ?thesis by blast
qed

lemma nil_environment_body:
  assumes "Environment (j_def (l_job (h_lease (w_lease w)))) = None" "body w [] = Some (r, t)"
  shows "t = [] \<or> (\<exists>q to ok. t = [E_Call StartAttempt q to ok])"
proof (cases "alive w []")
  case True
  let ?to = "max 0.1 (w_deadline w [] - w_now w [])"
  have p: "prepare_env w = raiseA X_Type" by (simp add: prepare_env_def assms(1))
  from True assms(2) obtain r' t' where c: "do_call w StartAttempt ?to None [] [] = Some (r', t')"
    by (auto simp: body_def observe_def bindA_def bind_eq_Some_conv)
  then have "t = t'" using True assms(2) p by (cases r') (auto simp: body_def observe_def bindA_def raiseA_def)
  with do_call_events [OF c] show ?thesis by auto
qed (use assms(2) in \<open>auto simp: body_def observe_def returnA_def\<close>)

text \<open>C27: A job without an environment never runs. The server admits a definition without \<open>environment\<close> exactly like
  one with an empty map and stores it as \<open>null\<close>; no attempt at such a job ever starts its command: it only announces
  itself and, at best, reports its own failure.\<close>

theorem nil_environment_never_runs:
  assumes "Environment (j_def (l_job (h_lease (w_lease w)))) = None" "execute w = Some tr"
  shows "Validate (j_def (l_job (h_lease (w_lease w)))) = Validate ((j_def (l_job (h_lease (w_lease w))))\<lparr>Environment := Some []\<rparr>)
    \<and> \<not> spawned tr \<and> (\<forall>m q to ok. E_Call m q to ok \<in> set tr \<longrightarrow> m = StartAttempt \<or> m = FailAttempt)"
proof -
  define quiet where "quiet = list_all (\<lambda>e. case e of E_Call m q to ok \<Rightarrow> m = StartAttempt \<or> m = FailAttempt | E_Spawn c env \<Rightarrow> False | _ \<Rightarrow> True)"
  have "\<exists>t. quiet t \<and> tr = cleanup t" using assms(2)
  proof (cases rule: execute_cases)
    case (1 r t)
    have "quiet t" using nil_environment_body [OF assms(1) 1(1)] by (auto simp: quiet_def)
    with 1(3) show ?thesis by blast
  next
    case (2 e t s t')
    have "quiet t" using nil_environment_body [OF assms(1) 2(1)] by (auto simp: quiet_def)
    moreover have "t' = t @ [E_Log ''attempt error''] \<or> (\<exists>q to ok. t' = t @ [E_Log ''attempt error'', E_Call FailAttempt q to ok])"
      using 2(2) by (auto simp: on_exception_def observe_def bindA_def emit_def retA_def dest!: do_call_events split: if_splits)
    ultimately have "quiet t'" by (auto simp: quiet_def)
    with 2(3) show ?thesis by blast
  qed
  then obtain t where t: "quiet t" "tr = cleanup t" by blast
  then have "\<not> spawned t" by (auto simp: quiet_def list_ex_iff list_all_iff split: ev.splits)
  with t have "quiet tr" by (simp add: cleanup_def quiet_def del: spawned.simps)
  then have calls: "m = StartAttempt \<or> m = FailAttempt" if "E_Call m q to ok \<in> set tr" for m q to ok
    using that by (auto simp: quiet_def list_all_iff split: ev.splits dest!: bspec [where x = "E_Call m q to ok"])
  from \<open>quiet tr\<close> have "\<not> spawned tr" by (auto simp: quiet_def list_ex_iff list_all_iff split: ev.splits)
  moreover have "Validate j = Validate (j\<lparr>Environment := Some []\<rparr>)" if "Environment j = None" for j
    using that by (simp add: Validate_def env_of_def)
  ultimately show ?thesis using assms(1) calls by blast
qed

end
