(* ===== verification/Attempt_Ends.thy ===== *)
theory Attempt_Ends
  imports Attempt_Reports
begin

text \<open>
  An attempt always ends, once its command does: every call returns, every upload is bounded, and
  the poll loop stops. The theory also holds a concrete world, in which a whole attempt is
  evaluated, and the theorems of \<open>Attempt\<close> and \<open>Attempt_Reports\<close> are applied to it.
\<close>

section \<open>Every action returns\<close>

definition world_ok :: "world \<Rightarrow> real \<Rightarrow> bool" where
  "world_ok w slack \<longleftrightarrow> (\<forall>tr m. transport_ok (w_net w tr m) (w_wake w tr) slack)"

lemma call_returns:
  assumes ok: "transport_ok tr wake slack" and "0 \<le> timeout"
  shows "call tr wake q timeout t0 \<noteq> None"
proof -
  have "timeout \<le> real (nat \<lceil>10 * timeout\<rceil>) * 0.1" using real_nat_ceiling_ge [of "10 * timeout"] by simp
  then have "\<exists>res t sends. call_loop tr wake q (t0 + timeout) 0 t0 0.1 = Some (res, t, sends)
    \<and> t0 \<le> t \<and> t \<le> t0 + timeout + 0.01 + 2 * slack \<and> length sends \<le> Suc (nat \<lceil>10 * timeout\<rceil>)
    \<and> (\<forall>(p, to) \<in> set sends. p = q \<and> 0.01 \<le> to \<and> to \<le> max 0.01 (5 + real_of_int (q_wait q)))"
    by (intro call_loop_ends [OF ok]) (use assms in \<open>simp_all add: transport_ok_def\<close>)
  then show ?thesis by (auto simp: call_def split: sum.splits)
qed

lemma returns_do_call: "world_ok w slack \<Longrightarrow> 0 \<le> timeout \<Longrightarrow> returns (do_call w m timeout rid payload)"
proof (unfold returns_def, intro allI)
  fix tr assume ok: "world_ok w slack" and t: "0 \<le> timeout"
  have "transport_ok (w_net w tr m) (w_wake w tr) slack" using ok by (simp add: world_ok_def)
  from call_returns [OF this t] obtain v u x where
    "call (w_net w tr m) (w_wake w tr) (make_request (w_client w) (w_uuid w tr) (Some (w_lease w)) 0 rid payload) timeout (w_now w tr)
      = Some (v, u, x)" by fastforce
  then show "do_call w m timeout rid payload tr \<noteq> None" by (cases v) (simp_all add: do_call_def Let_def)
qed

lemma returns_do_upload: "returns (do_upload w kind path)"
  unfolding returns_def do_upload_def by (auto split: option.splits prod.splits sum.splits)

lemma returns_if: "(c \<Longrightarrow> returns m) \<Longrightarrow> (\<not> c \<Longrightarrow> returns n) \<Longrightarrow> returns (if c then m else n)"
  by simp

lemma returns_report_artifacts: "world_ok w slack \<Longrightarrow> returns (report_artifacts w entries)"
  unfolding report_artifacts_def by (rule returns_forA) (rule returns_do_call, assumption, simp)

lemma returns_progress:
  assumes ok: "world_ok w slack"
  shows "returns (progress w up)"
  unfolding progress_def Let_def
  by (intro returns_rules returns_if returns_do_upload returns_report_artifacts [OF ok] returns_do_call [OF ok]) simp

fun is_sleep :: "ev \<Rightarrow> bool" where
  "is_sleep E_Sleep = True"
| "is_sleep _ = False"

definition sleeps :: "ev list \<Rightarrow> nat" where
  "sleeps tr = length (filter is_sleep tr)"

lemma poll_loop_returns:
  assumes ok: "world_ok w slack" and exits: "\<And>tr. n \<le> sleeps tr \<Longrightarrow> w_poll w tr \<noteq> None"
  shows "n \<le> sleeps tr + k \<Longrightarrow> poll_loop w up tr \<noteq> None"
proof (induction k arbitrary: up tr)
  case 0
  with exits [of tr] show ?case by (subst poll_loop.simps) auto
next
  case (Suc k)
  obtain r t1 where pr: "progress w up tr = Some (r, t1)" using returnsD [OF returns_progress [OF ok]] by blast
  obtain es where "t1 = tr @ es" using addsD [OF adds_progress [OF covers_True] pr] by blast
  then have "n \<le> sleeps (t1 @ [E_Sleep]) + k" using Suc.prems by (simp add: sleeps_def)
  from Suc.IH [OF this] show ?case
    by (subst poll_loop.simps) (cases r; auto simp: pr split: option.splits)
qed

lemma returns_finish:
  assumes ok: "world_ok w slack"
  shows "returns (finish w rc up)"
  unfolding finish_def drain_reader_def report_final_def
  by (intro returns_rules returns_if returns_do_upload returns_report_artifacts [OF ok] returns_do_call [OF ok]
      returns_progress [OF ok]) simp_all

lemma returns_body:
  assumes ok: "world_ok w slack" and exits: "\<And>tr. n \<le> sleeps tr \<Longrightarrow> w_poll w tr \<noteq> None"
  shows "returns (body w)"
proof -
  have "returns (prepare_env w)" unfolding prepare_env_def
    by (auto intro!: returns_rules split: option.splits sum.splits)
  moreover have "returns (spawn w)" unfolding spawn_def by (auto intro!: returns_rules)
  moreover have "returns (poll_loop w [])"
    unfolding returns_def using poll_loop_returns [OF ok exits, where k = n] by simp
  ultimately show ?thesis
    unfolding body_def using returns_finish [OF ok] returns_do_call [OF ok]
    by (auto intro!: returns_rules split: prod.splits)
qed

lemma execute_returns:
  assumes "world_ok w slack" "\<And>tr. n \<le> sleeps tr \<Longrightarrow> w_poll w tr \<noteq> None"
  shows "\<exists>tr. execute w = Some tr"
proof -
  obtain r t where b: "body w [] = Some (r, t)" using returnsD [OF returns_body [OF assms]] by blast
  have "returns (on_exception w e)" for e
    unfolding on_exception_def by (intro returns_rules returns_if returns_do_call [OF assms(1)]) simp
  then have "\<exists>s t'. on_exception w e t = Some (s, t')" for e by (rule returnsD)
  with b show ?thesis by (cases r) (auto simp: execute_def)
qed


section \<open>A concrete attempt\<close>

definition ex_world :: world where
  "ex_world = \<lparr>w_lease = ex_held, w_client = \<lparr>c_worker_id = ''w'', c_session_id = ''s''\<rparr>, w_environ = Map.empty,
     w_dir = ''/tmp/r'', w_lost = (\<lambda>_. False), w_deadline = (\<lambda>_. 30), w_now = (\<lambda>_. 0), w_uuid = (\<lambda>_. ex_id 9),
     w_net = (\<lambda>_ _ n q to now. (Reply R_Accepted, now)), w_wake = (\<lambda>_ n t s. t + s), w_up = (\<lambda>_. ex_upload),
     w_file = (\<lambda>_ _. Some [1, 2]), w_download = (\<lambda>_ _. None), w_popen = (\<lambda>_. True), w_poll = (\<lambda>_. Some 0),
     w_lines = (\<lambda>_. []), w_checkpoints = (\<lambda>_. []), w_outputs = (\<lambda>_. [(''/tmp/r/outputs/a.txt'', True, False)]),
     w_reader_alive = (\<lambda>_. False), w_message = (\<lambda>_. [])\<rparr>"

lemma ex_world_ok: "world_ok ex_world 0"
  by (simp add: world_ok_def ex_world_def transport_ok_def)


definition ex_q :: "string option \<Rightarrow> field list \<Rightarrow> wire" where
  "ex_q rid payload = make_request \<lparr>c_worker_id = ''w'', c_session_id = ''s''\<rparr> (ex_id 9) (Some ex_held) 0 rid payload"

definition ex_art :: "string \<Rightarrow> string \<Rightarrow> artifact" where
  "ex_art kind path = uploaded ex_upload (object_key ex_held kind (ex_id 7) (basename path)) (digest [1, 2]) kind"

lemma ex_call: "do_call ex_world m timeout rid payload tr = Some (Go (), tr @ [E_Call m (ex_q rid payload) timeout True])"
  by (simp add: do_call_def ex_world_def ex_q_def call_def call_loop.simps local_deadline_def Let_def)

lemma ex_do_upload: "do_upload ex_world kind path tr = Some (Go (ex_art kind path), tr @ [E_Upload (ex_art kind path)])"
  by (simp add: do_upload_def ex_world_def upload_def ex_upload_def upt_rec Let_def ex_art_def uploaded_def)

lemma ex_world_sel:
  "alive ex_world tr" "w_poll ex_world tr = Some 0" "w_lines ex_world tr = []" "w_checkpoints ex_world tr = []"
  "output_files ex_world tr = [''/tmp/r/outputs/a.txt'']" "w_reader_alive ex_world tr = False" "w_popen ex_world tr"
  "l_checkpoint (h_lease (w_lease ex_world)) = None" "w_deadline ex_world tr = 30" "w_now ex_world tr = 0"
  "w_uuid ex_world tr = ex_id 9" "w_dir ex_world = ''/tmp/r''"
  by (simp_all add: alive_def ex_world_def output_files_def ex_held_def)

lemma ex_progress: "progress ex_world up tr = Some (Go up, tr)"
  by (simp add: progress_def observe_def bindA_def retA_def ex_world_sel Let_def)

lemma ex_report:
  "report_artifacts ex_world [a, b] tr = Some (Go (), tr @ [E_Call ReportProgress (ex_q None [F_artifacts [a, b]]) 10 True])"
  by (simp add: report_artifacts_def chunks_short bindA_def retA_def ex_call)

definition ex_log :: artifact where
  "ex_log = ex_art ''log'' ''/tmp/r/execution.log''"

definition ex_out :: artifact where
  "ex_out = ex_art ''output'' ''/tmp/r/outputs/a.txt''"

definition ex_trace :: "ev list" where
  "ex_trace = [E_Call StartAttempt (ex_q None []) 30 True, E_Spawn [''run''] (make_env ex_world), E_Kill, E_Join,
     E_Upload ex_log, E_Upload ex_out, E_Call ReportProgress (ex_q None [F_artifacts [ex_log, ex_out]]) 10 True,
     E_Call CompleteAttempt (ex_q (Some (ex_id 9)) [F_exit_code 0, F_reason '''']) 10 True, E_Log ''CompleteAttempt'',
     E_Kill, E_Close, E_Done]"

lemma ex_execute: "execute ex_world = Some ex_trace"
  by (simp add: execute_def body_def prepare_env_def spawn_def finish_def drain_reader_def report_final_def
      observe_def bindA_def retA_def emit_def poll_loop.simps ex_world_sel ex_call ex_do_upload ex_progress ex_report
      final_method_def ex_trace_def cleanup_def ex_log_def [symmetric] ex_out_def [symmetric])
    (simp add: ex_world_def ex_held_def ex_row_def ex_job_def)




definition ex_nil_world :: world where
  "ex_nil_world = ex_world\<lparr>w_lease := ex_held\<lparr>h_lease := (h_lease ex_held)\<lparr>l_job := (ex_row LEASED 2)\<lparr>j_def := ex_job\<lparr>Environment := None\<rparr>\<rparr>\<rparr>\<rparr>\<rparr>"

theorem nil_environment_never_runs_witness: "\<exists>tr. execute ex_nil_world = Some tr \<and> \<not> spawned tr"
proof -
  have "world_ok ex_nil_world 0" using ex_world_ok by (simp add: world_ok_def ex_nil_world_def)
  then obtain tr where tr: "execute ex_nil_world = Some tr"
    using execute_returns [of ex_nil_world 0 0] by (auto simp: ex_nil_world_def ex_world_def)
  have "Environment (j_def (l_job (h_lease (w_lease ex_nil_world)))) = None" by (simp add: ex_nil_world_def)
  from nil_environment_never_runs [OF this tr] tr show ?thesis by blast
qed

end
