(* ===== verification/Worker_Threads.thy ===== *)
theory Worker_Threads
  imports Attempt_Ends
begin

text \<open>
  Around the attempt: the environment its command sees, the heartbeat thread, and the worker's
  lease loop.
\<close>

section \<open>The command's environment\<close>

definition worker_vars :: "string set" where
  "worker_vars = {''RUNGRID_JOB_ID'', ''RUNGRID_ATTEMPT_ID'', ''RUNGRID_ATTEMPT_NUMBER'', ''RUNGRID_OUTPUT_DIR'',
     ''RUNGRID_CHECKPOINT_DIR'', ''PYTHONUNBUFFERED'', ''RUNGRID_CHECKPOINT_PATH''}"

lemma make_env_other: "k \<notin> worker_vars \<Longrightarrow> make_env w k = (w_environ w ++ map_of (env_of (j_def (l_job (h_lease (w_lease w)))))) k"
  by (auto simp: make_env_def worker_vars_def Let_def split: option.splits)

lemma make_env_worker:
  "make_env w ''RUNGRID_JOB_ID'' = Some (j_id (l_job (h_lease (w_lease w))))"
  "make_env w ''RUNGRID_ATTEMPT_ID'' = Some (l_attempt (h_lease (w_lease w)))"
  "make_env w ''RUNGRID_ATTEMPT_NUMBER'' = Some (str_int (l_number (h_lease (w_lease w))))"
  "make_env w ''RUNGRID_OUTPUT_DIR'' = Some (w_dir w @ ''/outputs'')"
  "make_env w ''RUNGRID_CHECKPOINT_DIR'' = Some (w_dir w @ ''/checkpoints'')"
  "make_env w ''PYTHONUNBUFFERED'' = Some ''1''"
  "make_env w ''RUNGRID_CHECKPOINT_PATH'' = map_option (\<lambda>_. w_dir w @ ''/resume.json'') (l_checkpoint (h_lease (w_lease w)))"
  by (simp_all add: make_env_def Let_def split: option.splits)


definition ex_env_world :: world where
  "ex_env_world = ex_world\<lparr>w_lease := ex_held\<lparr>h_lease := (h_lease ex_held)\<lparr>l_job := (ex_row LEASED 2)\<lparr>j_def :=
     ex_job\<lparr>Environment := Some [(''SEED'', ''7'')]\<rparr>\<rparr>\<rparr>\<rparr>\<rparr>"


section \<open>The heartbeat thread\<close>

text \<open>A round whose server read its clock after the call began, at a fixed offset from the local clock.\<close>

definition round_ok :: "client \<Rightarrow> held \<Rightarrow> real \<Rightarrow> hb_round \<Rightarrow> bool" where
  "round_ok c l offset i \<longleftrightarrow> (\<forall>timeout r dl expires server. hb_call c l i timeout = Some (Inr (r, dl))
     \<longrightarrow> lease_times r = Some (expires, server) \<longrightarrow> i_call i + offset \<le> server)"

text \<open>\<open>expires\<close> is the expiry in a reply of one of the rounds.\<close>

definition granted :: "client \<Rightarrow> held \<Rightarrow> hb_round list \<Rightarrow> real \<Rightarrow> bool" where
  "granted c l is expires \<longleftrightarrow> (\<exists>i \<in> set is. \<exists>timeout r dl server. hb_call c l i timeout = Some (Inr (r, dl))
     \<and> lease_times r = Some (expires, server))"

lemma hb_call_deadline:
  assumes "hb_call c l i timeout = Some (Inr (r, Some dl))"
  shows "local_deadline (i_call i) r = Some dl"
  using assms by (auto simp: hb_call_def call_def split: option.splits sum.splits)

lemma hb_round_covers:
  assumes "hb_call c l i timeout = Some (Inr (r, Some dl))" "round_ok c l offset i"
  shows "\<exists>expires. granted c l [i] expires \<and> dl + offset < expires - 0.4999"
proof -
  from hb_call_deadline [OF assms(1)] obtain expires server where t: "lease_times r = Some (expires, server)"
    by (auto simp: local_deadline_def split: option.splits)
  then have "i_call i + offset \<le> server" using assms unfolding round_ok_def by blast
  from local_deadline_bound [OF hb_call_deadline [OF assms(1)] t this] t assms(1) show ?thesis
    by (auto simp: granted_def)
qed

lemma renew_covered:
  assumes "renew c l is s = Some (how, evs, s')" "list_all (round_ok c l offset) is"
    and "hb_deadline s + offset < e0 - 0.4999"
  shows "\<exists>expires. (expires = e0 \<or> granted c l is expires) \<and> hb_deadline s' + offset < expires - 0.4999"
  using assms
proof (induction "is" arbitrary: s evs e0)
  case (Cons i rest)
  have mono: "granted c l rest x \<Longrightarrow> granted c l (i # rest) x" "granted c l [i] x \<Longrightarrow> granted c l (i # rest) x" for x
    by (auto simp: granted_def)
  let ?to = "min 2 (max 0.1 (hb_deadline s - i_call i))"
  show ?case
  proof (cases "i_done i \<or> \<not> hb_alive s (i_now i)")
    case True
    with Cons.prems show ?thesis by (auto split: if_splits)
  next
    case False
    then consider r dl where "hb_call c l i ?to = Some (Inr (r, Some dl))" | r where "hb_call c l i ?to = Some (Inr (r, None))"
      | st where "hb_call c l i ?to = Some (Inl st)"
      using Cons.prems(1) by (cases "hb_call c l i ?to" rule: option.exhaust) (auto simp: Let_def, metis option.exhaust sum.exhaust surj_pair)
    then show ?thesis
    proof cases
      case (1 r dl)
      then obtain evs' where "renew c l rest (s\<lparr>hb_deadline := dl\<rparr>) = Some (how, evs', s')"
        using Cons.prems(1) False by (auto simp: Let_def)
      moreover obtain e1 where "granted c l [i] e1" "dl + offset < e1 - 0.4999"
        using hb_round_covers [OF 1] Cons.prems(2) by auto
      ultimately show ?thesis using Cons.IH [of "s\<lparr>hb_deadline := dl\<rparr>" evs' e1] Cons.prems(2) mono by auto
    next
      case (2 r)
      with Cons.prems False show ?thesis by (auto simp: Let_def)
    next
      case (3 st)
      then obtain evs' t where "renew c l rest t = Some (how, evs', s')" "hb_deadline t = hb_deadline s"
        using Cons.prems(1) False by (auto simp: Let_def split: if_splits)
      with Cons.IH [of t evs' e0] Cons.prems(2,3) mono show ?thesis by auto
    qed
  qed
qed auto

text \<open>C21: The worker never outlives its lease. If the deadline the lease loop handed over lies half a second
  before the expiry it was granted, then after any number of heartbeats, whatever their outcomes,
  whenever the worker still believes in its lease, the server's clock is before an expiry
  the server itself granted, by almost half a second.\<close>

theorem heartbeat_within_lease:
  assumes "renew c l is s = Some (how, evs, s')" "list_all (round_ok c l offset) is"
    and "hb_deadline s + offset < e0 - 0.4999"
  shows "\<exists>expires. (expires = e0 \<or> granted c l is expires) \<and> (\<forall>now. hb_alive s' now \<longrightarrow> now + offset < expires - 0.4999)"
  using renew_covered [OF assms] by (fastforce simp: hb_alive_def)

definition ex_client :: client where
  "ex_client = \<lparr>c_worker_id = ''w1'', c_session_id = ''s1''\<rparr>"

definition ex_beat :: "real \<Rightarrow> outcome \<Rightarrow> hb_round" where
  "ex_beat t out = \<lparr>i_done = False, i_now = t, i_call = t, i_uuid = ex_id 30, i_net = (\<lambda>n q to now. (out, now)),
     i_wake = (\<lambda>n now s. now + s), i_process = True\<rparr>"

lemma hb_call_beat:
  "hb_call c l (ex_beat t (Reply r)) timeout = Some (Inr (r, local_deadline t r))"
  "\<not> retryable st \<Longrightarrow> hb_call c l (ex_beat t (RpcError st)) timeout = Some (Inl st)"
  by (simp_all add: hb_call_def ex_beat_def call_def call_loop.simps)

lemma ex_beat_sel [simp]:
  "i_done (ex_beat t out) = False" "i_now (ex_beat t out) = t" "i_call (ex_beat t out) = t" "i_process (ex_beat t out) = True"
  by (simp_all add: ex_beat_def)

theorem heartbeat_within_lease_witness:
  "renew ex_client ex_held [ex_beat 14 (Reply (R_Heartbeat 145 115))] \<lparr>hb_lost = False, hb_deadline = 29\<rparr>
     = Some (H_Waiting, [H_Call 2], \<lparr>hb_lost = False, hb_deadline = 43.5\<rparr>)
   \<and> hb_alive \<lparr>hb_lost = False, hb_deadline = 43.5\<rparr> 43 \<and> 43 + 100 < (145::real) - 0.4999"
proof -
  let ?i = "ex_beat 14 (Reply (R_Heartbeat 145 115))"
  have m: "micros 145 = 145" "micros 115 = 115" by (simp_all add: micros_def)
  have "renew ex_client ex_held [?i] \<lparr>hb_lost = False, hb_deadline = 29\<rparr>
    = Some (H_Waiting, [H_Call 2], \<lparr>hb_lost = False, hb_deadline = 43.5\<rparr>)"
    by (simp add: hb_alive_def hb_call_beat local_deadline_def m Let_def)
  moreover have "round_ok ex_client ex_held 100 ?i" by (simp add: round_ok_def hb_call_beat)
  moreover have "granted ex_client ex_held [?i] e \<Longrightarrow> e = 145" for e by (simp add: granted_def hb_call_beat)
  ultimately show ?thesis
    using heartbeat_within_lease [of ex_client ex_held "[?i]" "\<lparr>hb_lost = False, hb_deadline = 29\<rparr>" H_Waiting "[H_Call 2]"
        "\<lparr>hb_lost = False, hb_deadline = 43.5\<rparr>" 100 130]
    by (auto simp: hb_alive_def)
qed

section \<open>When the server has ended the attempt\<close>

lemma Mutate_fresh_in:
  assumes "receipt s i d = None" "\<And>qs. \<exists>err \<in> E. fn (d\<lparr>requests := qs\<rparr>) = Inl err" "i \<noteq> ''''" "length i \<le> 256"
  shows "\<exists>err \<in> E. Mutate s i h fn d = Inl err"
proof -
  have new: "(s, i) \<notin> receipt_key ` set (requests d)" using assms(1) by (simp add: receipt_None)
  then have look: "lookup_by receipt_key (s, i) (requests d @ [\<lparr>rq_scope = s, rq_id = i, rq_hash = h, rq_response = None\<rparr>])
      = Some \<lparr>rq_scope = s, rq_id = i, rq_hash = h, rq_response = None\<rparr>"
    by (rule lookup_by_append_new) (simp add: receipt_key_def)
  obtain err where "err \<in> E" "fn (d\<lparr>requests := requests d @ [\<lparr>rq_scope = s, rq_id = i, rq_hash = h, rq_response = None\<rparr>]\<rparr>) = Inl err"
    using assms(2) by blast
  with new look assms(3,4) show ?thesis by (auto simp: Mutate_def Let_def bindR_simps)
qed

lemma heartbeat_over:
  assumes wf: "tables_ok d" and ov: "over a d" and r: "AttemptID r = a_id a" "idPattern (a_id a)" "idPattern (LeaseToken r)"
  shows "\<exists>err \<in> {ErrConflict, ErrNotFound}. worker_tx e Heartbeat r d = Inl err"
proof -
  let ?d = "set_worker (WorkerID r) (\<lambda>w. w\<lparr>w_heartbeat := Clk e 0\<rparr>) d"
  have "tables_ok ?d" using wf by (subst wf_set_worker) simp_all
  moreover have "over a ?d" using ov by simp
  ultimately have d: "tables_ok ?d" "over a ?d" by blast+
  have "AttemptID r \<noteq> ''''" using r by (auto simp: idPattern_def)
  moreover have "attempt_tx e Heartbeat r ?d \<in> {Inl ErrConflict, Inl ErrNotFound}"
    using over_get_attempt [OF d] d(2) r by (simp add: attempt_tx_def over_def fence_def split: option.splits)
  ultimately show ?thesis by (auto simp: worker_tx_def Let_def split: option.splits)
qed

definition ids_fit :: "wire \<Rightarrow> bool" where
  "ids_fit q \<longleftrightarrow> q_worker_id q \<noteq> '''' \<and> q_session_id q \<noteq> '''' \<and> length (q_worker_id q) \<le> 256 \<and> length (q_session_id q) \<le> 256
     \<and> q_request_id q \<noteq> '''' \<and> length (q_request_id q) \<le> 256 \<and> idPattern (q_attempt_id q) \<and> idPattern (q_lease_token q)"

lemma serve_over:
  assumes "reachable d" "over a d" "q_attempt_id q = a_id a" "ids_fit q" "q_payload q = []"
    and "receipt (rpc_scope Heartbeat (decode_request q)) (q_request_id q) d = None"
  shows "serve e Heartbeat q d \<in> {RpcError FAILED_PRECONDITION, RpcError NOT_FOUND}"
proof -
  let ?r = "decode_request q"
  have r: "WorkerID ?r = q_worker_id q" "SessionID ?r = q_session_id q" "RequestID ?r = q_request_id q"
    "AttemptID ?r = a_id a" "LeaseToken ?r = q_lease_token q"
    using assms(3,5) by (simp_all add: decode_request_def)
  have "\<exists>err \<in> {ErrConflict, ErrNotFound}. worker_tx e Heartbeat ?r (d\<lparr>requests := qs\<rparr>) = Inl err" for qs
    by (rule heartbeat_over) (use assms reachable_tables_ok [OF assms(1)] r in \<open>auto simp: ids_fit_def\<close>)
  then have "\<exists>err \<in> {ErrConflict, ErrNotFound}. Mutate (rpc_scope Heartbeat ?r) (q_request_id q) h (worker_tx e Heartbeat ?r) d = Inl err" for h
    by (rule Mutate_fresh_in [OF assms(6)]) (use assms(4) in \<open>auto simp: ids_fit_def\<close>)
  then have "\<exists>err \<in> {ErrConflict, ErrNotFound}. RPC e Heartbeat ?r d = Inl err"
    using assms(4) r by (simp add: RPC_def rpc_scope_def ids_fit_def)
  then show ?thesis by (auto simp: serve_def)
qed

lemma hb_call_refused:
  assumes "\<And>timeout now. fst (i_net i 0 (make_request c (i_uuid i) (Some l) 0 None []) timeout now) = RpcError st" "\<not> retryable st"
  shows "hb_call c l i timeout = Some (Inl st)"
proof -
  let ?q = "make_request c (i_uuid i) (Some l) 0 None []"
  let ?to = "send_timeout (q_wait ?q) (i_call i + timeout) (i_call i)"
  obtain t where "i_net i 0 ?q ?to (i_call i) = (RpcError st, t)" using assms(1) by (metis prod.collapse)
  with assms(2) show ?thesis by (simp add: hb_call_def call_def call_loop.simps Let_def)
qed

text \<open>C22: A cancelled job stops on the worker. Once the server has ended the attempt (cancelled, expired,
  or settled), the next heartbeat that reaches it is refused for good, and at the round after that
  the heartbeat thread marks the lease lost, kills the command's process group if it is running,
  and ends.\<close>

theorem ended_attempt_stops_worker:
  assumes "reachable d" "over a d" "l_attempt (h_lease l) = a_id a" "\<not> i_done i" "hb_alive s (i_now i)" "\<not> i_done j"
    and q: "q = make_request c (i_uuid i) (Some l) 0 None []" "ids_fit q"
    and fresh: "receipt (rpc_scope Heartbeat (decode_request q)) (q_request_id q) d = None"
    and net: "\<And>timeout now. fst (i_net i 0 q timeout now) = serve e Heartbeat q d"
  shows "\<exists>timeout. renew c l (i # j # rest) s
    = Some (H_Stopped, H_Call timeout # (if i_process j then [H_Kill] else []), s\<lparr>hb_lost := True\<rparr>)"
proof -
  have "serve e Heartbeat q d \<in> {RpcError FAILED_PRECONDITION, RpcError NOT_FOUND}"
    by (rule serve_over [OF assms(1,2) _ q(2) _ fresh]) (simp_all add: q(1) make_request_def assms(3))
  then obtain st where st: "st = FAILED_PRECONDITION \<or> st = NOT_FOUND" "serve e Heartbeat q d = RpcError st" by auto
  have "hb_call c l i timeout = Some (Inl st)" for timeout
    by (rule hb_call_refused) (use st net q(1) in \<open>auto simp: retryable_def\<close>)
  with assms(4-6) st(1) show ?thesis by (auto simp: Let_def hb_alive_def)
qed

definition ex_late_round :: hb_round where
  "ex_late_round = (ex_beat 1 (RpcError INTERNAL))\<lparr>i_uuid := ''late'', i_net := (\<lambda>n q timeout now. (serve (ex_env 9) Heartbeat q (ex_db 5), now))\<rparr>"

lemma ex_attempt_id: "a_id (ex_attempt st x y) = ex_id 4"
  by (simp add: ex_attempt_def)

theorem ended_attempt_stops_worker_witness:
  "\<exists>timeout. renew ex_client ex_held [ex_late_round, ex_beat 3 (RpcError INTERNAL)] \<lparr>hb_lost = False, hb_deadline = 20\<rparr>
    = Some (H_Stopped, [H_Call timeout, H_Kill], \<lparr>hb_lost = True, hb_deadline = 20\<rparr>)"
proof -
  let ?q = "make_request ex_client ''late'' (Some ex_held) 0 None []"
  have q: "decode_request ?q = \<lparr>RequestID = ''late'', WorkerID = ''w1'', SessionID = ''s1'', AttemptID = ex_id 4, LeaseToken = ex_id 5,
      Hostname = '''', ReqResources = zero_res, ExitCode = 0, Reason = '''', Logs = [], Artifacts = []\<rparr>"
    by (simp add: make_request_def decode_request_def ex_client_def ex_held_def)
  then have "receipt (rpc_scope Heartbeat (decode_request ?q)) ''late'' (ex_db 5) = None"
    using ex_view_done by (simp add: ex_view_def receipt_None rpc_scope_def ex_request_def del: set_map)
  moreover have "ids_fit ?q"
    by (simp add: ids_fit_def make_request_def ex_client_def ex_held_def ex_ids)
  ultimately show ?thesis
    using ended_attempt_stops_worker [OF reachable_ex ex_done_over, of ex_held ex_late_round "\<lparr>hb_lost = False, hb_deadline = 20\<rparr>"
        "ex_beat 3 (RpcError INTERNAL)" ?q ex_client "ex_env 9" "[]"]
    by (simp add: ex_attempt_id ex_late_round_def hb_alive_def ex_held_def make_request_def)
qed

section \<open>The lease loop\<close>

text \<open>The attempts started in a trace whose futures are not done, by their positions.\<close>

definition is_submit :: "rev_ev \<Rightarrow> bool" where
  "is_submit v \<longleftrightarrow> (\<exists>h. v = V_Submit h)"

definition live :: "run_world \<Rightarrow> rev_ev list \<Rightarrow> nat set" where
  "live w tr = {p. p < length tr \<and> is_submit (tr ! p) \<and> \<not> r_done w tr p}"

text \<open>A future that is done stays done.\<close>

definition done_stays :: "run_world \<Rightarrow> bool" where
  "done_stays w \<longleftrightarrow> (\<forall>tr es p. r_done w tr p \<longrightarrow> r_done w (tr @ es) p)"

definition slots_kept :: "run_world \<Rightarrow> rev_ev list \<Rightarrow> bool" where
  "slots_kept w tr \<longleftrightarrow> (\<forall>n < length tr. is_submit (tr ! n) \<longrightarrow> int (card (live w (take n tr))) < CPU (r_resources w))"

definition run_inv :: "run_world \<Rightarrow> nat list \<Rightarrow> rev_ev list \<Rightarrow> bool" where
  "run_inv w futures tr \<longleftrightarrow> live w tr \<subseteq> set futures \<and> slots_kept w tr"

lemma live_quiet:
  assumes "done_stays w" "\<not> list_ex is_submit es"
  shows "live w (tr @ es) \<subseteq> live w tr"
proof -
  have "x \<in> live w tr" if "x \<in> live w (tr @ es)" for x
  proof (cases "x < length tr")
    case True
    with that assms(1) show ?thesis by (auto simp: live_def done_stays_def nth_append)
  next
    case False
    with that have "is_submit (es ! (x - length tr))" "x - length tr < length es" by (auto simp: live_def nth_append)
    with assms(2) show ?thesis by (auto simp: list_ex_iff)
  qed
  then show ?thesis by blast
qed

lemma slots_kept_quiet:
  assumes "slots_kept w tr" "\<not> list_ex is_submit es"
  shows "slots_kept w (tr @ es)"
  using assms by (force simp: slots_kept_def nth_append list_ex_iff)

lemma run_inv_quiet:
  assumes "done_stays w" "run_inv w futures tr" "\<not> list_ex is_submit es"
  shows "run_inv w futures (tr @ es)"
  using assms live_quiet slots_kept_quiet unfolding run_inv_def by blast

lemma run_inv_submit:
  assumes ds: "done_stays w" and inv: "run_inv w futures tr" and free: "int (length futures) < CPU (r_resources w)"
  shows "run_inv w (futures @ [length tr]) (tr @ [V_Submit h])"
proof -
  have "card (live w tr) \<le> length futures"
    using inv by (meson card_length card_mono finite_set le_trans run_inv_def)
  then have "slots_kept w (tr @ [V_Submit h])"
    using inv free by (auto simp: run_inv_def slots_kept_def nth_append less_Suc_eq)
  moreover have "live w (tr @ [V_Submit h]) \<subseteq> insert (length tr) (live w tr)"
    using ds by (auto simp: live_def done_stays_def nth_append split: if_splits)
  ultimately show ?thesis using inv by (auto simp: run_inv_def)
qed

lemma run_call_trace:
  assumes "run_call w m timeout wait payload tr = Some (v, tr')"
  shows "\<exists>q. tr' = tr @ [V_Call m q timeout (\<not> isl v)] \<and> q_payload q = payload \<and> q_wait q = wait"
  using assms by (auto simp: run_call_def Let_def make_request_def)

lemma quiet_events [simp]:
  "\<not> is_submit (V_Call m q t b)" "\<not> is_submit (V_Log s)" "\<not> is_submit (V_Wait t)" "is_submit (V_Submit h)"
  by (simp_all add: is_submit_def)

lemma run_inv_filter: "run_inv w futures tr \<Longrightarrow> run_inv w (filter (\<lambda>f. \<not> r_done w tr f) futures) tr"
  by (auto simp: run_inv_def live_def)

lemma lease_round_inv:
  assumes ds: "done_stays w" and inv: "run_inv w futures tr" and r: "lease_round w futures hb tr = Some (futures', hb', tr')"
  shows "run_inv w futures' tr' \<and> strict_prefix tr tr'"
proof (cases "int (length futures) \<ge> CPU (r_resources w)")
  case True
  with r run_inv_quiet [OF ds inv, of "[V_Wait 0.1]"] show ?thesis by (auto simp: lease_round_def strict_prefix_def)
next
  case False
  then obtain v tr1 where c: "run_call w LeaseJob 5 2 [] tr = Some (v, tr1)"
    using r by (auto simp: lease_round_def)
  from run_call_trace [OF c] obtain q where tr1: "tr1 = tr @ [V_Call LeaseJob q 5 (\<not> isl v)]" by blast
  have inv1: "run_inv w futures tr1" using run_inv_quiet [OF ds inv, of "[V_Call LeaseJob q 5 (\<not> isl v)]"] by (simp add: tr1)
  from inv1 have "run_inv w futures (tr1 @ [V_Log s, V_Wait t])" "run_inv w futures (tr1 @ [V_Wait t])"
    "run_inv w (futures @ [length tr1]) (tr1 @ [V_Submit h])" for s t h
    using run_inv_quiet [OF ds inv1] run_inv_submit [OF ds inv1] False by simp_all
  with False r show ?thesis
    by (auto simp: lease_round_def c unavailable_def tr1 strict_prefix_def split: sum.splits prod.splits response.splits option.splits)
qed

lemma run_round_inv:
  assumes ds: "done_stays w" and inv: "run_inv w futures tr" and r: "run_round w futures hb tr = Some (futures', hb', tr')"
  shows "run_inv w futures' tr' \<and> strict_prefix tr tr'"
proof -
  let ?fs = "filter (\<lambda>f. \<not> r_done w tr f) futures"
  have inv': "run_inv w ?fs tr" by (rule run_inv_filter [OF inv])
  show ?thesis
  proof (cases "r_now w tr - hb > 3")
    case False
    with r have "lease_round w ?fs hb tr = Some (futures', hb', tr')" by (simp add: run_round_def Let_def)
    then show ?thesis by (rule lease_round_inv [OF ds inv'])
  next
    case True
    then obtain v tr1 where c: "run_call w Heartbeat 3 0 [] tr = Some (v, tr1)"
      using r by (cases "run_call w Heartbeat 3 0 [] tr") (auto simp: run_round_def Let_def)
    from run_call_trace [OF c] obtain q where tr1: "tr1 = tr @ [V_Call Heartbeat q 3 (\<not> isl v)]" by blast
    have inv1: "run_inv w ?fs tr1" using run_inv_quiet [OF ds inv', of "[V_Call Heartbeat q 3 (\<not> isl v)]"] by (simp add: tr1)
    show ?thesis
    proof (cases v)
      case (Inl s)
      with True c r run_inv_quiet [OF ds inv1, of "[V_Log ''control plane unavailable'', V_Wait 1]"]
      show ?thesis by (auto simp: run_round_def Let_def unavailable_def tr1 strict_prefix_def)
    next
      case (Inr x)
      with True c r have "lease_round w ?fs (r_now w tr1) tr1 = Some (futures', hb', tr')" by (simp add: run_round_def Let_def)
      from lease_round_inv [OF ds inv1 this] show ?thesis by (auto simp: tr1 strict_prefix_def prefix_def)
    qed
  qed
qed

lemma run_loop_inv:
  assumes "run_loop w futures hb tr = Some y" "done_stays w" "run_inv w futures tr"
  shows "run_inv w (fst y) (snd y) \<and> r_stopping w (snd y) \<and> prefix tr (snd y)"
  using assms(2-)
proof (induction rule: run_loop.raw_induct [OF _ assms(1)])
  case (1 loop w futures hb tr y)
  show ?case
  proof (cases "r_stopping w tr")
    case False
    with 1(2) obtain fs hb' tr' where r: "run_round w futures hb tr = Some (fs, hb', tr')" "loop w fs hb' tr' = Some y"
      by (cases "run_round w futures hb tr") auto
    from run_round_inv [OF 1(3,4) r(1)] 1(1) [OF r(2) 1(3)] show ?thesis
      by (meson prefix_order.less_imp_le prefix_order.trans)
  qed (use 1 in auto)
qed

lemma slots_kept_snoc: "slots_kept w tr \<Longrightarrow> \<not> is_submit v \<Longrightarrow> slots_kept w (tr @ [v])"
  using slots_kept_quiet [of w tr "[v]"] by simp

text \<open>C29: The lease loop keeps to its slots. The worker registers before anything else, and whenever it starts
  an attempt, fewer of its attempts are still running than it registered CPUs, however the
  network, the clock and the attempts behave; a run that returns normally stopped because it was
  told to and has released the worker as its last call.\<close>

theorem run_keeps_slots:
  assumes "run w = Some (v, tr)" "done_stays w"
  shows "(\<exists>q b. tr ! 0 = V_Call RegisterWorker q 60 b \<and> F_resources (r_resources w) \<in> set (q_payload q))
    \<and> (\<forall>n < length tr. is_submit (tr ! n) \<longrightarrow> int (card (live w (take n tr))) < CPU (r_resources w))
    \<and> (v = Inr () \<longrightarrow> (\<exists>pre q. tr = pre @ [V_Call ReleaseWorker q 5 True] \<and> r_stopping w pre))"
proof -
  let ?reg = "[F_hostname (r_hostname w), F_resources (r_resources w)]"
  from assms(1) obtain x tr0 where c: "run_call w RegisterWorker 60 0 ?reg [] = Some (x, tr0)"
    by (cases "run_call w RegisterWorker 60 0 ?reg []") (auto simp: run_def)
  from run_call_trace [OF c] obtain q where tr0: "tr0 = [V_Call RegisterWorker q 60 (\<not> isl x)]" "q_payload q = ?reg" by auto
  have start: "run_inv w [] (tr0 @ [V_Log ''registered''])"
    by (auto simp: run_inv_def live_def slots_kept_def tr0 less_Suc_eq nth_Cons')
  show ?thesis
  proof (cases x)
    case (Inl s)
    with assms(1) c have "tr = tr0" "v = Inl s" by (auto simp: run_def)
    then show ?thesis by (auto simp: tr0)
  next
    case (Inr y)
    with assms(1) c obtain futures tr1 z where l: "run_loop w [] 0 (tr0 @ [V_Log ''registered'']) = Some (futures, tr1)"
      and rel: "run_call w ReleaseWorker 5 0 [] tr1 = Some (z, tr)" "v = map_sum id (\<lambda>_. ()) z"
      by (cases "run_loop w [] 0 (tr0 @ [V_Log ''registered''])") (auto simp: run_def)
    from run_loop_inv [OF l assms(2) start] have tr1: "slots_kept w tr1" "r_stopping w tr1" "prefix (tr0 @ [V_Log ''registered'']) tr1"
      by (auto simp: run_inv_def)
    from run_call_trace [OF rel(1)] obtain q' where tr: "tr = tr1 @ [V_Call ReleaseWorker q' 5 (\<not> isl z)]" by blast
    from tr1(3) have "tr ! 0 = tr0 ! 0" by (auto simp: prefix_def tr tr0)
    moreover have "slots_kept w tr" using slots_kept_snoc [OF tr1(1)] by (simp add: tr)
    moreover have "v = Inr () \<Longrightarrow> tr = tr1 @ [V_Call ReleaseWorker q' 5 True]" using rel(2) by (cases z) (auto simp: tr)
    ultimately show ?thesis using tr0 tr1(2) by (auto simp: slots_kept_def)
  qed
qed

definition ex_run :: run_world where
  "ex_run = \<lparr>r_client = ex_client, r_resources = \<lparr>CPU = 1, MemoryMB = 100, GPU = 0\<rparr>, r_hostname = ''host'',
     r_stopping = (\<lambda>tr. length tr \<ge> 5), r_done = (\<lambda>tr p. False), r_now = (\<lambda>tr. 0), r_uuid = (\<lambda>tr. ex_id 8),
     r_net = (\<lambda>tr m n q timeout now. (if m = LeaseJob then Reply (R_Lease (h_lease ex_held)) else Reply R_Accepted, now)),
     r_wake = (\<lambda>tr n now s. now + s)\<rparr>"

definition ex_run_q :: "int \<Rightarrow> field list \<Rightarrow> wire" where
  "ex_run_q wait payload = make_request ex_client (ex_id 8) None wait None payload"

definition ex_run_trace :: "rev_ev list" where
  "ex_run_trace = [V_Call RegisterWorker (ex_run_q 0 [F_hostname ''host'', F_resources (r_resources ex_run)]) 60 True,
     V_Log ''registered'', V_Call LeaseJob (ex_run_q 2 []) 5 True,
     V_Submit \<lparr>h_lease = h_lease ex_held, h_deadline = the (local_deadline 0 (R_Lease (h_lease ex_held)))\<rparr>,
     V_Wait 0.1, V_Call ReleaseWorker (ex_run_q 0 []) 5 True]"

lemma ex_run_sel:
  "r_stopping ex_run = (\<lambda>tr. length tr \<ge> 5)" "r_done ex_run = (\<lambda>tr p. False)" "r_now ex_run = (\<lambda>tr. 0)"
  "CPU (r_resources ex_run) = 1" "r_hostname ex_run = ''host''"
  by (simp_all add: ex_run_def)

lemma ex_run_call:
  "run_call ex_run m timeout wait payload tr = Some (let r = (if m = LeaseJob then R_Lease (h_lease ex_held) else R_Accepted) in
     (Inr (r, local_deadline 0 r), tr @ [V_Call m (ex_run_q wait payload) timeout True]))"
  by (simp add: run_call_def ex_run_def ex_run_q_def call_def call_loop.simps Let_def)

lemma ex_run_runs: "run ex_run = Some (Inr (), ex_run_trace)"
  by (simp add: run_def ex_run_call run_loop.simps ex_run_sel run_round_def lease_round_def ex_run_trace_def Let_def local_deadline_def)

theorem run_keeps_slots_witness:
  "run ex_run = Some (Inr (), ex_run_trace) \<and> is_submit (ex_run_trace ! 3) \<and> card (live ex_run (take 3 ex_run_trace)) < 1"
proof -
  have "done_stays ex_run" by (simp add: done_stays_def ex_run_sel)
  moreover have "is_submit (ex_run_trace ! 3)" "3 < length ex_run_trace" by (simp_all add: ex_run_trace_def)
  ultimately show ?thesis using run_keeps_slots [OF ex_run_runs] ex_run_runs by (auto simp: ex_run_sel)
qed

lemma run_call_returns:
  assumes "\<And>tr m. transport_ok (r_net w tr m) (r_wake w tr) slack" "0 \<le> timeout"
  shows "\<exists>v q. run_call w m timeout wait payload tr = Some (v, tr @ [V_Call m q timeout (\<not> isl v)])"
  using call_returns [OF assms, of tr m] by (fastforce simp: run_call_def Let_def)

lemma run_round_returns:
  assumes net: "\<And>tr m. transport_ok (r_net w tr m) (r_wake w tr) slack"
  shows "\<exists>futures' hb' es. run_round w futures hb tr = Some (futures', hb', tr @ es) \<and> es \<noteq> []"
proof -
  have lease: "\<exists>futures' hb' es. lease_round w fs hb tr = Some (futures', hb', tr @ es) \<and> es \<noteq> []" for fs hb tr
  proof (cases "int (length fs) \<ge> CPU (r_resources w)")
    case False
    obtain v q where "run_call w LeaseJob 5 2 [] tr = Some (v, tr @ [V_Call LeaseJob q 5 (\<not> isl v)])"
      using run_call_returns [OF net, of 5] by fastforce
    with False show ?thesis
      by (auto simp: lease_round_def unavailable_def split: sum.splits prod.splits response.splits option.splits)
  qed (simp add: lease_round_def)
  obtain v q where c: "run_call w Heartbeat 3 0 [] tr = Some (v, tr @ [V_Call Heartbeat q 3 (\<not> isl v)])"
    using run_call_returns [OF net, of 3] by fastforce
  have "\<exists>futures' hb' es. lease_round w fs t (tr @ [e]) = Some (futures', hb', tr @ es) \<and> es \<noteq> []" for fs t e
    using lease [of fs t "tr @ [e]"] by auto
  with lease [of "filter (\<lambda>f. \<not> r_done w tr f) futures" hb tr] c show ?thesis
    by (auto simp: run_round_def Let_def unavailable_def split: sum.splits)
qed

lemma run_loop_returns:
  assumes net: "\<And>tr m. transport_ok (r_net w tr m) (r_wake w tr) slack" and stop: "\<And>tr. n \<le> length tr \<Longrightarrow> r_stopping w tr"
  shows "\<exists>y. run_loop w futures hb tr = Some y"
proof (induction "n - length tr" arbitrary: futures hb tr rule: less_induct)
  case less
  show ?case
  proof (cases "r_stopping w tr")
    case False
    then have "length tr < n" using stop by (meson not_le)
    moreover obtain fs hb' es where "run_round w futures hb tr = Some (fs, hb', tr @ es)" "es \<noteq> []"
      using run_round_returns [OF net] by blast
    ultimately show ?thesis using less [of "tr @ es" fs hb'] False by (subst run_loop.simps) (auto simp: diff_less_mono2)
  qed (simp add: run_loop.simps)
qed

text \<open>The lease loop ends when told to. With a network that answers or times out, and a stop request that
  arrives at some point, the worker's run returns, either with the error of its registration or
  release, or normally.\<close>

lemma run_ends:
  assumes net: "\<And>tr m. transport_ok (r_net w tr m) (r_wake w tr) slack" and stop: "\<And>tr. n \<le> length tr \<Longrightarrow> r_stopping w tr"
  shows "\<exists>v tr. run w = Some (v, tr)"
proof -
  obtain x q where reg: "run_call w RegisterWorker 60 0 [F_hostname (r_hostname w), F_resources (r_resources w)] []
      = Some (x, [V_Call RegisterWorker q 60 (\<not> isl x)])"
    using run_call_returns [OF net, of 60 RegisterWorker 0 _ "[]"] by fastforce
  obtain fs tr where "run_loop w [] 0 ([V_Call RegisterWorker q 60 (\<not> isl x)] @ [V_Log ''registered'']) = Some (fs, tr)"
    using run_loop_returns [OF net stop] by (metis surj_pair)
  moreover obtain z q' where "run_call w ReleaseWorker 5 0 [] tr = Some (z, tr @ [V_Call ReleaseWorker q' 5 (\<not> isl z)])"
    using run_call_returns [OF net, of 5] by fastforce
  ultimately show ?thesis using reg by (cases x) (auto simp: run_def)
qed

theorem run_ends_witness: "\<exists>v tr. run ex_run = Some (v, tr)"
  by (rule run_ends [of ex_run 0 5]) (auto simp: transport_ok_def ex_run_def)

end
