(* ===== verification/Sdk.thy ===== *)
theory Sdk
  imports Json Worker_Threads
begin

text \<open>
  The Python SDK a command uses: checkpoints and outputs (\<open>sdk/python/rungrid/checkpoint.py\<close>), and the
  checkpointed counter of the examples (\<open>examples/checkpoint_counter.py\<close>). Paths are joined with a slash; the directories the worker hands out have no trailing slash.
\<close>

section \<open>Files\<close>

text \<open>A file has the content a reader sees and the content a power loss leaves.\<close>

record fs_file =
  content :: pystr
  synced :: pystr

record fs =
  dirs :: "string set"
  files :: "string \<Rightarrow> fs_file option"

datatype fs_op = Mkdir string | Create string | Append string pystr | Fsync string | Replace string string

definition parents :: "string \<Rightarrow> string list" where
  "parents p = map (\<lambda>i. take i p) (filter (\<lambda>i. 0 < i \<and> p ! i = CHR ''/'') [0..<length p])"

fun fs_step :: "fs_op \<Rightarrow> fs \<Rightarrow> fs" where
  "fs_step (Mkdir p) s = s\<lparr>dirs := dirs s \<union> set (p # parents p)\<rparr>"
| "fs_step (Create p) s = s\<lparr>files := (files s)(p \<mapsto> \<lparr>content = [], synced = []\<rparr>)\<rparr>"
| "fs_step (Append p t) s = s\<lparr>files := (files s)(p := map_option (\<lambda>f. f\<lparr>content := content f @ t\<rparr>) (files s p))\<rparr>"
| "fs_step (Fsync p) s = s\<lparr>files := (files s)(p := map_option (\<lambda>f. f\<lparr>synced := content f\<rparr>) (files s p))\<rparr>"
| "fs_step (Replace p q) s = s\<lparr>files := (files s)(q := files s p, p := None)\<rparr>"

definition run_ops :: "fs_op list \<Rightarrow> fs \<Rightarrow> fs" where
  "run_ops = fold fs_step"

definition path_join :: "string \<Rightarrow> string \<Rightarrow> string" where
  "path_join d n = d @ ''/'' @ n"

text \<open>\<open>PurePath.with_suffix\<close> on a file name.\<close>

definition stem :: "string \<Rightarrow> string" where
  "stem n = (let r = dropWhile (\<lambda>c. c \<noteq> CHR ''.'') (rev n) in if length r \<le> 1 then n else rev (tl r))"

definition with_suffix :: "string \<Rightarrow> string \<Rightarrow> string" where
  "with_suffix n suf = stem n @ suf"

section \<open>Checkpoints\<close>

datatype sdk_error = KeyError | ValueError | TypeError | FileNotFound | UsageError | ImportFailed | Raised

type_synonym environ = "string \<Rightarrow> string option"

definition output_dir :: "environ \<Rightarrow> sdk_error + fs_op list \<times> string" where
  "output_dir env = (case env ''RUNGRID_OUTPUT_DIR'' of None \<Rightarrow> Inl KeyError | Some d \<Rightarrow> Inr ([Mkdir d], d))"

definition resume_path :: "environ \<Rightarrow> string option" where
  "resume_path env = (case env ''RUNGRID_CHECKPOINT_PATH'' of None \<Rightarrow> None | Some v \<Rightarrow> if v = '''' then None else Some v)"

text \<open>\<open>pieces\<close> is how the text reaches the file, in pieces chosen by the stream's buffer.\<close>

definition checkpoint :: "environ \<Rightarrow> string \<Rightarrow> (pystr \<Rightarrow> pystr list) \<Rightarrow> json \<Rightarrow> sdk_error + fs_op list \<times> string" where
  "checkpoint env uuid pieces state =
    (case env ''RUNGRID_CHECKPOINT_DIR'' of None \<Rightarrow> Inl KeyError
     | Some directory \<Rightarrow>
         let name = uuid @ ''.json''; target = path_join directory name;
             temporary = path_join directory (with_suffix name ''.tmp'') in
         Inr ([Mkdir directory, Create temporary] @ map (Append temporary) (pieces (dumps state))
              @ [Fsync temporary, Replace temporary target], target))"

lemma with_suffix_json: "CHR ''.'' \<notin> set uuid \<Longrightarrow> uuid \<noteq> '''' \<Longrightarrow> with_suffix (uuid @ ''.json'') ''.tmp'' = uuid @ ''.tmp''"
  by (simp add: with_suffix_def stem_def Let_def)

lemma appends:
  assumes "files s p = Some f"
  shows "files (fold fs_step (map (Append p) ts) s) p = Some (f\<lparr>content := content f @ concat ts\<rparr>)
    \<and> (\<forall>q. q \<noteq> p \<longrightarrow> files (fold fs_step (map (Append p) ts) s) q = files s q)"
  using assms
proof (induction ts arbitrary: s f)
  case (Cons t ts)
  show ?case using Cons.IH [of "fs_step (Append p t) s" "f\<lparr>content := content f @ t\<rparr>"] Cons.prems by auto
qed simp

text \<open>A list of operations that writes one path only.\<close>

fun writes :: "fs_op \<Rightarrow> string set" where
  "writes (Mkdir p) = {}"
| "writes (Create p) = {p}"
| "writes (Append p t) = {p}"
| "writes (Fsync p) = {p}"
| "writes (Replace p q) = {p, q}"

lemma files_frame: "p \<notin> (\<Union>o' \<in> set ops. writes o') \<Longrightarrow> files (fold fs_step ops s) p = files s p"
proof (induction ops arbitrary: s)
  case (Cons a ops)
  have "files (fs_step a s) p = files s p" using Cons.prems by (cases a) auto
  with Cons show ?case by auto
qed simp

lemma checkpoint_done:
  assumes "concat ts = txt0" "tmp \<noteq> target"
  shows "files (run_ops ([Mkdir d, Create tmp] @ map (Append tmp) ts @ [Fsync tmp, Replace tmp target]) s)
    = (files s)(target \<mapsto> \<lparr>content = txt0, synced = txt0\<rparr>, tmp := None)"
proof -
  let ?s = "fs_step (Create tmp) (fs_step (Mkdir d) s)"
  have "files ?s tmp = Some \<lparr>content = [], synced = []\<rparr>" by simp
  from appends [OF this, of ts] assms show ?thesis by (auto simp: run_ops_def fun_eq_iff)
qed

lemma take_but_last: "n < length (xs @ [y]) \<Longrightarrow> set (take n (xs @ [y])) \<subseteq> set xs"
  by (auto dest: in_set_takeD)

lemma checkpoint_published:
  assumes "checkpoint env uuid pieces state = Inr (ops, target)" "\<And>t. concat (pieces t) = t"
    and "CHR ''.'' \<notin> set uuid" "uuid \<noteq> ''''" "json_ok state"
  shows "(\<forall>n p. suffix ''.json'' p \<longrightarrow> files (run_ops (take n ops) s) p = files s p
      \<or> p = target \<and> files (run_ops (take n ops) s) p = Some \<lparr>content = dumps state, synced = dumps state\<rparr>)
    \<and> (\<exists>d. env ''RUNGRID_CHECKPOINT_DIR'' = Some d \<and> target = path_join d (uuid @ ''.json'')
      \<and> files (run_ops ops s) = (files s)(target \<mapsto> \<lparr>content = dumps state, synced = dumps state\<rparr>,
           path_join d (uuid @ ''.tmp'') := None))
    \<and> loads (dumps state) = Some state"
proof -
  from assms(1) obtain d where d: "env ''RUNGRID_CHECKPOINT_DIR'' = Some d" by (auto simp: checkpoint_def split: option.splits)
  let ?tmp = "path_join d (uuid @ ''.tmp'')" and ?w = "map (Append (path_join d (uuid @ ''.tmp''))) (pieces (dumps state))"
  have target: "target = path_join d (uuid @ ''.json'')"
    and ops: "ops = [Mkdir d, Create ?tmp] @ ?w @ [Fsync ?tmp, Replace ?tmp target]"
    using assms(1,3,4) d by (auto simp: checkpoint_def Let_def with_suffix_json)
  have ne: "?tmp \<noteq> target" by (simp add: target path_join_def)
  have fin: "files (run_ops ops s) = (files s)(target \<mapsto> \<lparr>content = dumps state, synced = dumps state\<rparr>, ?tmp := None)"
    unfolding ops by (rule checkpoint_done [OF assms(2) ne])
  have "files (run_ops (take n ops) s) p = files s p
      \<or> p = target \<and> files (run_ops (take n ops) s) p = Some \<lparr>content = dumps state, synced = dumps state\<rparr>"
    if "suffix ''.json'' p" for n p
  proof -
    have tmp: "p \<noteq> ?tmp" using that by (auto simp: path_join_def suffix_def append_eq_append_conv2 Cons_eq_append_conv)
    let ?head = "[Mkdir d, Create ?tmp] @ ?w @ [Fsync ?tmp]"
    show ?thesis
    proof (cases "n < length ops")
      case True
      then have "set (take n ops) \<subseteq> set ?head" using take_but_last [of n ?head "Replace ?tmp target"] by (simp add: ops)
      with tmp have "p \<notin> (\<Union>o' \<in> set (take n ops). writes o')" by (auto dest!: subsetD)
      then show ?thesis by (simp add: run_ops_def files_frame)
    next
      case False
      with tmp fin show ?thesis by auto
    qed
  qed
  with d target fin loads_dumps [OF assms(5)] show ?thesis by auto
qed

text \<open>C31: A checkpoint is published atomically. However the text reaches the disk and wherever the command or the
  machine stops, every \<open>.json\<close> path of the file system either is as it was, or is the new target
  with the whole checkpoint both readable and on disk; a finished call leaves exactly that file and
  no temporary one, and reading it back gives the state.\<close>

theorem checkpoint_atomic:
  assumes "checkpoint env uuid pieces state = Inr (ops, target)" "\<And>t. concat (pieces t) = t"
    and "CHR ''.'' \<notin> set uuid" "uuid \<noteq> ''''" "json_ok state"
  shows "(\<forall>n p. suffix ''.json'' p \<longrightarrow> files (run_ops (take n ops) s) p = files s p
      \<or> p = target \<and> files (run_ops (take n ops) s) p = Some \<lparr>content = dumps state, synced = dumps state\<rparr>)
    \<and> (\<exists>d. env ''RUNGRID_CHECKPOINT_DIR'' = Some d \<and> target = path_join d (uuid @ ''.json'')
      \<and> files (run_ops ops s) = (files s)(target \<mapsto> \<lparr>content = dumps state, synced = dumps state\<rparr>,
           path_join d (uuid @ ''.tmp'') := None))
    \<and> loads (dumps state) = Some state"
  by (rule checkpoint_published [OF assms])

theorem checkpoint_atomic_witness:
  "files (run_ops (fst (projr (checkpoint [''RUNGRID_CHECKPOINT_DIR'' \<mapsto> ''/w''] ''u1'' (\<lambda>t. [take 3 t, drop 3 t])
       (J_Obj [(asc ''step'', J_Int 1)])))) \<lparr>dirs = {}, files = Map.empty\<rparr>) ''/w/u1.json''
    = Some \<lparr>content = dumps (J_Obj [(asc ''step'', J_Int 1)]), synced = dumps (J_Obj [(asc ''step'', J_Int 1)])\<rparr>"
proof -
  let ?st = "J_Obj [(asc ''step'', J_Int 1)]" and ?env = "[''RUNGRID_CHECKPOINT_DIR'' \<mapsto> ''/w'']"
  obtain ops where c: "checkpoint ?env ''u1'' (\<lambda>t. [take 3 t, drop 3 t]) ?st = Inr (ops, ''/w/u1.json'')"
    by (simp add: checkpoint_def Let_def path_join_def)
  have "json_ok ?st" by (simp add: scalar_value_def)
  with checkpoint_atomic [OF c, of "\<lparr>dirs = {}, files = Map.empty\<rparr>"] show ?thesis by (auto simp: c path_join_def simp del: dumps.simps asc_simps)
qed

section \<open>The checkpointed counter\<close>

definition step_state :: "int \<Rightarrow> json" where
  "step_state k = J_Obj [(asc ''step'', J_Int k)]"

definition get_item :: "pystr \<Rightarrow> json \<Rightarrow> sdk_error + json" where
  "get_item k v = (case v of J_Obj kvs \<Rightarrow> (case map_of kvs k of None \<Rightarrow> Inl KeyError | Some w \<Rightarrow> Inr w) | _ \<Rightarrow> Inl TypeError)"

definition as_index :: "json \<Rightarrow> sdk_error + int" where
  "as_index v = (case v of J_Int i \<Rightarrow> Inr i | J_Bool b \<Rightarrow> Inr (of_bool b) | _ \<Rightarrow> Inl TypeError)"

definition read_json :: "string \<Rightarrow> fs \<Rightarrow> sdk_error + json" where
  "read_json p s = (case files s p of None \<Rightarrow> Inl FileNotFound
     | Some f \<Rightarrow> (case loads (content f) of None \<Rightarrow> Inl ValueError | Some v \<Rightarrow> Inr v))"

definition counter_start :: "environ \<Rightarrow> fs \<Rightarrow> sdk_error + int" where
  "counter_start env s = bindR (case resume_path env of None \<Rightarrow> Inr (step_state 0) | Some p \<Rightarrow> read_json p s) (\<lambda>state.
     bindR (get_item (asc ''step'') state) as_index)"

text \<open>The loop over \<open>range(state["step"], 20)\<close> with \<open>n\<close> steps to go; sleeping and printing are left out. The
  first component is what was written, also when a step raised.\<close>

fun counter_loop :: "environ \<Rightarrow> (int \<Rightarrow> string) \<Rightarrow> (pystr \<Rightarrow> pystr list) \<Rightarrow> nat \<Rightarrow> int \<Rightarrow> fs_op list \<times> (sdk_error + unit)" where
  "counter_loop env uuid pieces 0 step = ([], Inr ())"
| "counter_loop env uuid pieces (Suc n) step =
    (case checkpoint env (uuid step) pieces (step_state (step + 1)) of
       Inl e \<Rightarrow> ([], Inl e)
     | Inr (ops, _) \<Rightarrow> apfst ((@) ops) (counter_loop env uuid pieces n (step + 1)))"

definition write_text :: "string \<Rightarrow> pystr \<Rightarrow> fs_op list" where
  "write_text p t = [Create p, Append p t]"

definition counter :: "environ \<Rightarrow> (int \<Rightarrow> string) \<Rightarrow> (pystr \<Rightarrow> pystr list) \<Rightarrow> fs \<Rightarrow> fs_op list \<times> (sdk_error + unit)" where
  "counter env uuid pieces s =
    (case counter_start env s of Inl e \<Rightarrow> ([], Inl e)
     | Inr k \<Rightarrow>
       (case counter_loop env uuid pieces (nat (20 - k)) k of
          (ops, Inl e) \<Rightarrow> (ops, Inl e)
        | (ops, Inr _) \<Rightarrow>
            (case output_dir env of Inl e \<Rightarrow> (ops, Inl e)
             | Inr (mk, d) \<Rightarrow> (ops @ mk @ write_text (path_join d ''metrics.json'')
                 (dumps (J_Obj [(asc ''completed_steps'', J_Int 20)])), Inr ()))))"

lemma json_ok_step: "json_ok (step_state k)"
  by (simp add: step_state_def scalar_value_def)

text \<open>A command's surroundings as the worker makes them, with unique names for its files.\<close>

definition counter_env :: "environ \<Rightarrow> (int \<Rightarrow> string) \<Rightarrow> (pystr \<Rightarrow> pystr list) \<Rightarrow> string \<Rightarrow> string \<Rightarrow> bool" where
  "counter_env env uuid pieces d out \<longleftrightarrow> env ''RUNGRID_CHECKPOINT_DIR'' = Some d \<and> env ''RUNGRID_OUTPUT_DIR'' = Some out
     \<and> (\<forall>t. concat (pieces t) = t) \<and> (\<forall>k. uuid k \<noteq> '''' \<and> CHR ''.'' \<notin> set (uuid k))"

lemma counter_step:
  assumes "counter_env env uuid pieces d out"
  obtains ops where "checkpoint env (uuid k) pieces v = Inr (ops, path_join d (uuid k @ ''.json''))"
    "\<And>n p s. json_ok v \<Longrightarrow> suffix ''.json'' p \<Longrightarrow> files (run_ops (take n ops) s) p = files s p
      \<or> p = path_join d (uuid k @ ''.json'') \<and> files (run_ops (take n ops) s) p = Some \<lparr>content = dumps v, synced = dumps v\<rparr>"
proof -
  obtain ops where ops: "checkpoint env (uuid k) pieces v = Inr (ops, path_join d (uuid k @ ''.json''))"
    using assms by (auto simp: counter_env_def checkpoint_def Let_def)
  from checkpoint_published [OF this] assms that [OF ops] show thesis by (auto simp: counter_env_def)
qed

lemma run_ops_append [simp]: "run_ops (xs @ ys) s = run_ops ys (run_ops xs s)"
  by (simp add: run_ops_def)

definition published :: "string \<Rightarrow> (int \<Rightarrow> string) \<Rightarrow> int \<Rightarrow> string \<Rightarrow> fs_file option \<Rightarrow> bool" where
  "published d uuid lo p f \<longleftrightarrow> (\<exists>k. lo < k \<and> k \<le> 20 \<and> p = path_join d (uuid (k - 1) @ ''.json'')
     \<and> f = Some \<lparr>content = dumps (step_state k), synced = dumps (step_state k)\<rparr>)"

lemma counter_loop_prefix:
  assumes env: "counter_env env uuid pieces d out" and p: "suffix ''.json'' p" and "step + int n \<le> 20"
  shows "snd (counter_loop env uuid pieces n step) = Inr ()
    \<and> (\<forall>m. let f = files (run_ops (take m (fst (counter_loop env uuid pieces n step))) s) p in f = files s p \<or> published d uuid step p f)"
  using assms(3)
proof (induction n arbitrary: step s)
  case (Suc n)
  obtain ops where ops: "checkpoint env (uuid step) pieces (step_state (step + 1)) = Inr (ops, path_join d (uuid step @ ''.json''))"
    and pre: "\<And>m s. files (run_ops (take m ops) s) p = files s p
      \<or> p = path_join d (uuid step @ ''.json'') \<and> files (run_ops (take m ops) s) p
          = Some \<lparr>content = dumps (step_state (step + 1)), synced = dumps (step_state (step + 1))\<rparr>"
    using counter_step [OF env, of step "step_state (step + 1)"] json_ok_step p by metis
  have here: "files (run_ops (take m ops) s) p = files s p \<or> published d uuid step p (files (run_ops (take m ops) s) p)" for m
    using pre [of m s] Suc.prems by (auto simp: published_def intro!: exI [of _ "step + 1"])
  let ?s = "run_ops ops s" and ?rest = "fst (counter_loop env uuid pieces n (step + 1))"
  have IH: "snd (counter_loop env uuid pieces n (step + 1)) = Inr ()"
    "\<And>m. files (run_ops (take m ?rest) ?s) p = files ?s p \<or> published d uuid (step + 1) p (files (run_ops (take m ?rest) ?s) p)"
    using Suc.IH [of "step + 1" ?s] Suc.prems by (auto simp: Let_def)
  have "published d uuid (step + 1) p f \<Longrightarrow> published d uuid step p f" for f
  proof -
    assume "published d uuid (step + 1) p f"
    then obtain k where "step + 1 < k" "k \<le> 20" "p = path_join d (uuid (k - 1) @ ''.json'')"
      "f = Some \<lparr>content = dumps (step_state k), synced = dumps (step_state k)\<rparr>" by (auto simp: published_def)
    then show ?thesis unfolding published_def by (intro exI [of _ k]) simp
  qed
  with here [of "length ops"] IH(2) have later: "files (run_ops (take m ?rest) ?s) p = files s p
      \<or> published d uuid step p (files (run_ops (take m ?rest) ?s) p)" for m by (metis order_refl take_all)
  have "files (run_ops (take m (ops @ ?rest)) s) p = files s p \<or> published d uuid step p (files (run_ops (take m (ops @ ?rest)) s) p)" for m
    using here [of m] later [of "m - length ops"] by (cases "m \<le> length ops") simp_all
  with IH(1) show ?case by (simp add: ops Let_def)
qed (simp add: run_ops_def)

fun publishes :: "fs_op \<Rightarrow> bool" where
  "publishes (Replace p q) = True"
| "publishes _ = False"

lemma counter_loop_done:
  assumes "counter_env env uuid pieces d out"
  shows "\<exists>ops. counter_loop env uuid pieces n step = (ops, Inr ()) \<and> length (filter publishes ops) = n"
proof (induction n arbitrary: step)
  case (Suc n)
  have "filter publishes (map (Append p) ts) = []" for p ts by (induction ts) auto
  then obtain ops t where "checkpoint env (uuid step) pieces (step_state (step + 1)) = Inr (ops, t)" "length (filter publishes ops) = 1"
    using assms by (auto simp: counter_env_def checkpoint_def Let_def)
  moreover obtain rest where "counter_loop env uuid pieces n (step + 1) = (rest, Inr ())" "length (filter publishes rest) = n"
    using Suc by blast
  ultimately show ?case by simp
qed simp

lemma counter_from:
  assumes env: "counter_env env uuid pieces d out" and start: "counter_start env s = Inr k" "k \<le> 20"
  obtains ops where "counter env uuid pieces s = (ops, Inr ())" "length (filter publishes ops) = nat (20 - k)"
    "map_option content (files (run_ops ops s) (path_join out ''metrics.json'')) = Some (dumps (J_Obj [(asc ''completed_steps'', J_Int 20)]))"
    "ops = fst (counter_loop env uuid pieces (nat (20 - k)) k) @ [Mkdir out]
       @ write_text (path_join out ''metrics.json'') (dumps (J_Obj [(asc ''completed_steps'', J_Int 20)]))"
proof -
  obtain ops where ops: "counter_loop env uuid pieces (nat (20 - k)) k = (ops, Inr ())" "length (filter publishes ops) = nat (20 - k)"
    using counter_loop_done [OF env] by blast
  have o': "output_dir env = Inr ([Mkdir out], out)" using env by (simp add: counter_env_def output_dir_def)
  show thesis
    by (rule that) (use ops in \<open>simp_all add: counter_def start o' write_text_def run_ops_def del: dumps.simps\<close>)
qed

text \<open>C32: Crash and resume. Stop the example counter anywhere; any checkpoint file it has published by then is
  a complete checkpoint of some step, and a successor that is given its text publishes exactly the
  remaining steps and writes the final metrics.\<close>

theorem counter_resumes:
  assumes env: "counter_env env uuid pieces d out" "resume_path env = None" and run: "counter env uuid pieces s = (ops, r)"
    and crash: "files (run_ops (take n ops) s) p = Some f" "suffix ''.json'' p" "files s p = None" "p \<noteq> path_join out ''metrics.json''"
    and env': "counter_env env' uuid' pieces' d' out'" "resume_path env' = Some q"
    and given: "files s' q = Some g" "content g = content f"
  shows "\<exists>k ops'. 1 \<le> k \<and> k \<le> 20 \<and> content f = dumps (step_state k)
    \<and> counter env' uuid' pieces' s' = (ops', Inr ()) \<and> length (filter publishes ops') = nat (20 - k)
    \<and> map_option content (files (run_ops ops' s') (path_join out' ''metrics.json''))
        = Some (dumps (J_Obj [(asc ''completed_steps'', J_Int 20)]))"
proof -
  let ?m = "path_join out ''metrics.json''" and ?t = "dumps (J_Obj [(asc ''completed_steps'', J_Int 20)])"
  have "counter_start env s = Inr 0" using env(2) by (simp add: counter_start_def get_item_def as_index_def step_state_def bindR_simps)
  then obtain ops0 where ops: "ops = ops0 @ [Mkdir out] @ write_text ?m ?t" and ops0: "ops0 = fst (counter_loop env uuid pieces (nat 20) 0)"
    using counter_from [OF env(1), of s 0] run by (metis diff_zero fst_conv zero_le_numeral)
  define tail_ops where "tail_ops = [Mkdir out] @ write_text ?m ?t"
  have tail: "p \<notin> (\<Union>o' \<in> set (take i tail_ops). writes o')" for i
    using crash(4) by (auto simp: tail_ops_def write_text_def dest!: in_set_takeD)
  have frame: "files (run_ops (take n ops) s) p = files (run_ops (take n ops0) s) p"
    unfolding ops tail_ops_def [symmetric] using files_frame [OF tail] by (simp add: run_ops_def)
  have "files (run_ops (take n ops0) s) p = files s p \<or> published d uuid 0 p (files (run_ops (take n ops0) s) p)"
    using counter_loop_prefix [OF env(1) crash(2), of 0 "nat 20" s] unfolding ops0 by (auto simp: Let_def)
  then have "published d uuid 0 p (Some f)" using frame crash(1,3) by auto
  then obtain k where "0 < k" "k \<le> 20" "content f = dumps (step_state k)" by (auto simp: published_def)
  then have k: "1 \<le> k" "k \<le> 20" "content f = dumps (step_state k)" by simp_all
  have "counter_start env' s' = Inr k"
    using env'(2) given k(3) loads_dumps [OF json_ok_step, of k]
    by (simp add: counter_start_def read_json_def get_item_def as_index_def bindR_simps step_state_def del: dumps.simps)
  from counter_from [OF env'(1) this k(2)] k show ?thesis by metis
qed

definition ex_cmd_env :: environ where
  "ex_cmd_env = [''RUNGRID_CHECKPOINT_DIR'' \<mapsto> ''/w/checkpoints'', ''RUNGRID_OUTPUT_DIR'' \<mapsto> ''/w/outputs'']"

definition ex_uuid :: "int \<Rightarrow> string" where
  "ex_uuid k = (if k = 0 then ''first'' else ''next'')"

definition ex_fs :: fs where
  "ex_fs = \<lparr>dirs = {}, files = Map.empty\<rparr>"

lemma ex_counter_env: "counter_env ex_cmd_env ex_uuid (\<lambda>t. [t]) ''/w/checkpoints'' ''/w/outputs''"
  by (simp add: counter_env_def ex_cmd_env_def ex_uuid_def)

definition ex_cmd_env2 :: environ where
  "ex_cmd_env2 = ex_cmd_env(''RUNGRID_CHECKPOINT_PATH'' \<mapsto> ''/w/resume.json'')"

lemma ex_counter_env2: "counter_env ex_cmd_env2 ex_uuid (\<lambda>t. [t]) ''/w/checkpoints'' ''/w/outputs''" "resume_path ex_cmd_env2 = Some ''/w/resume.json''"
  by (simp_all add: counter_env_def ex_cmd_env2_def ex_cmd_env_def ex_uuid_def resume_path_def)

lemma ex_counter_first:
  "\<exists>ops. counter ex_cmd_env ex_uuid (\<lambda>t. [t]) ex_fs = (ops, Inr ())
    \<and> files (run_ops (take 5 ops) ex_fs) ''/w/checkpoints/first.json'' = Some \<lparr>content = dumps (step_state 1), synced = dumps (step_state 1)\<rparr>"
proof -
  have start: "counter_start ex_cmd_env ex_fs = Inr 0"
    by (simp add: counter_start_def resume_path_def ex_cmd_env_def get_item_def as_index_def step_state_def bindR_simps)
  let ?tmp = "''/w/checkpoints/first.tmp''"
  have "checkpoint ex_cmd_env (ex_uuid 0) (\<lambda>t. [t]) (step_state 1) = Inr ([Mkdir ''/w/checkpoints'', Create ?tmp, Append ?tmp (dumps (step_state 1)),
      Fsync ?tmp, Replace ?tmp ''/w/checkpoints/first.json''], ''/w/checkpoints/first.json'')"
    by (simp add: checkpoint_def ex_cmd_env_def ex_uuid_def Let_def path_join_def with_suffix_def stem_def)
  then have "\<exists>rest. fst (counter_loop ex_cmd_env ex_uuid (\<lambda>t. [t]) (Suc m) 0) = [Mkdir ''/w/checkpoints'', Create ?tmp,
      Append ?tmp (dumps (step_state 1)), Fsync ?tmp, Replace ?tmp ''/w/checkpoints/first.json''] @ rest" for m by simp
  from this [of 19] have "\<exists>rest. fst (counter_loop ex_cmd_env ex_uuid (\<lambda>t. [t]) (nat (20 - 0)) 0) = [Mkdir ''/w/checkpoints'', Create ?tmp,
      Append ?tmp (dumps (step_state 1)), Fsync ?tmp, Replace ?tmp ''/w/checkpoints/first.json''] @ rest" by simp
  moreover obtain ops where "counter ex_cmd_env ex_uuid (\<lambda>t. [t]) ex_fs = (ops, Inr ())"
    "\<exists>rest. ops = fst (counter_loop ex_cmd_env ex_uuid (\<lambda>t. [t]) (nat (20 - 0)) 0) @ rest"
    using counter_from [OF ex_counter_env start] by (metis zero_le_numeral)
  ultimately show ?thesis by (auto simp: run_ops_def ex_fs_def simp del: dumps.simps counter_loop.simps)
qed

theorem counter_resumes_witness:
  "\<exists>ops. counter ex_cmd_env2 ex_uuid (\<lambda>t. [t]) (ex_fs\<lparr>files := [''/w/resume.json'' \<mapsto> \<lparr>content = dumps (step_state 1), synced = []\<rparr>]\<rparr>)
    = (ops, Inr ()) \<and> length (filter publishes ops) = 19"
proof -
  obtain ops where ops: "counter ex_cmd_env ex_uuid (\<lambda>t. [t]) ex_fs = (ops, Inr ())"
    "files (run_ops (take 5 ops) ex_fs) ''/w/checkpoints/first.json'' = Some \<lparr>content = dumps (step_state 1), synced = dumps (step_state 1)\<rparr>"
    using ex_counter_first by blast
  have "suffix ''.json'' ''/w/checkpoints/first.json''" by (simp add: suffix_def)
  moreover have "resume_path ex_cmd_env = None" by (simp add: resume_path_def ex_cmd_env_def)
  ultimately obtain k ops' where k: "dumps (step_state 1) = dumps (step_state k)"
    and run: "counter ex_cmd_env2 ex_uuid (\<lambda>t. [t]) (ex_fs\<lparr>files := [''/w/resume.json'' \<mapsto> \<lparr>content = dumps (step_state 1), synced = []\<rparr>]\<rparr>)
      = (ops', Inr ())" "length (filter publishes ops') = nat (20 - k)"
    using counter_resumes [OF ex_counter_env _ ops(1,2) _ _ _ ex_counter_env2,
        of "ex_fs\<lparr>files := [''/w/resume.json'' \<mapsto> \<lparr>content = dumps (step_state 1), synced = []\<rparr>]\<rparr>"
           "\<lparr>content = dumps (step_state 1), synced = []\<rparr>"]
    by (auto simp: ex_fs_def path_join_def simp del: dumps.simps)
  from k have "k = 1" by (simp add: dumps_inj json_ok_step) (simp add: step_state_def)
  with run show ?thesis by auto
qed

end
