(* ===== verification/Client.thy ===== *)
theory Client
  imports Sdk
begin

text \<open>
  The HTTP client of the SDK (\<open>sdk/python/rungrid/client.py\<close>) and the runner of submitted functions
  (\<open>invoke.py\<close>). The HTTP exchange itself, the importable modules and the functions in them are parameters.
\<close>

section \<open>Requests\<close>

record http_request =
  hr_method :: string
  hr_url :: string
  hr_body :: "pystr option"
  hr_request_id :: string
  hr_timeout :: nat

definition rstrip_slash :: "string \<Rightarrow> string" where
  "rstrip_slash u = rev (dropWhile (\<lambda>c. c = CHR ''/'') (rev u))"

record http_client =
  hc_url :: string
  hc_open :: "http_request \<Rightarrow> sdk_error + json"
  hc_uuid :: string

definition new_client :: "string \<Rightarrow> (http_request \<Rightarrow> sdk_error + json) \<Rightarrow> string \<Rightarrow> http_client" where
  "new_client url http uuid = \<lparr>hc_url = rstrip_slash url, hc_open = http, hc_uuid = uuid\<rparr>"

definition http_request_of :: "http_client \<Rightarrow> string \<Rightarrow> string \<Rightarrow> json option \<Rightarrow> string option \<Rightarrow> http_request" where
  "http_request_of c meth path payload request_id =
    \<lparr>hr_method = meth, hr_url = hc_url c @ path, hr_body = map_option dumps payload,
     hr_request_id = (case request_id of None \<Rightarrow> hc_uuid c | Some i \<Rightarrow> if i = '''' then hc_uuid c else i), hr_timeout = 30\<rparr>"

definition http_call :: "http_client \<Rightarrow> string \<Rightarrow> string \<Rightarrow> json option \<Rightarrow> string option \<Rightarrow> sdk_error + json" where
  "http_call c meth path payload request_id = hc_open c (http_request_of c meth path payload request_id)"

definition client_submit :: "http_client \<Rightarrow> json \<Rightarrow> sdk_error + json" where
  "client_submit c d = http_call c ''POST'' ''/v1/jobs'' (Some d) None"

definition function_command :: "pystr \<Rightarrow> json list \<Rightarrow> (pystr \<times> json) list option \<Rightarrow> pystr list" where
  "function_command f args kwargs = [asc ''python'', asc ''-m'', asc ''rungrid.invoke'', f,
     asc ''--args'', dumps (J_List args), asc ''--kwargs'', dumps (J_Obj (case kwargs of None \<Rightarrow> [] | Some k \<Rightarrow> k))]"

definition function_job :: "pystr \<Rightarrow> json list \<Rightarrow> (pystr \<times> json) list option \<Rightarrow> (pystr \<times> json) list \<Rightarrow> json" where
  "function_job f args kwargs d = J_Obj (dict_put (asc ''command'') (J_List (map J_Str (function_command f args kwargs))) d)"

definition submit_function :: "http_client \<Rightarrow> pystr \<Rightarrow> json list \<Rightarrow> (pystr \<times> json) list option \<Rightarrow> (pystr \<times> json) list
    \<Rightarrow> sdk_error + json" where
  "submit_function c f args kwargs d = client_submit c (function_job f args kwargs d)"

definition client_batch :: "http_client \<Rightarrow> json list \<Rightarrow> sdk_error + json" where
  "client_batch c ds = http_call c ''POST'' ''/v1/jobs/batch'' (Some (J_List ds)) None"

definition client_get :: "http_client \<Rightarrow> string \<Rightarrow> sdk_error + json" where
  "client_get c job_id = http_call c ''GET'' (''/v1/jobs/'' @ job_id) None None"

definition client_list :: "http_client \<Rightarrow> int \<Rightarrow> int \<Rightarrow> sdk_error + json" where
  "client_list c limit offset = http_call c ''GET'' (''/v1/jobs?limit='' @ str_int limit @ ''&offset='' @ str_int offset) None None"

definition client_cancel :: "http_client \<Rightarrow> string \<Rightarrow> string option \<Rightarrow> sdk_error + json" where
  "client_cancel c job_id request_id = http_call c ''POST'' (''/v1/jobs/'' @ job_id @ ''/cancel'') None request_id"

definition client_retry :: "http_client \<Rightarrow> string \<Rightarrow> string option \<Rightarrow> sdk_error + json" where
  "client_retry c job_id request_id = http_call c ''POST'' (''/v1/jobs/'' @ job_id @ ''/retry'') None request_id"

definition client_attempts :: "http_client \<Rightarrow> string \<Rightarrow> sdk_error + json" where
  "client_attempts c job_id = http_call c ''GET'' (''/v1/jobs/'' @ job_id @ ''/attempts?limit=1000'') None None"

definition client_artifacts :: "http_client \<Rightarrow> string \<Rightarrow> sdk_error + json" where
  "client_artifacts c job_id = http_call c ''GET'' (''/v1/jobs/'' @ job_id @ ''/artifacts?limit=1000'') None None"

section \<open>Running a submitted function\<close>

record invoke_args =
  ia_function :: pystr
  ia_args :: pystr
  ia_kwargs :: pystr

definition plain :: "pystr \<Rightarrow> bool" where
  "plain s \<longleftrightarrow> take 1 s \<noteq> [45]"

text \<open>The parser on the spelling the client uses; \<open>argparse\<close> accepts others, which \<open>spellings\<close> stands for.\<close>

definition parse_args :: "(pystr list \<Rightarrow> invoke_args option) \<Rightarrow> pystr list \<Rightarrow> invoke_args option" where
  "parse_args spellings argv = (case argv of
     [f, o1, a, o2, k] \<Rightarrow>
       if plain f \<and> o1 = asc ''--args'' \<and> plain a \<and> o2 = asc ''--kwargs'' \<and> plain k
       then Some \<lparr>ia_function = f, ia_args = a, ia_kwargs = k\<rparr> else spellings argv
   | _ \<Rightarrow> spellings argv)"

text \<open>\<open>*args\<close> iterates over its value, \<open>**kwargs\<close> needs a dictionary.\<close>

definition positional :: "json \<Rightarrow> sdk_error + json list" where
  "positional v = (case v of J_List vs \<Rightarrow> Inr vs | J_Str s \<Rightarrow> Inr (map (\<lambda>c. J_Str [c]) s)
     | J_Obj kvs \<Rightarrow> Inr (map (\<lambda>kv. J_Str (fst kv)) kvs) | _ \<Rightarrow> Inl TypeError)"

definition keywords_of :: "json \<Rightarrow> sdk_error + (pystr \<times> json) list" where
  "keywords_of v = (case v of J_Obj kvs \<Rightarrow> Inr kvs | _ \<Rightarrow> Inl TypeError)"

definition loads_or_raise :: "pystr \<Rightarrow> sdk_error + json" where
  "loads_or_raise s = (case loads s of None \<Rightarrow> Inl ValueError | Some v \<Rightarrow> Inr v)"

definition split_colon :: "pystr \<Rightarrow> sdk_error + pystr \<times> pystr" where
  "split_colon s = (if 58 \<in> set s then Inr (takeWhile (\<lambda>c. c \<noteq> 58) s, tl (dropWhile (\<lambda>c. c \<noteq> 58) s)) else Inl ValueError)"

fun no_nan :: "json \<Rightarrow> bool" where
  "no_nan (J_Float s) \<longleftrightarrow> s \<notin> constants"
| "no_nan (J_List vs) \<longleftrightarrow> list_all no_nan vs"
| "no_nan (J_Obj kvs) \<longleftrightarrow> list_all (\<lambda>(k, v). no_nan v) kvs"
| "no_nan _ \<longleftrightarrow> True"

type_synonym python_modules = "pystr \<Rightarrow> pystr \<Rightarrow> (json list \<Rightarrow> (pystr \<times> json) list \<Rightarrow> json option) option"

definition invoke_main :: "(pystr list \<Rightarrow> invoke_args option) \<Rightarrow> python_modules \<Rightarrow> environ \<Rightarrow> pystr list \<Rightarrow> sdk_error + fs_op list" where
  "invoke_main spellings modules env argv =
    (case parse_args spellings argv of None \<Rightarrow> Inl UsageError
     | Some ns \<Rightarrow>
       bindR (split_colon (ia_function ns)) (\<lambda>(module, name).
         case modules module name of None \<Rightarrow> Inl ImportFailed
         | Some f \<Rightarrow>
           bindR (loads_or_raise (ia_args ns)) (\<lambda>a. bindR (positional a) (\<lambda>pos.
           bindR (loads_or_raise (ia_kwargs ns)) (\<lambda>k. bindR (keywords_of k) (\<lambda>kw.
             case f pos kw of None \<Rightarrow> Inl Raised
             | Some result \<Rightarrow>
               bindR (output_dir env) (\<lambda>(mk, d).
                 if no_nan result then Inr (mk @ write_text (path_join d ''result.json'') (dumps result))
                 else Inl ValueError)))))))"

section \<open>A submitted function runs with its arguments\<close>

lemma dict_put_keys: "set (map fst (dict_put k v d)) = insert k (set (map fst d))"
  by (induction k v d rule: dict_put.induct) auto

lemma dict_put_distinct: "distinct (map fst d) \<Longrightarrow> distinct (map fst (dict_put k v d))"
  by (induction k v d rule: dict_put.induct) (auto simp: dict_put_keys [unfolded set_map image_image] image_iff)

lemma dict_put_all: "list_all P d \<Longrightarrow> P (k, v) \<Longrightarrow> list_all P (dict_put k v d)"
  by (induction k v d rule: dict_put.induct) auto

lemma map_of_dict_put: "map_of (dict_put k v d) k = Some v"
  by (induction k v d rule: dict_put.induct) auto

lemma printable_scalar: "list_all printable s \<Longrightarrow> list_all scalar_value s"
  by (auto simp: list_all_iff printable_def scalar_value_def)

lemma scalar_asc: "list_all scalar_value (asc s)"
proof -
  have "scalar_value n" if "n < 256" for n using that by (simp add: scalar_value_def)
  then show ?thesis by (simp add: asc_def list_all_iff)
qed

lemma command_ok:
  assumes "list_all scalar_value f" "json_ok (J_List args)" "json_ok (J_Obj (case kwargs of None \<Rightarrow> [] | Some k \<Rightarrow> k))"
  shows "json_ok (J_List (map J_Str (function_command f args kwargs)))"
  using assms printable_scalar [OF printable_dumps [OF assms(2)]] printable_scalar [OF printable_dumps [OF assms(3)]]
  by (simp add: function_command_def scalar_asc del: dumps.simps asc_simps)

lemma function_job_ok:
  assumes "list_all scalar_value f" "json_ok (J_List args)" "json_ok (J_Obj (case kwargs of None \<Rightarrow> [] | Some k \<Rightarrow> k))" "json_ok (J_Obj d)"
  shows "json_ok (function_job f args kwargs d)"
  using assms(4) command_ok [OF assms(1-3)]
  by (auto simp: function_job_def scalar_asc dict_put_distinct intro!: dict_put_all simp del: asc_simps)

lemma dumps_plain: "plain (dumps (J_List vs))" "plain (dumps (J_Obj kvs))"
  by (simp_all add: plain_def)

text \<open>C38: A submitted function runs with its arguments. The HTTP body of \<open>submit_function\<close> is a JSON text whose
  \<open>command\<close>, once the server has parsed it and a worker runs it, makes the runner import the named module,
  call the named function on exactly the given positional and keyword arguments, and write its
  result as JSON to \<open>result.json\<close> in the attempt's output directory.\<close>

theorem submitted_function_runs:
  assumes ok: "list_all scalar_value md" "list_all scalar_value name" "json_ok (J_List args)"
      "json_ok (J_Obj (case kwargs of None \<Rightarrow> [] | Some k \<Rightarrow> k))" "json_ok (J_Obj d)"
    and fn: "58 \<notin> set md" "plain (md @ 58 # name)" "modules md name = Some f"
    and result: "f args (case kwargs of None \<Rightarrow> [] | Some k \<Rightarrow> k) = Some v" "no_nan v" and env: "env ''RUNGRID_OUTPUT_DIR'' = Some out"
  shows "\<exists>body job argv. hr_body (http_request_of c ''POST'' ''/v1/jobs'' (Some (function_job (md @ 58 # name) args kwargs d)) None) = Some body
    \<and> submit_function c (md @ 58 # name) args kwargs d
        = hc_open c (http_request_of c ''POST'' ''/v1/jobs'' (Some (function_job (md @ 58 # name) args kwargs d)) None)
    \<and> loads body = Some (J_Obj job)
    \<and> map_of job (asc ''command'') = Some (J_List (map J_Str (asc ''python'' # asc ''-m'' # asc ''rungrid.invoke'' # argv)))
    \<and> invoke_main spellings modules env argv = Inr (Mkdir out # write_text (path_join out ''result.json'') (dumps v))"
proof -
  let ?f = "md @ 58 # name" and ?kw = "case kwargs of None \<Rightarrow> [] | Some k \<Rightarrow> k"
  let ?argv = "[?f, asc ''--args'', dumps (J_List args), asc ''--kwargs'', dumps (J_Obj ?kw)]"
  have f: "list_all scalar_value ?f" using ok(1,2) by (simp add: scalar_value_def)
  have body: "loads (dumps (function_job ?f args kwargs d)) = Some (function_job ?f args kwargs d)"
    by (rule loads_dumps [OF function_job_ok [OF f ok(3-5)]])
  have "parse_args spellings ?argv = Some \<lparr>ia_function = ?f, ia_args = dumps (J_List args), ia_kwargs = dumps (J_Obj ?kw)\<rparr>"
    using fn(2) dumps_plain by (simp add: parse_args_def del: dumps.simps asc_simps)
  moreover have "split_colon ?f = Inr (md, name)"
    using fn(1) by (auto simp: split_colon_def takeWhile_append dropWhile_append)
  moreover have "loads_or_raise (dumps (J_List args)) = Inr (J_List args)" "loads_or_raise (dumps (J_Obj ?kw)) = Inr (J_Obj ?kw)"
    using ok(3,4) by (simp_all add: loads_or_raise_def loads_dumps del: dumps.simps)
  ultimately have "invoke_main spellings modules env ?argv = Inr (Mkdir out # write_text (path_join out ''result.json'') (dumps v))"
    using fn(3) result env
    by (simp add: invoke_main_def bindR_simps positional_def keywords_of_def output_dir_def del: dumps.simps asc_simps)
  then show ?thesis using body
    by (intro exI [of _ "dumps (function_job ?f args kwargs d)"]
        exI [of _ "dict_put (asc ''command'') (J_List (map J_Str (function_command ?f args kwargs))) d"] exI [of _ ?argv])
      (simp add: http_request_of_def submit_function_def client_submit_def http_call_def function_job_def map_of_dict_put
        function_command_def del: dumps.simps asc_simps)
qed

definition ex_modules :: python_modules where
  "ex_modules m n = (if m = asc ''jobs'' \<and> n = asc ''add'' then Some (\<lambda>pos kw. Some (J_List (pos @ map snd kw))) else None)"

theorem submitted_function_runs_witness:
  "\<exists>argv. invoke_main (\<lambda>_. None) ex_modules ex_cmd_env argv = Inr (Mkdir ''/w/outputs'' # write_text ''/w/outputs/result.json''
     (dumps (J_List [J_Int 1, J_Str [34], J_Bool True])))"
  using submitted_function_runs [of "asc ''jobs''" "asc ''add''" "[J_Int 1, J_Str [34]]" "Some [(asc ''k'', J_Bool True)]" "[]" ex_modules
        "\<lambda>pos kw. Some (J_List (pos @ map snd kw))" "J_List [J_Int 1, J_Str [34], J_Bool True]" ex_cmd_env "''/w/outputs''"
        "new_client ''http://h/'' (\<lambda>_. Inr J_Null) ''u''" "\<lambda>_. None"]
    by (fastforce simp: ex_modules_def scalar_asc scalar_value_def plain_def ex_cmd_env_def path_join_def asc_def simp del: dumps.simps)

end
