(* ===== verification/Protocols.thy ===== *)
theory Protocols
  imports Client
begin

text \<open>
  The research protocols of the HeteroSplit example (\<open>examples/heterosplit/protocols.py\<close>) and the jobs
  submitted for a study (\<open>submit.py\<close>). The \<open>heterosplit\<close> package is a parameter: its loaders, its splitter and
  its audit. A CSV file is given by the rows \<open>csv.DictReader\<close> yields.
\<close>

section \<open>Studies\<close>

type_synonym study_table = "(string \<times> string list) list"

definition ORIGINAL :: study_table where
  "ORIGINAL = [
    (''DrugComb'', [''random'', ''pair_cold_start'', ''either_cold_start'', ''both_cold_start'']),
    (''MovieLens'', [''random'', ''source_cold_start'', ''destination_cold_start'', ''both_cold_start''])]"

definition regimes_in :: "study_table \<Rightarrow> string \<Rightarrow> string list" where
  "regimes_in t dataset = the (map_of t dataset)"

definition REGIMES :: study_table where
  "REGIMES = [
    (''DrugComb'', regimes_in ORIGINAL ''DrugComb'' @ [''cell_cold_start'', ''pair_cell_cold_start'',
                                        ''either_cell_cold_start'', ''both_cell_cold_start'']),
    (''MovieLens'', regimes_in ORIGINAL ''MovieLens'' @ [''month_cold_start'', ''source_month_cold_start'',
                                          ''destination_month_cold_start'', ''both_month_cold_start''])]"

definition STUDIES :: "(string \<times> study_table) list" where
  "STUDIES = [(''original-v1'', ORIGINAL), (''expanded-v2'', REGIMES)]"

section \<open>Calendar months\<close>

text \<open>\<open>datetime\<close>'s day numbers: day 1 is the first of January of year 1.\<close>

definition is_leap :: "int \<Rightarrow> bool" where
  "is_leap y \<longleftrightarrow> y mod 4 = 0 \<and> (y mod 100 \<noteq> 0 \<or> y mod 400 = 0)"

definition days_in_month :: "int \<Rightarrow> int \<Rightarrow> int" where
  "days_in_month y m = (if m = 2 then (if is_leap y then 29 else 28) else if m \<in> {4, 6, 9, 11} then 30 else 31)"

definition month_lengths :: "int list" where
  "month_lengths = [31, 28, 31, 30, 31, 30, 31, 31, 30, 31, 30, 31]"

definition days_before_month :: "bool \<Rightarrow> int \<Rightarrow> int" where
  "days_before_month leap m = sum_list (take (nat (m - 1)) month_lengths) + (if m > 2 \<and> leap then 1 else 0)"

definition days_before_year :: "int \<Rightarrow> int" where
  "days_before_year y = (y - 1) * 365 + (y - 1) div 4 - (y - 1) div 100 + (y - 1) div 400"

definition ymd2ord :: "int \<Rightarrow> int \<Rightarrow> int \<Rightarrow> int" where
  "ymd2ord y m d = days_before_year y + days_before_month (is_leap y) m + d"

text \<open>\<open>_ord2ymd\<close>: four-century, century, four-year and year cycles, then a first guess of the month corrected by
  at most one.\<close>

definition month_day :: "bool \<Rightarrow> int \<Rightarrow> int \<times> int" where
  "month_day leap n =
    (let month = (n + 50) div 32; preceding = days_before_month leap month in
     if preceding > n then (month - 1, n - days_before_month leap (month - 1) + 1) else (month, n - preceding + 1))"

definition ord2ymd :: "int \<Rightarrow> int \<times> int \<times> int" where
  "ord2ymd i =
    (let n = i - 1; n400 = n div 146097; n = n mod 146097;
         n100 = n div 36524; n = n mod 36524; n4 = n div 1461; n = n mod 1461; n1 = n div 365; n = n mod 365;
         year = n400 * 400 + 1 + n100 * 100 + n4 * 4 + n1 in
     if n1 = 4 \<or> n100 = 4 then (year - 1, 12, 31)
     else (year, month_day (n1 = 3 \<and> (n4 \<noteq> 24 \<or> n100 = 3)) n))"

definition two_digits :: "int \<Rightarrow> string" where
  "two_digits m = (if m < 10 then ''0'' else '''') @ str_int m"

text \<open>\<open>datetime.fromtimestamp(t, utc).strftime("%Y-%m")\<close>, which raises outside the years 1 to 9999.\<close>

definition month_label :: "int \<Rightarrow> string option" where
  "month_label t = (case ord2ymd (t div 86400 + 719163) of (y, m, d) \<Rightarrow>
     if 1 \<le> y \<and> y \<le> 9999 then Some (str_int y @ ''-'' @ two_digits m) else None)"

lemma days_before_month_table:
  "days_before_month leap 0 = 0" "days_before_month leap 1 = 0" "days_before_month leap 2 = 31"
  "days_before_month leap 3 = 59 + of_bool leap" "days_before_month leap 4 = 90 + of_bool leap"
  "days_before_month leap 5 = 120 + of_bool leap" "days_before_month leap 6 = 151 + of_bool leap"
  "days_before_month leap 7 = 181 + of_bool leap" "days_before_month leap 8 = 212 + of_bool leap"
  "days_before_month leap 9 = 243 + of_bool leap" "days_before_month leap 10 = 273 + of_bool leap"
  "days_before_month leap 11 = 304 + of_bool leap" "days_before_month leap 12 = 334 + of_bool leap"
  "days_before_month leap 13 = 365 + of_bool leap"
  by (simp_all add: days_before_month_def month_lengths_def)

lemma month_day_correct:
  assumes "0 \<le> n" "n < 365 + of_bool leap"
  obtains m d where "month_day leap n = (m, d)" "1 \<le> m" "m \<le> 12" "1 \<le> d"
    "days_before_month leap m + d = n + 1" "n < days_before_month leap (m + 1)"
proof -
  define k where "k = (n + 50) div 32"
  have b: "32 * k \<le> n + 50" "n + 50 < 32 * k + 32" unfolding k_def by linarith+
  have md: "month_day leap n = (if days_before_month leap k > n then (k - 1, n - days_before_month leap (k - 1) + 1)
      else (k, n - days_before_month leap k + 1))" by (simp add: month_day_def k_def Let_def)
  have "n < 366" using assms(2) by (cases leap) auto
  with b assms(1) have "1 \<le> k" "k \<le> 12" by linarith+
  then have "k = 1 \<or> k = 2 \<or> k = 3 \<or> k = 4 \<or> k = 5 \<or> k = 6 \<or> k = 7 \<or> k = 8 \<or> k = 9 \<or> k = 10 \<or> k = 11 \<or> k = 12" by presburger
  then have "\<exists>m d. month_day leap n = (m, d) \<and> 1 \<le> m \<and> m \<le> 12 \<and> 1 \<le> d \<and> days_before_month leap m + d = n + 1
      \<and> n < days_before_month leap (m + 1)"
    unfolding md by (elim disjE) (use b assms in \<open>auto simp: days_before_month_table\<close>)
  then show thesis using that by blast
qed

text \<open>The cycles of a day number: the year is \<open>Y + 1\<close>.\<close>

lemma cycle_divs:
  fixes a b c e :: int
  assumes "0 \<le> b" "b \<le> 3" "0 \<le> c" "c \<le> 24" "0 \<le> e" "e \<le> 3" and Y: "Y = 400 * a + 100 * b + 4 * c + e"
  shows "Y div 4 = 100 * a + 25 * b + c" "Y div 100 = 4 * a + b" "Y div 400 = a"
    "is_leap (Y + 1) \<longleftrightarrow> e = 3 \<and> (c \<noteq> 24 \<or> b = 3)"
proof -
  show "Y div 4 = 100 * a + 25 * b + c" by (rule int_div_pos_eq [where r = e]) (use assms in auto)
  show "Y div 100 = 4 * a + b" by (rule int_div_pos_eq [where r = "4 * c + e"]) (use assms in auto)
  show "Y div 400 = a" by (rule int_div_pos_eq [where r = "100 * b + 4 * c + e"]) (use assms in auto)
  have "(Y + 1) mod 4 = 0" if "e = 3" by (rule int_mod_pos_eq [where q = "100 * a + 25 * b + c + 1"]) (use assms that in auto)
  moreover have "(Y + 1) mod 4 = e + 1" if "e \<noteq> 3" by (rule int_mod_pos_eq [where q = "100 * a + 25 * b + c"]) (use assms that in auto)
  ultimately have m: "(Y + 1) mod 4 = (if e = 3 then 0 else e + 1)" by simp
  have "(Y + 1) mod 100 = 0" if "c = 24" "e = 3" by (rule int_mod_pos_eq [where q = "4 * a + b + 1"]) (use assms that in auto)
  moreover have "(Y + 1) mod 100 = 4 * c + e + 1" if "c < 24 \<or> e < 3"
    by (rule int_mod_pos_eq [where q = "4 * a + b"]) (use assms that in auto)
  ultimately have h: "(Y + 1) mod 100 = (if c = 24 \<and> e = 3 then 0 else 4 * c + e + 1)" using assms by force
  have "(Y + 1) mod 400 = 0" if "b = 3" "c = 24" "e = 3" by (rule int_mod_pos_eq [where q = "a + 1"]) (use assms that in auto)
  moreover have "(Y + 1) mod 400 = 100 * b + 4 * c + e + 1" if "b < 3 \<or> c < 24 \<or> e < 3"
    by (rule int_mod_pos_eq [where q = a]) (use assms that in auto)
  ultimately have f: "(Y + 1) mod 400 = (if b = 3 \<and> c = 24 \<and> e = 3 then 0 else 100 * b + 4 * c + e + 1)" using assms by force
  show "is_leap (Y + 1) \<longleftrightarrow> e = 3 \<and> (c \<noteq> 24 \<or> b = 3)"
    unfolding is_leap_def m h f using assms by auto
qed

lemma divmod_bounds:
  fixes n k :: int
  assumes "0 < k"
  shows "n = k * (n div k) + n mod k" "0 \<le> n mod k" "n mod k < k"
  using assms by simp_all

lemma year_of:
  fixes a b c e r :: int
  assumes n: "n = 146097 * a + 36524 * b + 1461 * c + 365 * e + r" and b: "0 \<le> b" "b \<le> 3" "0 \<le> c" "c \<le> 24" "0 \<le> e" "e \<le> 3"
    and Y: "Y = 400 * a + 100 * b + 4 * c + e"
  shows "days_before_year (Y + 1) + r = n"
proof -
  note D = cycle_divs [OF b Y]
  show ?thesis unfolding days_before_year_def using D(1-3) n Y by simp
qed

lemma ord2ymd_correct:
  obtains y m d where "ord2ymd i = (y, m, d)" "1 \<le> m" "m \<le> 12" "1 \<le> d" "ymd2ord y m d = i"
    "days_before_month (is_leap y) m + d \<le> days_before_month (is_leap y) (m + 1)"
proof -
  define n a r1 b r2 c r3 e r4 where defs: "n = i - 1" "a = n div 146097" "r1 = n mod 146097" "b = r1 div 36524" "r2 = r1 mod 36524"
    "c = r2 div 1461" "r3 = r2 mod 1461" "e = r3 div 365" "r4 = r3 mod 365"
  have sums: "n = 146097 * a + r1" "0 \<le> r1" "r1 < 146097" "r1 = 36524 * b + r2" "0 \<le> r2" "r2 < 36524"
    "r2 = 1461 * c + r3" "0 \<le> r3" "r3 < 1461" "r3 = 365 * e + r4" "0 \<le> r4" "r4 < 365"
    unfolding defs by (simp_all only: divmod_bounds(2,3) zero_less_numeral, simp_all)
  have b: "0 \<le> b" "b \<le> 4" and c: "0 \<le> c" "c \<le> 24" and e: "0 \<le> e" "e \<le> 4" using sums by linarith+
  define Y where "Y = 400 * a + 100 * b + 4 * c + e"
  have o': "ord2ymd i = (if e = 4 \<or> b = 4 then (Y, 12, 31) else (Y + 1, month_day (e = 3 \<and> (c \<noteq> 24 \<or> b = 3)) r4))"
    unfolding ord2ymd_def Let_def defs [symmetric] Y_def by (simp add: algebra_simps)
  have n: "n = 146097 * a + 36524 * b + 1461 * c + 365 * e + r4" using sums by simp
  show thesis
  proof (cases "e = 4 \<or> b = 4")
    case False
    then have b': "b \<le> 3" and e': "e \<le> 3" using b e by simp_all
    note leap = cycle_divs(4) [OF b(1) b' c e(1) e' Y_def]
    have "r4 < 365 + of_bool (is_leap (Y + 1))" using sums(12) by simp
    then obtain m d where md: "month_day (is_leap (Y + 1)) r4 = (m, d)" "1 \<le> m" "m \<le> 12" "1 \<le> d"
      "days_before_month (is_leap (Y + 1)) m + d = r4 + 1" "r4 < days_before_month (is_leap (Y + 1)) (m + 1)"
      using month_day_correct sums(11) by blast
    have "days_before_year (Y + 1) + r4 = n" by (rule year_of [OF n b(1) b' c e(1) e' Y_def])
    with md False o' leap that [of "Y + 1" m d] show thesis by (simp add: ymd2ord_def defs(1))
  next
    case True
    have r4: "r4 = 0" and full: "b = 4 \<and> c = 0 \<and> e = 0 \<or> e = 4 \<and> b \<le> 3 \<and> c \<le> 23" using True sums b c e by linarith+
    define Z where "Z = Y - 1"
    have "\<exists>a' b' c'. 0 \<le> b' \<and> b' \<le> 3 \<and> 0 \<le> c' \<and> c' \<le> 24 \<and> (c' \<noteq> 24 \<or> b' = 3)
        \<and> Z = 400 * a' + 100 * b' + 4 * c' + 3 \<and> n = 146097 * a' + 36524 * b' + 1461 * c' + 365 * 3 + 365"
      using full
    proof
      assume "b = 4 \<and> c = 0 \<and> e = 0"
      then show ?thesis using n r4 by (intro exI [of _ a] exI [of _ 3] exI [of _ 24]) (simp add: Z_def Y_def)
    next
      assume "e = 4 \<and> b \<le> 3 \<and> c \<le> 23"
      then show ?thesis using n r4 b c by (intro exI [of _ a] exI [of _ b] exI [of _ c]) (simp add: Z_def Y_def)
    qed
    then obtain a' b' c' where z: "0 \<le> b'" "b' \<le> 3" "0 \<le> c'" "c' \<le> 24" "c' \<noteq> 24 \<or> b' = 3"
      "Z = 400 * a' + 100 * b' + 4 * c' + 3" "n = 146097 * a' + 36524 * b' + 1461 * c' + 365 * 3 + 365" by blast
    have "is_leap (Z + 1)" using cycle_divs(4) [OF z(1-4) _ _ z(6)] z(5) by simp
    moreover have "days_before_year (Z + 1) + 365 = n" by (rule year_of [OF z(7) z(1-4) _ _ z(6)]) simp_all
    ultimately show thesis
      using that [of Y 12 31] o' True by (simp add: Z_def ymd2ord_def days_before_month_table defs(1))
  qed
qed

definition ymd_ok :: "int \<Rightarrow> int \<Rightarrow> int \<Rightarrow> bool" where
  "ymd_ok y m d \<longleftrightarrow> 1 \<le> m \<and> m \<le> 12 \<and> 1 \<le> d \<and> d \<le> days_in_month y m"

lemma days_before_next: "1 \<le> m \<Longrightarrow> m \<le> 12 \<Longrightarrow> days_before_month (is_leap y) (m + 1) = days_before_month (is_leap y) m + days_in_month y m"
proof -
  assume "1 \<le> m" "m \<le> 12"
  then have "m = 1 \<or> m = 2 \<or> m = 3 \<or> m = 4 \<or> m = 5 \<or> m = 6 \<or> m = 7 \<or> m = 8 \<or> m = 9 \<or> m = 10 \<or> m = 11 \<or> m = 12" by presburger
  then show ?thesis by (elim disjE) (auto simp: days_before_month_table days_in_month_def)
qed

lemma str_nat_no_dash: "CHR ''-'' \<notin> set (str_nat n)"
proof
  assume "CHR ''-'' \<in> set (str_nat n)"
  from str_nat_digits [OF this] obtain d where d: "d < 10" "CHR ''-'' = digit_char d" by blast
  then have "of_char (CHR ''-'') = 48 + d" using of_char_digit [OF d(1)] by metis
  then show False by simp
qed

lemma two_digits_inj:
  assumes "1 \<le> m" "m \<le> 12" "1 \<le> m'" "m' \<le> 12" "two_digits m = two_digits m'"
  shows "m = m'"
proof -
  have hd: "0 < k \<Longrightarrow> hd (str_nat k) \<noteq> CHR ''0''" for k
    using hd_str_nat [of k] by (cases "str_nat k") auto
  have "m < 10 \<longleftrightarrow> m' < 10"
    using assms hd [of "nat m"] hd [of "nat m'"] by (auto simp: two_digits_def str_int_def split: if_splits) (metis list.sel(1))
  then have "nat m = nat m'" using assms by (auto simp: two_digits_def str_int_def split: if_splits)
  then show ?thesis using assms by simp
qed

lemma label_inj:
  assumes "0 < y" "0 < y'" "1 \<le> m" "m \<le> 12" "1 \<le> m'" "m' \<le> 12"
  shows "str_int y @ ''-'' @ two_digits m = str_int y' @ ''-'' @ two_digits m' \<longleftrightarrow> y = y' \<and> m = m'"
proof
  assume eq: "str_int y @ ''-'' @ two_digits m = str_int y' @ ''-'' @ two_digits m'"
  have split: "takeWhile (\<lambda>c. c \<noteq> CHR ''-'') (str_nat n @ ''-'' @ t) = str_nat n" for n t
    using str_nat_no_dash [of n] by (subst takeWhile_append2) auto
  from eq have e: "str_nat (nat y) @ ''-'' @ two_digits m = str_nat (nat y') @ ''-'' @ two_digits m'"
    using assms by (simp add: str_int_def)
  have "str_nat (nat y) = str_nat (nat y')" using arg_cong [OF e, of "takeWhile (\<lambda>c. c \<noteq> CHR ''-'')"] by (simp only: split)
  moreover from this e have "two_digits m = two_digits m'" by simp
  ultimately show "y = y' \<and> m = m'" using assms two_digits_inj [of m m'] by simp
qed simp

lemma month_label_cases:
  assumes "month_label t = Some s"
  obtains y m d where "s = str_int y @ ''-'' @ two_digits m" "0 < y" "ymd_ok y m d" "ymd2ord y m d = t div 86400 + 719163"
proof -
  obtain y m d where o': "ord2ymd (t div 86400 + 719163) = (y, m, d)" and ok: "1 \<le> m" "m \<le> 12" "1 \<le> d"
      "ymd2ord y m d = t div 86400 + 719163" "days_before_month (is_leap y) m + d \<le> days_before_month (is_leap y) (m + 1)"
    by (rule ord2ymd_correct)
  moreover have "0 < y" "s = str_int y @ ''-'' @ two_digits m" using assms o' by (auto simp: month_label_def split: if_splits)
  ultimately show thesis using that [of y m d] days_before_next [OF ok(1,2), of y] by (simp add: ymd_ok_def)
qed

text \<open>The month context is the calendar month. The label computed from a timestamp names the proleptic
  Gregorian year and month of its UTC day, and two timestamps get the same label exactly when year and
  month are the same.\<close>

lemma month_label_calendar:
  assumes "month_label t = Some s" "month_label t' = Some s'"
  shows "\<exists>y m d y' m' d'. ymd_ok y m d \<and> ymd2ord y m d = t div 86400 + 719163 \<and> s = str_int y @ ''-'' @ two_digits m
    \<and> ymd_ok y' m' d' \<and> ymd2ord y' m' d' = t' div 86400 + 719163 \<and> (s = s' \<longleftrightarrow> y = y' \<and> m = m')"
proof -
  obtain y m d where 1: "s = str_int y @ ''-'' @ two_digits m" "0 < y" "ymd_ok y m d" "ymd2ord y m d = t div 86400 + 719163"
    using month_label_cases [OF assms(1)] .
  obtain y' m' d' where 2: "s' = str_int y' @ ''-'' @ two_digits m'" "0 < y'" "ymd_ok y' m' d'" "ymd2ord y' m' d' = t' div 86400 + 719163"
    using month_label_cases [OF assms(2)] .
  have "s = s' \<longleftrightarrow> y = y' \<and> m = m'"
    using label_inj [of y y' m m'] 1 2 by (simp add: ymd_ok_def)
  with 1 2 show ?thesis by blast
qed

lemma ex_month: "month_label 951782400 = Some ''2000-02''" "month_label 951868799 = Some ''2000-02''"
  by code_simp+

theorem month_label_calendar_witness:
  "\<exists>y m d. ymd_ok y m d \<and> ymd2ord y m d = 951782400 div 86400 + 719163 \<and> ''2000-02'' = str_int y @ ''-'' @ two_digits m"
  using month_label_calendar [OF ex_month] by blast

section \<open>The library and the files\<close>

record csv_file =
  fieldnames :: "string list option"
  csv_rows :: "(string \<Rightarrow> pystr option) list"

record 'role schema =
  supervision_edge :: "string \<times> string \<times> string"
  roles :: "(string \<times> 'role) list"

record 'role split_spec =
  sp_edge :: "string \<times> string \<times> string"
  sp_roles :: "(string \<times> 'role) list"
  sp_regime :: string
  sp_holdout :: "(string \<times> string) list option"
  sp_ratios :: "real \<times> real \<times> real"
  sp_seed :: int
  sp_undirected :: bool

text \<open>The \<open>heterosplit\<close> package: record sets \<open>'r\<close>, split results \<open>'p\<close> and roles. A call that raises gives \<open>None\<close>.\<close>

record ('r, 'p, 'role) library =
  load_drugcomb_csv :: "string \<Rightarrow> int \<Rightarrow> 'r option"
  load_movielens_csv :: "string \<Rightarrow> int \<Rightarrow> 'r option"
  read_csv :: "string \<Rightarrow> csv_file option"
  role_source :: "string \<Rightarrow> 'role"
  role_destination :: "string \<Rightarrow> 'role"
  role_context :: "string \<Rightarrow> 'role"
  from_columns :: "'role schema \<Rightarrow> (string \<times> pystr list) list \<Rightarrow> int list option \<Rightarrow> 'r option"
  rec_schema :: "'r \<Rightarrow> 'role schema"
  rec_column :: "'r \<Rightarrow> string \<Rightarrow> pystr list"
  split_records :: "'r \<Rightarrow> 'role split_spec \<Rightarrow> 'p option"
  leaks :: "'p \<Rightarrow> bool"
  counts :: "'p \<Rightarrow> (string \<times> nat) list"
  n_records :: "'r \<Rightarrow> nat"
  n_excluded :: "'p \<Rightarrow> nat"
  manifest_digest :: "'p \<Rightarrow> string"

datatype study_error = Unknown_study | Nonpositive | Missing_columns | Bad_timestamp | Missing_endpoint
  | Missing_key | Not_in_study | Leakage | Empty_partition | No_records | Library_error

section \<open>Loading records\<close>

text \<open>\<open>int(s)\<close>: surrounding white space, a sign, and decimal digits with single underscores between them.\<close>

definition grouped_digits :: "pystr \<Rightarrow> bool" where
  "grouped_digits s \<longleftrightarrow> s \<noteq> [] \<and> hd s \<noteq> 95 \<and> last s \<noteq> 95 \<and> list_all (\<lambda>c. digit_code c \<or> c = 95) s \<and> \<not> contains [95, 95] s"

definition py_int :: "pystr \<Rightarrow> int option" where
  "py_int s =
    (let t = dropWhile py_space (rev (dropWhile py_space (rev s)));
         r = (if take 1 t = [45] \<or> take 1 t = [43] then drop 1 t else t) in
     if grouped_digits r
     then Some ((if take 1 t = [45] then - 1 else 1) * int (digits_val (filter (\<lambda>c. c \<noteq> 95) r))) else None)"

definition truthy :: "pystr option \<Rightarrow> bool" where
  "truthy v \<longleftrightarrow> v \<noteq> None \<and> v \<noteq> Some []"

fun load_rows :: "(string \<Rightarrow> pystr option) list \<Rightarrow> study_error + (pystr \<times> pystr \<times> string \<times> int) list" where
  "load_rows [] = Inr []"
| "load_rows (row # rows) =
    (case Option.bind (row ''timestamp'') py_int of None \<Rightarrow> Inl Bad_timestamp
     | Some timestamp \<Rightarrow>
       (case month_label timestamp of None \<Rightarrow> Inl Bad_timestamp
        | Some month \<Rightarrow>
            if \<not> truthy (row ''userId'') \<or> \<not> truthy (row ''movieId'') then Inl Missing_endpoint
            else bindR (load_rows rows) (\<lambda>rest. Inr ((the (row ''userId''), the (row ''movieId''), month, timestamp) # rest))))"

definition rating_schema :: "('r, 'p, 'role) library \<Rightarrow> 'role schema" where
  "rating_schema lib = \<lparr>supervision_edge = (''user'', ''rates'', ''movie''),
     roles = [(''user'', role_source lib ''user''), (''movie'', role_destination lib ''movie''),
              (''rating_month'', role_context lib ''rating_month'')]\<rparr>"

definition or_library :: "'a option \<Rightarrow> study_error + 'a" where
  "or_library v = (case v of None \<Rightarrow> Inl Library_error | Some x \<Rightarrow> Inr x)"

definition load_records :: "('r, 'p, 'role) library \<Rightarrow> string \<Rightarrow> string \<Rightarrow> int \<Rightarrow> string \<Rightarrow> study_error + 'r" where
  "load_records lib dataset path max_rows study =
    (if Option.bind (map_of STUDIES study) (\<lambda>t. map_of t dataset) = None then Inl Unknown_study
     else if max_rows \<le> 0 then Inl Nonpositive
     else if dataset = ''DrugComb'' then or_library (load_drugcomb_csv lib path max_rows)
     else if study = ''original-v1'' then or_library (load_movielens_csv lib path max_rows)
     else
       bindR (or_library (read_csv lib path)) (\<lambda>f.
         if \<not> {''userId'', ''movieId'', ''rating'', ''timestamp''} \<subseteq> set (case fieldnames f of None \<Rightarrow> [] | Some ns \<Rightarrow> ns)
         then Inl Missing_columns
         else bindR (load_rows (take (nat max_rows) (csv_rows f))) (\<lambda>rows.
           or_library (from_columns lib (rating_schema lib)
             [(''user'', map fst rows), (''movie'', map (fst \<circ> snd) rows), (''rating_month'', map (asc \<circ> fst \<circ> snd \<circ> snd) rows)]
             (Some (map (snd \<circ> snd \<circ> snd) rows))))))"

lemma load_rows_aligned:
  assumes "load_rows rows = Inr out"
  shows "list_all2 (\<lambda>row (user, movie, month, timestamp). row ''userId'' = Some user \<and> user \<noteq> [] \<and> row ''movieId'' = Some movie \<and> movie \<noteq> []
    \<and> Option.bind (row ''timestamp'') py_int = Some timestamp \<and> month_label timestamp = Some month) rows out"
  using assms
proof (induction rows arbitrary: out)
  case (Cons row rows)
  then show ?case by (auto simp: truthy_def bindR_Inr_iff split: option.splits if_splits)
qed simp

text \<open>The expanded MovieLens records. Whenever the loader returns, the columns it hands to the library have one entry
  for each of the first \<open>max_rows\<close> rows of the file, in order: the row's two non-empty endpoints, its timestamp,
  and the calendar month of that timestamp.\<close>

lemma load_records_movielens:
  assumes "load_records lib ''MovieLens'' path max_rows ''expanded-v2'' = Inr r"
  shows "\<exists>f rows. 0 < max_rows \<and> read_csv lib path = Some f \<and> length rows = min (nat max_rows) (length (csv_rows f))
    \<and> (\<forall>i < length rows. case rows ! i of (user, movie, month, timestamp) \<Rightarrow>
         (csv_rows f ! i) ''userId'' = Some user \<and> user \<noteq> [] \<and> (csv_rows f ! i) ''movieId'' = Some movie \<and> movie \<noteq> []
         \<and> Option.bind ((csv_rows f ! i) ''timestamp'') py_int = Some timestamp \<and> month_label timestamp = Some month)
    \<and> from_columns lib (rating_schema lib)
        [(''user'', map fst rows), (''movie'', map (fst \<circ> snd) rows), (''rating_month'', map (asc \<circ> fst \<circ> snd \<circ> snd) rows)]
        (Some (map (snd \<circ> snd \<circ> snd) rows)) = Some r"
proof -
  have known: "map_of STUDIES ''expanded-v2'' = Some REGIMES" "map_of REGIMES ''MovieLens'' \<noteq> None"
    by (simp_all add: STUDIES_def REGIMES_def)
  from assms obtain f rows where f: "read_csv lib path = Some f" "0 < max_rows"
    and rows: "load_rows (take (nat max_rows) (csv_rows f)) = Inr rows"
    and r: "from_columns lib (rating_schema lib)
        [(''user'', map fst rows), (''movie'', map (fst \<circ> snd) rows), (''rating_month'', map (asc \<circ> fst \<circ> snd \<circ> snd) rows)]
        (Some (map (snd \<circ> snd \<circ> snd) rows)) = Some r"
    by (auto simp: load_records_def known bindR_Inr_iff or_library_def split: if_splits option.splits)
  note A = load_rows_aligned [OF rows]
  have "length rows = min (nat max_rows) (length (csv_rows f))" using list_all2_lengthD [OF A] by simp
  moreover have "case rows ! i of (user, movie, month, timestamp) \<Rightarrow>
         (csv_rows f ! i) ''userId'' = Some user \<and> user \<noteq> [] \<and> (csv_rows f ! i) ''movieId'' = Some movie \<and> movie \<noteq> []
         \<and> Option.bind ((csv_rows f ! i) ''timestamp'') py_int = Some timestamp \<and> month_label timestamp = Some month"
    if "i < length rows" for i
    using list_all2_nthD2 [OF A that] that list_all2_lengthD [OF A] by simp
  ultimately show ?thesis using f r by blast
qed

end
