(* ===== verification/Study.thy ===== *)
theory Study
  imports Protocols "HOL-Library.Multiset"
begin

text \<open>
  The splits of a study (\<open>split_protocol\<close> of \<open>examples/heterosplit/protocols.py\<close>), the check of all splits before a
  run (\<open>preflight.py\<close>) and the grid of jobs submitted for it (\<open>submit.py\<close>), up to the rows they become in the
  store.
\<close>

section \<open>Splitting\<close>

definition pair_key :: "pystr \<Rightarrow> pystr \<Rightarrow> pystr" where
  "pair_key a b = dumps (J_List (map J_Str (sort [a, b])))"

text \<open>The regime the library knows and what it holds out; \<open>pair_cell_cold_start\<close> groups by a derived column.\<close>

definition native_regime :: "string \<Rightarrow> string \<Rightarrow> string" where
  "native_regime dataset regime =
    (if regime = ''cell_cold_start'' \<or> regime = ''month_cold_start'' then ''context_cold_start''
     else if regime \<notin> set (regimes_in ORIGINAL dataset) then ''joint_cold_start'' else regime)"

definition holdout_of :: "string \<Rightarrow> string \<Rightarrow> (string \<times> string) list option" where
  "holdout_of dataset regime =
    (if regime = ''cell_cold_start'' \<or> regime = ''month_cold_start'' \<or> regime \<in> set (regimes_in ORIGINAL dataset) then None
     else if dataset = ''DrugComb'' then
       Some [(''cell_line'', ''all''),
             if regime = ''pair_cell_cold_start'' then (''drug_pair'', ''all'')
             else (''drug'', if regime = ''either_cell_cold_start'' then ''either'' else ''both'')]
     else Some ([(''rating_month'', ''all'')]
       @ (if regime = ''source_month_cold_start'' \<or> regime = ''both_month_cold_start'' then [(''user'', ''source'')] else [])
       @ (if regime = ''destination_month_cold_start'' \<or> regime = ''both_month_cold_start'' then [(''movie'', ''destination'')] else [])))"

definition with_pairs :: "('r, 'p, 'role) library \<Rightarrow> 'r \<Rightarrow> study_error + 'r" where
  "with_pairs lib records =
    (let schema = rec_schema lib records; columns = map (\<lambda>nr. (fst nr, rec_column lib records (fst nr))) (roles schema) in
     case (map_of columns ''drug_row'', map_of columns ''drug_col'') of
       (Some rows, Some cols) \<Rightarrow>
         or_library (from_columns lib \<lparr>supervision_edge = supervision_edge schema,
             roles = dict_put ''drug_pair'' (role_context lib ''drug_pair'') (roles schema)\<rparr>
           (dict_put ''drug_pair'' (map (\<lambda>(a, b). pair_key a b) (zip rows cols)) columns) None)
     | _ \<Rightarrow> Inl Missing_key)"

definition spec_of :: "('r, 'p, 'role) library \<Rightarrow> 'r \<Rightarrow> string \<Rightarrow> string \<Rightarrow> int \<Rightarrow> 'role split_spec" where
  "spec_of lib records dataset regime seed =
    \<lparr>sp_edge = supervision_edge (rec_schema lib records), sp_roles = roles (rec_schema lib records),
     sp_regime = native_regime dataset regime, sp_holdout = holdout_of dataset regime, sp_ratios = (0.8, 0.1, 0.1), sp_seed = seed,
     sp_undirected = (dataset = ''DrugComb'')\<rparr>"

definition split_protocol :: "('r, 'p, 'role) library \<Rightarrow> 'r \<Rightarrow> string \<Rightarrow> string \<Rightarrow> int \<Rightarrow> string \<Rightarrow> study_error + 'p" where
  "split_protocol lib records dataset regime seed study =
    (case Option.bind (map_of STUDIES study) (\<lambda>t. map_of t dataset) of None \<Rightarrow> Inl Missing_key
     | Some regimes \<Rightarrow>
       if regime \<notin> set regimes then Inl Not_in_study
       else bindR (if dataset = ''DrugComb'' \<and> regime = ''pair_cell_cold_start'' then with_pairs lib records else Inr records) (\<lambda>records.
         bindR (or_library (split_records lib records (spec_of lib records dataset regime seed))) (\<lambda>result.
           if leaks lib result then Inl Leakage
           else if list_ex (\<lambda>c. snd c = 0) (counts lib result) then Inl Empty_partition
           else Inr result)))"

lemma sort_eq_iff: "sort xs = sort ys \<longleftrightarrow> mset xs = mset ys"
  by (metis mset_sort sorted_list_of_multiset_mset)

text \<open>The drug pair is an unordered grouping key. Two rows get the same key exactly when they name the same two
  drugs, in either order, whatever characters the names contain.\<close>

lemma pair_key_unordered:
  assumes "list_all (list_all scalar_value) [a, b, c, d]"
  shows "pair_key a b = pair_key c d \<longleftrightarrow> {#a, b#} = {#c, d#}"
proof -
  have ok: "json_ok (J_List (map J_Str (sort [x, y])))" if "list_all scalar_value x" "list_all scalar_value y" for x y
    using that by simp
  have inj: "inj J_Str" by (simp add: inj_def)
  have "pair_key a b = pair_key c d \<longleftrightarrow> sort [a, b] = sort [c, d]"
    unfolding pair_key_def using assms
    by (subst dumps_inj [OF ok ok]) (simp_all only: json.inject inj_map_eq_map [OF inj] list.pred_inject)
  also have "\<dots> \<longleftrightarrow> mset [a, b] = mset [c, d]" by (rule sort_eq_iff)
  finally show ?thesis by simp
qed

text \<open>A split that is returned is a split of the study. Its regime belongs to the study, the library made it
  from the specification of that regime, it leaks nothing and no partition is empty. A regime of the
  original study is passed on as it is, so old jobs keep their meaning; a joint regime always holds
  out the whole context.\<close>

lemma split_protocol_sound:
  assumes "split_protocol lib records dataset regime seed study = Inr p"
  shows "\<exists>records' table regimes. map_of STUDIES study = Some table \<and> map_of table dataset = Some regimes \<and> regime \<in> set regimes
    \<and> split_records lib records' (spec_of lib records' dataset regime seed) = Some p
    \<and> \<not> leaks lib p \<and> list_all (\<lambda>c. 0 < snd c) (counts lib p)
    \<and> (study = ''original-v1'' \<longrightarrow> records' = records \<and> native_regime dataset regime = regime \<and> holdout_of dataset regime = None)
    \<and> (native_regime dataset regime = ''joint_cold_start'' \<longrightarrow>
         (\<exists>h. holdout_of dataset regime = Some h \<and> (if dataset = ''DrugComb'' then (''cell_line'', ''all'') else (''rating_month'', ''all'')) \<in> set h))"
proof -
  from assms obtain table regimes records' where t: "map_of STUDIES study = Some table" "map_of table dataset = Some regimes" "regime \<in> set regimes"
    and r: "(if dataset = ''DrugComb'' \<and> regime = ''pair_cell_cold_start'' then with_pairs lib records else Inr records) = Inr records'"
    and s: "split_records lib records' (spec_of lib records' dataset regime seed) = Some p" "\<not> leaks lib p" "\<not> list_ex (\<lambda>c. snd c = 0) (counts lib p)"
    by (auto simp: split_protocol_def or_library_def bindR_Inr_iff bind_eq_Some_conv split: option.splits if_splits)
  have old: "regime \<in> set (regimes_in ORIGINAL dataset)" "dataset = ''DrugComb'' \<or> dataset = ''MovieLens''" if "study = ''original-v1''"
    using t that by (auto simp: STUDIES_def ORIGINAL_def regimes_in_def split: if_splits)
  have "regime \<noteq> ''pair_cell_cold_start''" "native_regime dataset regime = regime" "holdout_of dataset regime = None" if "study = ''original-v1''"
    using old [OF that] by (auto simp: native_regime_def holdout_of_def regimes_in_def ORIGINAL_def)
  moreover have "regime \<noteq> ''joint_cold_start''"
    using t by (auto simp: STUDIES_def REGIMES_def ORIGINAL_def regimes_in_def split: if_splits)
  then have "\<exists>h. holdout_of dataset regime = Some h \<and> (if dataset = ''DrugComb'' then (''cell_line'', ''all'') else (''rating_month'', ''all'')) \<in> set h"
    if "native_regime dataset regime = ''joint_cold_start''"
    using that by (auto simp: native_regime_def holdout_of_def split: if_splits)
  moreover have "list_all (\<lambda>c. 0 < snd c) (counts lib p)" using s(3) by (auto simp: list_all_iff list_ex_iff)
  ultimately show ?thesis using t r s by (auto split: if_splits)
qed

section \<open>The grid of a study\<close>

record task_args =
  ta_dataset :: string
  ta_data :: string
  ta_regime :: string
  ta_model :: string
  ta_seed :: nat

definition data_file :: "string \<Rightarrow> string \<Rightarrow> string" where
  "data_file dir dataset = path_join dir (if dataset = ''DrugComb'' then ''summary_v_1_5.csv'' else ''ml/ml-latest-small/ratings.csv'')"

definition grid :: "study_table \<Rightarrow> nat \<Rightarrow> task_args list" where
  "grid table seeds = concat (map (\<lambda>(dataset, regimes). concat (map (\<lambda>regime. concat (map (\<lambda>model. map (\<lambda>seed.
     \<lparr>ta_dataset = dataset, ta_data = data_file ''/data'' dataset, ta_regime = regime, ta_model = model, ta_seed = seed\<rparr>)
     [0..<seeds]) [''MF'', ''SAGE''])) regimes)) table)"

definition job_name :: "task_args \<Rightarrow> string" where
  "job_name a = ta_dataset a @ ''-'' @ ta_regime a @ ''-'' @ ta_model a @ ''-'' @ str_nat (ta_seed a)"

definition study_job :: "string \<Rightarrow> int \<Rightarrow> int \<Rightarrow> string \<Rightarrow> task_args \<Rightarrow> job" where
  "study_job run_id epochs max_rows study a =
    \<lparr>Name = job_name a,
     Command = [''python'', ''examples/heterosplit/task.py'', ''--dataset'', ta_dataset a, ''--data'', ta_data a, ''--regime'', ta_regime a,
       ''--model'', ta_model a, ''--seed'', str_nat (ta_seed a), ''--epochs'', str_int epochs, ''--max-rows'', str_int max_rows,
       ''--study'', study],
     Environment = Some [(''OMP_NUM_THREADS'', ''1''), (''MKL_NUM_THREADS'', ''1'')],
     Resources = \<lparr>CPU = 1, MemoryMB = 2048, GPU = 0\<rparr>, MaxAttempts = 3, TimeoutSeconds = 1800,
     IdempotencyKey = ''heterosplit-'' @ study @ ''-'' @ run_id @ ''-'' @ job_name a,
     ArtifactPrefix = ''heterosplit/'' @ study @ ''/'' @ run_id @ ''/'' @ job_name a\<rparr>"

definition definitions :: "string \<Rightarrow> int \<Rightarrow> int \<Rightarrow> int \<Rightarrow> string \<Rightarrow> study_error + job list" where
  "definitions run_id seeds epochs max_rows study =
    (if min seeds (min epochs max_rows) \<le> 0 then Inl Nonpositive
     else case map_of STUDIES study of None \<Rightarrow> Inl Missing_key
     | Some table \<Rightarrow> Inr (map (study_job run_id epochs max_rows study) (grid table (nat seeds))))"

lemma distinct_concat_map:
  assumes "distinct xs" "\<And>x. x \<in> set xs \<Longrightarrow> distinct (f x)" "\<And>x y. x \<in> set xs \<Longrightarrow> y \<in> set (f x) \<Longrightarrow> key y = x"
  shows "distinct (concat (map f xs))"
  using assms by (induction xs) (auto, metis)

lemma in_concat_map: "x \<in> set xs \<Longrightarrow> y \<in> set (f x) \<Longrightarrow> y \<in> set (concat (map f xs))"
  by auto

lemma grid_mem:
  "a \<in> set (grid table seeds) \<longleftrightarrow> (\<exists>regimes. (ta_dataset a, regimes) \<in> set table \<and> ta_regime a \<in> set regimes)
     \<and> ta_data a = data_file ''/data'' (ta_dataset a) \<and> ta_model a \<in> {''MF'', ''SAGE''} \<and> ta_seed a < seeds"
proof
  assume "a \<in> set (grid table seeds)"
  then show "(\<exists>regimes. (ta_dataset a, regimes) \<in> set table \<and> ta_regime a \<in> set regimes)
     \<and> ta_data a = data_file ''/data'' (ta_dataset a) \<and> ta_model a \<in> {''MF'', ''SAGE''} \<and> ta_seed a < seeds"
    by (auto simp: grid_def)
next
  assume a: "(\<exists>regimes. (ta_dataset a, regimes) \<in> set table \<and> ta_regime a \<in> set regimes)
     \<and> ta_data a = data_file ''/data'' (ta_dataset a) \<and> ta_model a \<in> {''MF'', ''SAGE''} \<and> ta_seed a < seeds"
  then obtain regimes where r: "(ta_dataset a, regimes) \<in> set table" "ta_regime a \<in> set regimes" by blast
  have "a = \<lparr>ta_dataset = ta_dataset a, ta_data = data_file ''/data'' (ta_dataset a), ta_regime = ta_regime a, ta_model = ta_model a, ta_seed = ta_seed a\<rparr>"
    using a by (cases a) simp
  then have "a \<in> set (map (\<lambda>seed. \<lparr>ta_dataset = ta_dataset a, ta_data = data_file ''/data'' (ta_dataset a), ta_regime = ta_regime a,
      ta_model = ta_model a, ta_seed = seed\<rparr>) [0..<seeds])" unfolding set_map by (rule image_eqI) (use a in simp)
  moreover have "ta_model a \<in> set [''MF'', ''SAGE'']" using a by simp
  ultimately show "a \<in> set (grid table seeds)" unfolding grid_def
    by (intro in_concat_map [OF r(1)] in_concat_map [OF r(2)] in_concat_map [of "ta_model a"]
        | simp only: prod.case)+
qed

lemma distinct_grid:
  assumes "distinct (map fst table)" "\<And>d rs. (d, rs) \<in> set table \<Longrightarrow> distinct rs"
  shows "distinct (grid table seeds)"
proof -
  have inner: "distinct (map (\<lambda>seed. \<lparr>ta_dataset = d, ta_data = f, ta_regime = r, ta_model = m, ta_seed = seed\<rparr>) [0..<seeds])" for d f r m
    by (simp add: distinct_map inj_on_def)
  have models: "distinct (concat (map (\<lambda>m. map (\<lambda>seed. \<lparr>ta_dataset = d, ta_data = f, ta_regime = r, ta_model = m, ta_seed = seed\<rparr>) [0..<seeds])
      [''MF'', ''SAGE'']))" for d f r
    by (rule distinct_concat_map [where key = ta_model]) (use inner in auto)
  have "distinct (concat (map (\<lambda>r. concat (map (\<lambda>m. map (\<lambda>seed. \<lparr>ta_dataset = d, ta_data = f, ta_regime = r, ta_model = m, ta_seed = seed\<rparr>) [0..<seeds])
      [''MF'', ''SAGE''])) rs))" if "distinct rs" for d f rs
    by (rule distinct_concat_map [where key = ta_regime, OF that models]) auto
  moreover have "distinct table" using assms(1) by (simp add: distinct_map)
  ultimately show ?thesis unfolding grid_def
    by (intro distinct_concat_map [where key = "\<lambda>a. (ta_dataset a, the (map_of table (ta_dataset a)))"])
      (use assms in \<open>auto simp: map_of_is_SomeI\<close>)
qed

definition name_part_ok :: "nat \<Rightarrow> string \<Rightarrow> bool" where
  "name_part_ok n s \<longleftrightarrow> s \<noteq> '''' \<and> length s \<le> n \<and> list_all (\<lambda>c. c \<noteq> CHR ''-'' \<and> c \<noteq> CHR ''.'' \<and> c \<noteq> NUL) s"

definition table_ok :: "study_table \<Rightarrow> bool" where
  "table_ok t \<longleftrightarrow> distinct (map fst t) \<and> list_all (\<lambda>(d, rs). name_part_ok 9 d \<and> distinct rs \<and> list_all (name_part_ok 28) rs) t"

lemma tables_checked: "list_all (\<lambda>(s, t). table_ok t \<and> (s = ''original-v1'' \<or> s = ''expanded-v2'')) STUDIES"
  by code_simp

lemma studies_tables:
  assumes "map_of STUDIES study = Some table"
  shows "distinct (map fst table)" "\<And>d rs. (d, rs) \<in> set table \<Longrightarrow> distinct rs"
    "\<And>d rs r. (d, rs) \<in> set table \<Longrightarrow> r \<in> set rs \<Longrightarrow> CHR ''-'' \<notin> set d \<and> CHR ''-'' \<notin> set r \<and> d \<noteq> '''' \<and> length d \<le> 9 \<and> length r \<le> 28
       \<and> NUL \<notin> set d \<and> NUL \<notin> set r \<and> CHR ''.'' \<notin> set d \<and> CHR ''.'' \<notin> set r"
    "study = ''original-v1'' \<or> study = ''expanded-v2''"
proof -
  have t: "table_ok table" "study = ''original-v1'' \<or> study = ''expanded-v2''"
    using tables_checked map_of_SomeD [OF assms] by (auto simp: list_all_iff)
  then show "distinct (map fst table)" "\<And>d rs. (d, rs) \<in> set table \<Longrightarrow> distinct rs" "study = ''original-v1'' \<or> study = ''expanded-v2''"
    by (auto simp: table_ok_def list_all_iff)
  show "CHR ''-'' \<notin> set d \<and> CHR ''-'' \<notin> set r \<and> d \<noteq> '''' \<and> length d \<le> 9 \<and> length r \<le> 28
       \<and> NUL \<notin> set d \<and> NUL \<notin> set r \<and> CHR ''.'' \<notin> set d \<and> CHR ''.'' \<notin> set r" if "(d, rs) \<in> set table" "r \<in> set rs" for d rs r
  proof -
    have "name_part_ok 9 d" "name_part_ok 28 r" using t(1) that by (auto simp: table_ok_def list_all_iff)
    then show ?thesis by (auto simp: name_part_ok_def list_all_iff)
  qed
qed

lemma dash_split:
  assumes "CHR ''-'' \<notin> set a" "CHR ''-'' \<notin> set a'"
  shows "a @ CHR ''-'' # s = a' @ CHR ''-'' # s' \<longleftrightarrow> a = a' \<and> s = s'"
proof
  assume e: "a @ CHR ''-'' # s = a' @ CHR ''-'' # s'"
  have split: "takeWhile (\<lambda>c. c \<noteq> CHR ''-'') (u @ CHR ''-'' # t) = u" if "CHR ''-'' \<notin> set u" for u t
    using that by (subst takeWhile_append2) auto
  have "a = a'" using arg_cong [OF e, of "takeWhile (\<lambda>c. c \<noteq> CHR ''-'')"] by (simp only: split [OF assms(1)] split [OF assms(2)])
  with e show "a = a' \<and> s = s'" by simp
qed simp

lemma job_name_inj:
  assumes "map_of STUDIES study = Some table" "a \<in> set (grid table seeds)" "b \<in> set (grid table seeds)" "job_name a = job_name b"
  shows "a = b"
proof -
  have dash: "CHR ''-'' \<notin> set (ta_dataset x) \<and> CHR ''-'' \<notin> set (ta_regime x) \<and> CHR ''-'' \<notin> set (ta_model x)" if "x \<in> set (grid table seeds)" for x
    using that studies_tables(3) [OF assms(1)] by (auto simp: grid_mem)
  have "ta_dataset a = ta_dataset b" "ta_regime a = ta_regime b" "ta_model a = ta_model b" "ta_seed a = ta_seed b"
    using assms(4) dash [OF assms(2)] dash [OF assms(3)] by (simp_all add: job_name_def dash_split)
  moreover from this assms(2,3) have "ta_data a = ta_data b" by (simp add: grid_mem)
  ultimately show ?thesis by (intro task_args.equality) simp_all
qed

section \<open>The server accepts the grid\<close>

lemma str_nat_length: "n < 10 ^ Suc k \<Longrightarrow> length (str_nat n) \<le> Suc k"
proof (induction k arbitrary: n)
  case 0
  then show ?case by (simp add: str_nat_small)
next
  case (Suc k)
  show ?case
  proof (cases "n < 10")
    case False
    have "n div 10 < 10 ^ Suc k" using Suc.prems by (simp add: less_mult_imp_div_less)
    with Suc.IH False show ?thesis by (simp add: str_nat_big [OF False])
  qed (simp add: str_nat_small)
qed

lemma str_nat_plain: "NUL \<notin> set (str_nat n)" "CHR ''.'' \<notin> set (str_nat n)"
proof -
  have "c \<in> set (str_nat n) \<Longrightarrow> 48 \<le> (of_char c :: nat)" for c
    using str_nat_digits [of c n] of_char_digit by fastforce
  moreover have "(of_char NUL :: nat) = 0" "(of_char (CHR ''.'') :: nat) = 46" by (simp_all add: NUL_def)
  ultimately show "NUL \<notin> set (str_nat n)" "CHR ''.'' \<notin> set (str_nat n)" by fastforce+
qed

lemma str_int_plain: "NUL \<notin> set (str_int i)"
  using str_nat_plain by (simp add: str_int_def NUL_def)

definition run_ok :: "string \<Rightarrow> bool" where
  "run_ok run_id \<longleftrightarrow> length run_id \<le> 100 \<and> NUL \<notin> set run_id \<and> \<not> contains ''..'' run_id"

lemma study_job_parts:
  assumes "map_of STUDIES study = Some table" "a \<in> set (grid table seeds)" "seeds \<le> 1000"
  shows "length (job_name a) \<le> 47" "job_name a \<noteq> ''''" "CHR ''.'' \<notin> set (job_name a)"
    "NUL \<notin> set (ta_dataset a) \<union> set (ta_data a) \<union> set (ta_regime a) \<union> set (ta_model a) \<union> set study"
    "length study = 11" "CHR ''.'' \<notin> set study"
proof -
  have a: "\<exists>rs. (ta_dataset a, rs) \<in> set table \<and> ta_regime a \<in> set rs" "ta_data a = data_file ''/data'' (ta_dataset a)"
    "ta_model a = ''MF'' \<or> ta_model a = ''SAGE''" "ta_seed a < 10 ^ Suc 2"
    using assms(2,3) by (auto simp: grid_mem)
  then have d: "CHR ''.'' \<notin> set (ta_dataset a)" "CHR ''.'' \<notin> set (ta_regime a)" "ta_dataset a \<noteq> ''''" "length (ta_dataset a) \<le> 9"
    "length (ta_regime a) \<le> 28" "NUL \<notin> set (ta_dataset a)" "NUL \<notin> set (ta_regime a)"
    using studies_tables(3) [OF assms(1)] by blast+
  show "length (job_name a) \<le> 47" using d(4,5) a(3) str_nat_length [OF a(4)] by (auto simp: job_name_def)
  show "job_name a \<noteq> ''''" using d(3) by (simp add: job_name_def)
  show "CHR ''.'' \<notin> set (job_name a)" using d(1,2) a(3) str_nat_plain(2) [of "ta_seed a"] by (auto simp: job_name_def)
  show "length study = 11" "CHR ''.'' \<notin> set study" using studies_tables(4) [OF assms(1)] by auto
  show "NUL \<notin> set (ta_dataset a) \<union> set (ta_data a) \<union> set (ta_regime a) \<union> set (ta_model a) \<union> set study"
    using d(6,7) a(2,3) studies_tables(4) [OF assms(1)] by (auto simp: data_file_def path_join_def NUL_def)
qed

lemma study_job_valid:
  assumes "map_of STUDIES study = Some table" "a \<in> set (grid table seeds)" "seeds \<le> 1000" "run_ok run_id"
  shows "Validate (study_job run_id epochs max_rows study a) = None"
proof -
  let ?j = "study_job run_id epochs max_rows study a"
  note P = study_job_parts [OF assms(1-3)]
  have name: "Name ?j \<noteq> []" "length (Name ?j) \<le> 256" "IdempotencyKey ?j \<noteq> []" "length (IdempotencyKey ?j) \<le> 256"
    using P(1,2,5) assms(4) by (simp_all add: study_job_def run_ok_def)
  have cmd: "\<not> list_ex (\<lambda>a. NUL \<in> set a) (Command ?j)" "Command ?j \<noteq> []" "hd (Command ?j) \<noteq> []" "length (Command ?j) \<le> 1024"
    using P(4) by (simp_all add: study_job_def str_nat_plain str_int_plain) (simp add: NUL_def)
  have env: "list_all env_entry_ok (env_of ?j)"
    by (simp add: study_job_def env_of_def env_entry_ok_def envKey_def is_alpha_us_def NUL_def)
  have "contains ''..'' (ArtifactPrefix ?j) \<longleftrightarrow> contains ''..'' run_id"
    using no_dot_no_dots [OF P(3)] no_dot_no_dots [OF P(6)]
    by (simp add: study_job_def contains_dots_split contains_dots_Cons)
  then have pre: "\<not> prefix ''/'' (ArtifactPrefix ?j)" "\<not> contains ''..'' (ArtifactPrefix ?j)" "length (ArtifactPrefix ?j) \<le> 512"
    using P(1,5) assms(4) by (simp_all add: study_job_def run_ok_def)
  have lim: "Valid (Resources ?j)" "1 \<le> CPU (Resources ?j)" "1 \<le> MemoryMB (Resources ?j)" "MaxAttempts ?j = 3" "TimeoutSeconds ?j = 1800"
    by (simp_all add: study_job_def Valid_def)
  show ?thesis unfolding Validate_def using name cmd env pre lim by (simp add: not_less)
qed

lemma submit_loop_fresh:
  assumes "distinct (map IdempotencyKey js)" "\<And>j. j \<in> set js \<Longrightarrow> IdempotencyKey j \<notin> j_key ` set (jobs d)"
    and "list_all job_text js" "inj (Ids e)" "\<And>k. n \<le> k \<Longrightarrow> Ids e k \<notin> j_id ` set (jobs d)"
  shows "\<exists>rows d'. submit_loop e n js d = Inr (rows, d') \<and> jobs d' = jobs d @ rows \<and> map j_def rows = js \<and> list_all (\<lambda>r. j_state r = QUEUED) rows"
  using assms(1,2,3,5)
proof (induction js arbitrary: n d)
  case (Cons j js)
  let ?row = "\<lparr>j_id = Ids e n, j_key = IdempotencyKey j, j_def = j, j_state = QUEUED, j_res = Resources j, j_max = MaxAttempts j,
    j_created = Clk e n, j_updated = Clk e n\<rparr>"
  let ?d = "event (Ids e n) None ''SUBMITTED'' EP_Submitted (Clk e n) (d\<lparr>jobs := jobs d @ [?row]\<rparr>)"
  have new: "IdempotencyKey j \<notin> j_key ` set (jobs d)" "Ids e n \<notin> j_id ` set (jobs d)" using Cons.prems by auto
  have "lookup_by j_key (IdempotencyKey j) (jobs d @ [?row]) = Some ?row" by (rule lookup_by_append_new [OF new(1)]) simp
  then have one: "submit_one (Ids e n) (Clk e n) j d = Inr (?row, ?d)"
    using new Cons.prems(3) by (simp add: submit_one_def insert_job_def bindR_simps)
  have jobs: "jobs ?d = jobs d @ [?row]" by (simp add: event_def)
  have "\<exists>rows d'. submit_loop e (Suc n) js ?d = Inr (rows, d') \<and> jobs d' = jobs ?d @ rows \<and> map j_def rows = js
      \<and> list_all (\<lambda>r. j_state r = QUEUED) rows"
  proof (rule Cons.IH)
    show "distinct (map IdempotencyKey js)" using Cons.prems(1) by simp
    show "list_all job_text js" using Cons.prems(3) by simp
    show "IdempotencyKey i \<notin> j_key ` set (jobs ?d)" if "i \<in> set js" for i
    proof -
      have "IdempotencyKey i \<noteq> IdempotencyKey j" using Cons.prems(1) that by (metis distinct.simps(2) image_eqI list.map(2) set_map)
      with Cons.prems(2) [of i] that show ?thesis by (simp add: jobs)
    qed
    show "Ids e k \<notin> j_id ` set (jobs ?d)" if "Suc n \<le> k" for k
    proof -
      have "Ids e k \<noteq> Ids e n" using assms(4) that by (auto dest: injD)
      with Cons.prems(4) [of k] that show ?thesis by (simp add: jobs)
    qed
  qed
  then obtain rows d' where "submit_loop e (Suc n) js ?d = Inr (rows, d')" "jobs d' = jobs ?d @ rows" "map j_def rows = js"
    "list_all (\<lambda>r. j_state r = QUEUED) rows" by blast
  with one show ?case by (auto simp: bindR_simps jobs)
qed simp

lemma study_keys_distinct:
  assumes "map_of STUDIES study = Some table"
  shows "distinct (map IdempotencyKey (map (study_job run_id epochs max_rows study) (grid table seeds)))"
proof -
  have "distinct (grid table seeds)" by (rule distinct_grid) (use studies_tables(1,2) [OF assms] in auto)
  moreover have "inj_on (IdempotencyKey \<circ> study_job run_id epochs max_rows study) (set (grid table seeds))"
    using job_name_inj [OF assms] by (auto simp: inj_on_def study_job_def)
  ultimately show ?thesis by (simp add: distinct_map)
qed

lemma grid_length: "length (grid table seeds) = 2 * seeds * sum_list (map (length \<circ> snd) table)"
  by (induction table) (auto simp: grid_def length_concat comp_def sum_list_triv algebra_simps)

text \<open>C39: A submitted study becomes its grid. With fresh identifiers and an unused run id, the store accepts the batch
  of a study and inserts exactly one queued job for every combination of dataset, regime, model and
  seed, sixteen regimes times two models times the seeds for the expanded study; no two jobs share
  an idempotency key, and every one passes the server's validation.\<close>

theorem study_submitted:
  assumes def: "definitions run_id seeds epochs max_rows study = Inr js" and run: "run_ok run_id" and "seeds \<le> 31"
    and fresh: "inj (Ids e)" "\<And>k. Ids e k \<notin> j_id ` set (jobs d)" "\<And>j. j \<in> set js \<Longrightarrow> IdempotencyKey j \<notin> j_key ` set (jobs d)"
  shows "\<exists>rows d'. Submit e js d = Inr (rows, d') \<and> jobs d' = jobs d @ rows \<and> map j_def rows = js \<and> list_all (\<lambda>r. j_state r = QUEUED) rows
    \<and> distinct (map IdempotencyKey js) \<and> length js = nat seeds * (if study = ''expanded-v2'' then 32 else 16)
    \<and> (\<forall>d rs r m s. (d, rs) \<in> set (the (map_of STUDIES study)) \<and> r \<in> set rs \<and> m \<in> {''MF'', ''SAGE''} \<and> s < nat seeds \<longrightarrow>
         (\<exists>j \<in> set js. Name j = d @ ''-'' @ r @ ''-'' @ m @ ''-'' @ str_nat s))"
proof -
  from def obtain table where t: "map_of STUDIES study = Some table" and seeds: "0 < seeds"
    and js: "js = map (study_job run_id epochs max_rows study) (grid table (nat seeds))"
    by (auto simp: definitions_def split: if_splits option.splits)
  have len: "length js = nat seeds * (if study = ''expanded-v2'' then 32 else 16)"
    using t by (auto simp: js grid_length STUDIES_def REGIMES_def ORIGINAL_def regimes_in_def split: if_splits)
  have valid: "\<not> list_ex (\<lambda>j. Validate j \<noteq> None) js"
    using study_job_valid [OF t _ _ run] assms(3) by (auto simp: js list_ex_iff)
  have keys: "distinct (map IdempotencyKey js)" unfolding js by (rule study_keys_distinct [OF t])
  have "NUL \<notin> set (Name j) \<union> set (ArtifactPrefix j) \<union> set (IdempotencyKey j)" if "j \<in> set js" for j
  proof -
    from that obtain a where a: "a \<in> set (grid table (nat seeds))" "j = study_job run_id epochs max_rows study a" by (auto simp: js)
    with study_job_parts(4) [OF t a(1)] assms(3) run show ?thesis
      by (auto simp: study_job_def job_name_def run_ok_def str_nat_plain) (auto simp: NUL_def)
  qed
  then have texts: "list_all job_text js" "list_all (\<lambda>j. pg_text (IdempotencyKey j)) js" by (auto simp: list_all_iff job_text_def pg_text_def)
  from submit_loop_fresh [OF keys fresh(3) texts(1) fresh(1,2)] obtain rows d' where sub: "submit_loop e 0 js d = Inr (rows, d')" "jobs d' = jobs d @ rows"
    "map j_def rows = js" "list_all (\<lambda>r. j_state r = QUEUED) rows" by blast
  have named: "\<exists>j \<in> set js. Name j = d @ ''-'' @ r @ ''-'' @ m @ ''-'' @ str_nat s"
    if "(d, rs) \<in> set table" "r \<in> set rs" "m \<in> {''MF'', ''SAGE''}" "s < nat seeds" for d rs r m s
  proof -
    let ?a = "\<lparr>ta_dataset = d, ta_data = data_file ''/data'' d, ta_regime = r, ta_model = m, ta_seed = s\<rparr>"
    have "?a \<in> set (grid table (nat seeds))" using that by (auto simp: grid_mem)
    then have "study_job run_id epochs max_rows study ?a \<in> set js" by (simp add: js)
    then show ?thesis by (rule bexI [rotated]) (simp add: study_job_def job_name_def)
  qed
  have "\<not> length js < 1" "\<not> 1000 < length js" using len seeds assms(3) by (auto split: if_splits)
  then have "Submit e js d = Inr (rows, d')" using sub(1) valid texts(2) by (simp add: Submit_def)
  with sub(2-4) keys len named show ?thesis unfolding t option.sel by blast
qed

definition ex_fresh :: txenv where
  "ex_fresh = (ex_env 0)\<lparr>Ids := str_nat\<rparr>"

theorem study_submitted_witness:
  "\<exists>js rows d'. definitions ''run1'' 1 3 1000 ''original-v1'' = Inr js \<and> Submit ex_fresh js empty_db = Inr (rows, d') \<and> length rows = 16"
proof -
  obtain js where js: "definitions ''run1'' 1 3 1000 ''original-v1'' = Inr js" by (simp add: definitions_def STUDIES_def)
  have "run_ok ''run1''" by (simp add: run_ok_def NUL_def)
  then obtain rows d' where "Submit ex_fresh js empty_db = Inr (rows, d')" "map j_def rows = js" "length js = 16"
    using study_submitted [OF js, of ex_fresh empty_db] by (auto simp: inj_def ex_fresh_def empty_db_def)
  then show ?thesis using js by (metis length_map)
qed

section \<open>Checking the splits beforehand\<close>

record preflight_row =
  pf_dataset :: string
  pf_regime :: string
  pf_seed :: nat
  pf_records :: nat
  pf_counts :: "(string \<times> nat) list"
  pf_excluded :: nat
  pf_digest :: string

fun collect :: "('a \<Rightarrow> study_error + 'b list) \<Rightarrow> 'a list \<Rightarrow> study_error + 'b list" where
  "collect f [] = Inr []"
| "collect f (x # xs) = bindR (f x) (\<lambda>ys. bindR (collect f xs) (\<lambda>zs. Inr (ys @ zs)))"

definition preflight_split :: "('r, 'p, 'role) library \<Rightarrow> 'r \<Rightarrow> string \<Rightarrow> string \<Rightarrow> string \<Rightarrow> nat \<Rightarrow> study_error + preflight_row list" where
  "preflight_split lib records study dataset regime seed =
    bindR (split_protocol lib records dataset regime (int seed) study) (\<lambda>result.
      Inr [\<lparr>pf_dataset = dataset, pf_regime = regime, pf_seed = seed, pf_records = n_records lib records,
            pf_counts = counts lib result, pf_excluded = n_excluded lib result, pf_digest = manifest_digest lib result\<rparr>])"

definition preflight_dataset :: "('r, 'p, 'role) library \<Rightarrow> string \<Rightarrow> int \<Rightarrow> string \<Rightarrow> string \<times> string list \<Rightarrow> study_error + preflight_row list" where
  "preflight_dataset lib dir max_rows study = (\<lambda>(dataset, regimes).
    bindR (load_records lib dataset (data_file dir dataset) max_rows study) (\<lambda>records.
      if n_records lib records = 0 then Inl No_records
      else collect (\<lambda>regime. collect (preflight_split lib records study dataset regime) [0..<5]) regimes))"

definition preflight :: "('r, 'p, 'role) library \<Rightarrow> string \<Rightarrow> int \<Rightarrow> string \<Rightarrow> study_error + preflight_row list" where
  "preflight lib dir max_rows study =
    (case map_of STUDIES study of None \<Rightarrow> Inl Missing_key | Some table \<Rightarrow> collect (preflight_dataset lib dir max_rows study) table)"

lemma collect_each: "collect f xs = Inr ys \<Longrightarrow> x \<in> set xs \<Longrightarrow> \<exists>zs. f x = Inr zs \<and> set zs \<subseteq> set ys"
proof (induction xs arbitrary: ys)
  case (Cons a xs)
  then obtain us vs where "f a = Inr us" "collect f xs = Inr vs" "ys = us @ vs" by (auto simp: bindR_Inr_iff)
  with Cons show ?case by (cases "x = a") fastforce+
qed simp

lemma collect_length:
  assumes "collect f xs = Inr ys" "\<And>x zs. x \<in> set xs \<Longrightarrow> f x = Inr zs \<Longrightarrow> length zs = g x"
  shows "length ys = sum_list (map g xs)"
  using assms by (induction xs arbitrary: ys) (auto simp: bindR_Inr_iff)

lemma preflight_splits:
  assumes pf: "preflight lib dir max_rows study = Inr rows" and t: "map_of STUDIES study = Some table"
    and m: "(dataset, regimes) \<in> set table" "regime \<in> set regimes" "seed < 5"
  obtains records p where "load_records lib dataset (data_file dir dataset) max_rows study = Inr records" "0 < n_records lib records"
    "split_protocol lib records dataset regime (int seed) study = Inr p"
    "\<exists>row \<in> set rows. pf_dataset row = dataset \<and> pf_regime row = regime \<and> pf_seed row = seed \<and> pf_digest row = manifest_digest lib p"
proof -
  from pf t have "collect (preflight_dataset lib dir max_rows study) table = Inr rows" by (simp add: preflight_def)
  then obtain zs where z: "preflight_dataset lib dir max_rows study (dataset, regimes) = Inr zs" "set zs \<subseteq> set rows"
    using collect_each [OF _ m(1)] by blast
  then obtain records where r: "load_records lib dataset (data_file dir dataset) max_rows study = Inr records" "n_records lib records \<noteq> 0"
    and c: "collect (\<lambda>regime. collect (preflight_split lib records study dataset regime) [0..<5]) regimes = Inr zs"
    by (auto simp: preflight_dataset_def bindR_Inr_iff simp del: upt_rec_numeral split: if_splits)
  from c obtain ws where w: "collect (preflight_split lib records study dataset regime) [0..<5] = Inr ws" "set ws \<subseteq> set zs"
    using collect_each [OF _ m(2)] by blast
  have "seed \<in> set [0..<5]" using m(3) by simp
  from collect_each [OF w(1) this] obtain vs where v: "preflight_split lib records study dataset regime seed = Inr vs" "set vs \<subseteq> set ws" by blast
  then obtain p where p: "split_protocol lib records dataset regime (int seed) study = Inr p"
    and vs: "\<exists>row \<in> set vs. pf_dataset row = dataset \<and> pf_regime row = regime \<and> pf_seed row = seed \<and> pf_digest row = manifest_digest lib p"
    by (auto simp: preflight_split_def bindR_Inr_iff)
  from r have n: "0 < n_records lib records" by simp
  show thesis by (rule that [OF r(1) n p]) (use vs v(2) w(2) z(2) in blast)
qed

text \<open>C40: A passed preflight covers the grid. When the preflight of a study returns, every task of its grid with one of
  the five default seeds finds its data and gets its split: the records load, they are not empty, and the split
  of the task's regime and seed succeeds and is recorded with its digest; there is one row for each
  regime and seed.\<close>

theorem preflight_covers_grid:
  assumes "preflight lib ''/data'' max_rows study = Inr rows" "map_of STUDIES study = Some table" "a \<in> set (grid table seeds)" "seeds \<le> 5"
  shows "(\<exists>records p. load_records lib (ta_dataset a) (ta_data a) max_rows study = Inr records \<and> 0 < n_records lib records
      \<and> split_protocol lib records (ta_dataset a) (ta_regime a) (int (ta_seed a)) study = Inr p
      \<and> (\<exists>row \<in> set rows. pf_dataset row = ta_dataset a \<and> pf_regime row = ta_regime a \<and> pf_seed row = ta_seed a
           \<and> pf_digest row = manifest_digest lib p))
    \<and> length rows = 5 * sum_list (map (length \<circ> snd) table)"
proof -
  obtain regimes where a: "(ta_dataset a, regimes) \<in> set table" "ta_regime a \<in> set regimes" "ta_seed a < 5"
    "ta_data a = data_file ''/data'' (ta_dataset a)"
    using assms(3,4) by (auto simp: grid_mem)
  have one: "length zs = 1" if "preflight_split lib records study dataset regime seed = Inr zs" for records dataset regime seed zs
    using that by (auto simp: preflight_split_def bindR_Inr_iff)
  have five: "length zs = 5" if "collect (preflight_split lib records study dataset regime) [0..<5] = Inr zs" for records dataset regime zs
    using collect_length [OF that, of "\<lambda>_. 1"] one by (simp add: sum_list_triv del: upt_rec_numeral)
  have ds: "length zs = 5 * length (snd dr)" if "preflight_dataset lib ''/data'' max_rows study dr = Inr zs" for dr zs
    using that by (auto simp: preflight_dataset_def bindR_Inr_iff sum_list_triv simp del: upt_rec_numeral split: if_splits prod.splits
        dest!: collect_length [where g = "\<lambda>_. 5"] five)
  have "collect (preflight_dataset lib ''/data'' max_rows study) table = Inr rows" using assms(1,2) by (simp add: preflight_def)
  from collect_length [OF this, of "\<lambda>dr. 5 * length (snd dr)"] ds
  have "length rows = sum_list (map (\<lambda>dr. 5 * length (snd dr)) table)" by blast
  moreover have "\<dots> = 5 * sum_list (map (length \<circ> snd) table)" by (simp add: sum_list_const_mult comp_def)
  moreover obtain records p where "load_records lib (ta_dataset a) (data_file ''/data'' (ta_dataset a)) max_rows study = Inr records" "0 < n_records lib records"
    "split_protocol lib records (ta_dataset a) (ta_regime a) (int (ta_seed a)) study = Inr p"
    "\<exists>row \<in> set rows. pf_dataset row = ta_dataset a \<and> pf_regime row = ta_regime a \<and> pf_seed row = ta_seed a \<and> pf_digest row = manifest_digest lib p"
    using preflight_splits [OF assms(1,2) a(1-3)] by blast
  ultimately show ?thesis unfolding a(4) by metis
qed

definition ex_csv :: csv_file where
  "ex_csv = \<lparr>fieldnames = Some [''userId'', ''movieId'', ''rating'', ''timestamp''],
     csv_rows = [[''userId'' \<mapsto> asc ''7'', ''movieId'' \<mapsto> asc ''31'', ''rating'' \<mapsto> asc ''4.0'', ''timestamp'' \<mapsto> asc '' 951782400'']]\<rparr>"

definition ex_lib :: "((string \<times> pystr list) list, nat, string) library" where
  "ex_lib = \<lparr>load_drugcomb_csv = (\<lambda>p n. Some []), load_movielens_csv = (\<lambda>p n. Some []), read_csv = (\<lambda>p. Some ex_csv),
     role_source = (@) ''source '', role_destination = (@) ''destination '', role_context = (@) ''context '',
     from_columns = (\<lambda>s c t. Some c),
     rec_schema = (\<lambda>r. \<lparr>supervision_edge = (''drug'', ''with'', ''drug''), roles = [(''drug_row'', ''source drug''), (''drug_col'', ''destination drug'')]\<rparr>),
     rec_column = (\<lambda>r n. [asc n]), split_records = (\<lambda>r s. Some 1), leaks = (\<lambda>p. False), counts = (\<lambda>p. [(''train'', 8), (''test'', 1)]),
     n_records = (\<lambda>r. 9), n_excluded = (\<lambda>p. 0), manifest_digest = (\<lambda>p. ''m'')\<rparr>"

lemma ex_timestamp: "py_int (asc '' 951782400'') = Some 951782400"
  by (simp add: py_int_def grouped_digits_def digit_code_def py_space_def digits_val_def)

lemma ex_load:
  "load_records ex_lib ''MovieLens'' ''ratings.csv'' 10 ''expanded-v2''
    = Inr [(''user'', [asc ''7'']), (''movie'', [asc ''31'']), (''rating_month'', [asc ''2000-02''])]"
  by (simp add: load_records_def ex_lib_def ex_csv_def STUDIES_def REGIMES_def or_library_def bindR_simps ex_timestamp ex_month truthy_def
      del: asc_simps) simp

theorem load_records_movielens_witness:
  "\<exists>user month. month_label 951782400 = Some month
    \<and> from_columns ex_lib (rating_schema ex_lib) [(''user'', [user]), (''movie'', [asc ''31'']), (''rating_month'', [asc month])] (Some [951782400])
      = Some [(''user'', [asc ''7'']), (''movie'', [asc ''31'']), (''rating_month'', [asc ''2000-02''])]"
proof -
  from load_records_movielens [OF ex_load] obtain f rows where f: "read_csv ex_lib ''ratings.csv'' = Some f"
    and len: "length rows = min (nat 10) (length (csv_rows f))"
    and each: "\<forall>i < length rows. case rows ! i of (user, movie, month, timestamp) \<Rightarrow>
         (csv_rows f ! i) ''userId'' = Some user \<and> user \<noteq> [] \<and> (csv_rows f ! i) ''movieId'' = Some movie \<and> movie \<noteq> []
         \<and> Option.bind ((csv_rows f ! i) ''timestamp'') py_int = Some timestamp \<and> month_label timestamp = Some month"
    and cols: "from_columns ex_lib (rating_schema ex_lib)
        [(''user'', map fst rows), (''movie'', map (fst \<circ> snd) rows), (''rating_month'', map (asc \<circ> fst \<circ> snd \<circ> snd) rows)]
        (Some (map (snd \<circ> snd \<circ> snd) rows)) = Some [(''user'', [asc ''7'']), (''movie'', [asc ''31'']), (''rating_month'', [asc ''2000-02''])]" by blast
  have "f = ex_csv" using f by (simp add: ex_lib_def)
  with len obtain u m mo t where rows: "rows = [(u, m, mo, t)]" by (cases rows) (auto simp: ex_csv_def)
  with each \<open>f = ex_csv\<close> have "u = asc ''7''" "m = asc ''31''" "t = 951782400" "month_label t = Some mo"
    by (auto simp: ex_csv_def ex_timestamp simp del: asc_simps)
  then show ?thesis using cols rows by (auto simp del: asc_simps)
qed

theorem split_protocol_sound_witness:
  "split_protocol ex_lib [] ''DrugComb'' ''pair_cell_cold_start'' 3 ''expanded-v2'' = Inr 1 \<and> \<not> leaks ex_lib 1
    \<and> holdout_of ''DrugComb'' ''pair_cell_cold_start'' = Some [(''cell_line'', ''all''), (''drug_pair'', ''all'')]"
proof -
  have s: "split_protocol ex_lib [] ''DrugComb'' ''pair_cell_cold_start'' 3 ''expanded-v2'' = Inr 1"
    by (simp add: split_protocol_def ex_lib_def STUDIES_def REGIMES_def or_library_def bindR_simps with_pairs_def Let_def)
  with split_protocol_sound [OF s] show ?thesis by (auto simp: holdout_of_def regimes_in_def ORIGINAL_def)
qed

lemma collect_all: "(\<And>x. x \<in> set xs \<Longrightarrow> \<exists>ys. f x = Inr ys) \<Longrightarrow> \<exists>zs. collect f xs = Inr zs"
proof (induction xs)
  case (Cons x xs)
  then obtain ys zs where "f x = Inr ys" "collect f xs = Inr zs" by (metis list.set_intros)
  then show ?case by (simp add: bindR_simps)
qed simp

lemma ex_lib_sel:
  "split_records ex_lib r spec = Some 1" "leaks ex_lib p = False" "counts ex_lib p = [(''train'', 8), (''test'', 1)]" "n_records ex_lib r = 9"
  "load_drugcomb_csv ex_lib f n = Some []" "load_movielens_csv ex_lib f n = Some []"
  by (simp_all add: ex_lib_def)

lemma original_tables:
  assumes "d = ''DrugComb'' \<or> d = ''MovieLens''"
  shows "map_of STUDIES ''original-v1'' = Some ORIGINAL" "map_of ORIGINAL d = Some (regimes_in ORIGINAL d)"
    "''pair_cell_cold_start'' \<notin> set (regimes_in ORIGINAL d)"
  using assms by (auto simp: STUDIES_def ORIGINAL_def regimes_in_def)

lemma ex_preflight: "\<exists>rows. preflight ex_lib ''/data'' 10 ''original-v1'' = Inr rows"
proof -
  have one: "\<exists>zs. preflight_dataset ex_lib ''/data'' 10 ''original-v1'' (d, regimes_in ORIGINAL d) = Inr zs"
    if d: "d = ''DrugComb'' \<or> d = ''MovieLens''" for d
  proof -
    note T = original_tables [OF d]
    have split: "\<exists>rows. preflight_split ex_lib r ''original-v1'' d regime s = Inr rows" if "regime \<in> set (regimes_in ORIGINAL d)" for r regime s
    proof -
      have "regime \<noteq> ''pair_cell_cold_start''" using T(3) that by blast
      with that show ?thesis by (simp add: preflight_split_def split_protocol_def T(1,2) ex_lib_sel or_library_def bindR_simps)
    qed
    obtain r where "load_records ex_lib d (data_file ''/data'' d) 10 ''original-v1'' = Inr r"
      using d by (auto simp: load_records_def T(1,2) [unfolded d] ex_lib_sel or_library_def)
    moreover have "\<exists>zs. collect (\<lambda>regime. collect (preflight_split ex_lib r ''original-v1'' d regime) [0..<5]) (regimes_in ORIGINAL d) = Inr zs" for r
      by (intro collect_all) (use split in blast)
    ultimately show ?thesis by (simp add: preflight_dataset_def ex_lib_sel bindR_simps del: upt_rec_numeral)
  qed
  have "fst dr = ''DrugComb'' \<or> fst dr = ''MovieLens''" "snd dr = regimes_in ORIGINAL (fst dr)" if "dr \<in> set ORIGINAL" for dr
    using that by (auto simp: ORIGINAL_def regimes_in_def)
  then have "\<exists>zs. preflight_dataset ex_lib ''/data'' 10 ''original-v1'' dr = Inr zs" if "dr \<in> set ORIGINAL" for dr
    using one [of "fst dr"] that by (metis prod.collapse)
  then have "\<exists>zs. collect (preflight_dataset ex_lib ''/data'' 10 ''original-v1'') ORIGINAL = Inr zs" by (intro collect_all)
  then show ?thesis by (simp add: preflight_def original_tables(1) [of "''DrugComb''"])
qed

theorem preflight_covers_grid_witness:
  "\<exists>records p. load_records ex_lib ''DrugComb'' ''/data/summary_v_1_5.csv'' 10 ''original-v1'' = Inr records
    \<and> split_protocol ex_lib records ''DrugComb'' ''either_cold_start'' 4 ''original-v1'' = Inr p"
proof -
  let ?a = "\<lparr>ta_dataset = ''DrugComb'', ta_data = ''/data/summary_v_1_5.csv'', ta_regime = ''either_cold_start'', ta_model = ''MF'', ta_seed = 4\<rparr>"
  obtain rows where rows: "preflight ex_lib ''/data'' 10 ''original-v1'' = Inr rows" using ex_preflight by blast
  have t: "map_of STUDIES ''original-v1'' = Some ORIGINAL" by (simp add: STUDIES_def)
  have "?a \<in> set (grid ORIGINAL 5)" by (simp add: grid_mem ORIGINAL_def data_file_def path_join_def)
  from preflight_covers_grid [OF rows t this] show ?thesis by auto
qed

end
