(* ===== verification/Base64.thy ===== *)
theory Base64
  imports Json
begin

text \<open>
  Python's \<open>base64.b64encode\<close> and \<open>base64.b64decode\<close>, which carry binary training state inside a JSON
  checkpoint. The decoder is the permissive one the example calls: it skips characters outside the alphabet and
  stops at complete padding.
\<close>

definition b64_char :: "nat \<Rightarrow> nat" where
  "b64_char n = (if n < 26 then 65 + n else if n < 52 then 71 + n else if n < 62 then n - 4 else if n = 62 then 43 else 47)"

definition b64_val :: "nat \<Rightarrow> nat option" where
  "b64_val c = (if 65 \<le> c \<and> c \<le> 90 then Some (c - 65) else if 97 \<le> c \<and> c \<le> 122 then Some (c - 71)
     else if 48 \<le> c \<and> c \<le> 57 then Some (c + 4) else if c = 43 then Some 62 else if c = 47 then Some 63 else None)"

fun b64encode :: "nat list \<Rightarrow> pystr" where
  "b64encode [] = []"
| "b64encode [a] = [b64_char (a div 4), b64_char (a mod 4 * 16), 61, 61]"
| "b64encode [a, b] = [b64_char (a div 4), b64_char (a mod 4 * 16 + b div 16), b64_char (b mod 16 * 4), 61]"
| "b64encode (a # b # c # r) =
    b64_char (a div 4) # b64_char (a mod 4 * 16 + b div 16) # b64_char (b mod 16 * 4 + c div 64) # b64_char (c mod 64) # b64encode r"

text \<open>The position in a group of four, the bits left over from the last character, and the padding seen.\<close>

fun b64_scan :: "nat \<Rightarrow> nat \<Rightarrow> nat \<Rightarrow> pystr \<Rightarrow> nat list option" where
  "b64_scan quad left pads [] = (if quad = 0 then Some [] else None)"
| "b64_scan quad left pads (c # cs) =
    (if c = 61 then
       (if quad \<ge> 2 \<and> quad + pads + 1 \<ge> 4 then Some [] else b64_scan quad left (if quad \<ge> 2 then pads + 1 else pads) cs)
     else case b64_val c of
       None \<Rightarrow> b64_scan quad left pads cs
     | Some v \<Rightarrow>
         if quad = 0 then b64_scan 1 v 0 cs
         else if quad = 1 then map_option ((#) (left * 4 + v div 16)) (b64_scan 2 (v mod 16) 0 cs)
         else if quad = 2 then map_option ((#) (left * 16 + v div 4)) (b64_scan 3 (v mod 4) 0 cs)
         else map_option ((#) (left * 64 + v)) (b64_scan 0 0 0 cs))"

definition b64decode :: "pystr \<Rightarrow> nat list option" where
  "b64decode s = (if list_all (\<lambda>c. c < 128) s then b64_scan 0 0 0 s else None)"

definition is_bytes :: "nat list \<Rightarrow> bool" where
  "is_bytes bs \<longleftrightarrow> list_all (\<lambda>b. b < 256) bs"

lemma b64_val_char:
  assumes "n < 64"
  shows "b64_val (b64_char n) = Some n" "b64_char n \<noteq> 61" "printable (b64_char n)"
proof -
  consider "n < 26" | "26 \<le> n" "n < 52" | "52 \<le> n" "n < 62" | "n = 62" | "n = 63" using assms by linarith
  then have "b64_val (b64_char n) = Some n \<and> b64_char n \<noteq> 61 \<and> printable (b64_char n)"
    by cases (simp_all add: b64_val_def b64_char_def printable_def, linarith?)
  then show "b64_val (b64_char n) = Some n" "b64_char n \<noteq> 61" "printable (b64_char n)" by simp_all
qed

lemma b64_step:
  assumes "n < 64"
  shows "b64_scan quad left pads (b64_char n # cs) =
    (if quad = 0 then b64_scan 1 n 0 cs
     else if quad = 1 then map_option ((#) (left * 4 + n div 16)) (b64_scan 2 (n mod 16) 0 cs)
     else if quad = 2 then map_option ((#) (left * 16 + n div 4)) (b64_scan 3 (n mod 4) 0 cs)
     else map_option ((#) (left * 64 + n)) (b64_scan 0 0 0 cs))"
  using b64_val_char(1,2) [OF assms] by simp

lemma b64_pad: "b64_scan 2 left 0 [61, 61] = Some []" "b64_scan 3 left 0 [61] = Some []"
  by simp_all

lemma b64_scan_encode: "is_bytes bs \<Longrightarrow> b64_scan 0 0 0 (b64encode bs) = Some bs"
proof (induction bs rule: b64encode.induct)
  case (2 a)
  then have "a div 4 < 64" "a mod 4 * 16 < 64" "(a mod 4 * 16) div 16 = a mod 4" by (auto simp: is_bytes_def)
  then show ?case by (simp add: b64_step b64_pad del: b64_scan.simps)
next
  case (3 a b)
  then have "a div 4 < 64" "b div 16 < 16" by (auto simp: is_bytes_def)
  then have "a div 4 < 64" "a mod 4 * 16 + b div 16 < 64" "b mod 16 * 4 < 64" "(a mod 4 * 16 + b div 16) div 16 = a mod 4"
    "(a mod 4 * 16 + b div 16) mod 16 = b div 16" by auto
  then show ?case by (simp add: b64_step b64_pad del: b64_scan.simps)
next
  case (4 a b c r)
  then have "a div 4 < 64" "b div 16 < 16" "c div 64 < 4" by (auto simp: is_bytes_def)
  then have "a div 4 < 64" "a mod 4 * 16 + b div 16 < 64" "b mod 16 * 4 + c div 64 < 64" "(a mod 4 * 16 + b div 16) div 16 = a mod 4"
    "(a mod 4 * 16 + b div 16) mod 16 = b div 16" "(b mod 16 * 4 + c div 64) div 4 = b mod 16" "(b mod 16 * 4 + c div 64) mod 4 = c div 64"
    by auto
  with 4 show ?case by (simp add: b64_step is_bytes_def del: b64_scan.simps)
qed simp


lemma printable_b64: "is_bytes bs \<Longrightarrow> list_all printable (b64encode bs)"
proof (induction bs rule: b64encode.induct)
  case (2 a)
  then have "a div 4 < 64" "a mod 4 * 16 < 64" by (auto simp: is_bytes_def)
  then show ?case by (simp add: b64_val_char(3))
next
  case (3 a b)
  then have "a div 4 < 64" "b div 16 < 16" by (auto simp: is_bytes_def)
  then have "a div 4 < 64" "a mod 4 * 16 + b div 16 < 64" "b mod 16 * 4 < 64" by auto
  then show ?case by (simp add: b64_val_char(3))
next
  case (4 a b c r)
  then have "a div 4 < 64" "b div 16 < 16" "c div 64 < 4" by (auto simp: is_bytes_def)
  then have "a div 4 < 64" "a mod 4 * 16 + b div 16 < 64" "b mod 16 * 4 + c div 64 < 64" "c mod 64 < 64" by auto
  with 4 show ?case by (simp add: b64_val_char(3) is_bytes_def)
qed simp

interpretation base64: codec b64encode b64decode is_bytes
proof
  fix bs assume bs: "is_bytes bs"
  have "list_all (\<lambda>c. c < 128) (b64encode bs)" using printable_b64 [OF bs] by (auto simp: list_all_iff printable_def)
  then show "b64decode (b64encode bs) = Some bs" by (simp add: b64decode_def b64_scan_encode [OF bs])
qed

end
