(* ===== verification/Training.thy ===== *)
theory Training
  imports Research Study Base64
begin

text \<open>
  Training and evaluation of the link predictor (\<open>examples/heterosplit/research.py\<close>: \<open>Encoder\<close>, \<open>_decode\<close>,
  \<open>run_once\<close>). What \<open>torch\<close> and \<open>torch_geometric\<close> compute is a record of functions: parameter initialisation, the
  graph convolution, the loss, one optimizer step on a loss function of the parameters, the random generators and
  the sorts. Switching between training and evaluation mode has no effect, as the model has no layer that
  distinguishes them.
\<close>

section \<open>The model\<close>

type_synonym matrix = "real list list"

text \<open>\<open>convs\<close> holds \<open>conv1\<close> and \<open>conv2\<close>, which exist only with \<open>use_graph\<close>.\<close>

record 'c encoder =
  embedding :: matrix
  convs :: "('c \<times> 'c) option"

text \<open>The dictionary a checkpoint saves.\<close>

record ('c, 'o, 'g, 'w) saved =
  sv_model :: "'c encoder"
  sv_optimizer :: 'o
  sv_generator :: 'g
  sv_rng :: 'w

text \<open>\<open>'c\<close> is a convolution, \<open>'o\<close> an optimizer state, \<open>'g\<close> a generator and \<open>'w\<close> the global generator.\<close>

record ('c, 'o, 'g, 'w) torch =
  manual_seed :: "int \<Rightarrow> 'w"
  embedding_new :: "nat \<Rightarrow> nat \<Rightarrow> 'w \<Rightarrow> matrix \<times> 'w"
  sage_new :: "nat \<Rightarrow> nat \<Rightarrow> 'w \<Rightarrow> 'c \<times> 'w"
  sage :: "'c \<Rightarrow> matrix \<Rightarrow> edges \<Rightarrow> matrix"
  bce :: "real list \<Rightarrow> real list \<Rightarrow> real"
  adam_new :: "'c encoder \<Rightarrow> real \<Rightarrow> 'o"
  adam_step :: "('c encoder \<Rightarrow> real) \<Rightarrow> 'c encoder \<Rightarrow> 'o \<Rightarrow> 'c encoder \<times> 'o"
  generator_seed :: "int \<Rightarrow> 'g"
  randint :: "'g randint"
  argsort :: "real list \<Rightarrow> nat list"
  argsort_descending :: "real list \<Rightarrow> nat list"
  torch_save :: "('c, 'o, 'g, 'w) saved \<Rightarrow> nat list"
  torch_load :: "nat list \<Rightarrow> ('c, 'o, 'g, 'w) saved option"
  load_model :: "'c encoder \<Rightarrow> 'c encoder \<Rightarrow> 'c encoder option"
  load_optimizer :: "'o \<Rightarrow> 'o \<Rightarrow> 'o option"

definition encoder_new :: "('c, 'o, 'g, 'w) torch \<Rightarrow> nat \<Rightarrow> nat \<Rightarrow> bool \<Rightarrow> 'w \<Rightarrow> 'c encoder \<times> 'w" where
  "encoder_new T nodes width use_graph w =
    (let (emb, w) = embedding_new T nodes width w in
     if use_graph then
       let (c1, w) = sage_new T width width w; (c2, w) = sage_new T width width w in (\<lparr>embedding = emb, convs = Some (c1, c2)\<rparr>, w)
     else (\<lparr>embedding = emb, convs = None\<rparr>, w))"

definition relu :: "matrix \<Rightarrow> matrix" where
  "relu = map (map (max 0))"

definition forward :: "('c, 'o, 'g, 'w) torch \<Rightarrow> 'c encoder \<Rightarrow> edges \<Rightarrow> matrix" where
  "forward T e es =
    (let x = embedding e in
     case convs e of None \<Rightarrow> x
     | Some (conv1, conv2) \<Rightarrow> let x = relu (sage T conv1 x es) in sage T conv2 x es)"

definition decode :: "matrix \<Rightarrow> edges \<Rightarrow> real list" where
  "decode z es = map (\<lambda>(i, j). sum_list (map2 (*) (z ! i) (z ! j))) es"

section \<open>Training and evaluation\<close>

record ('c, 'o, 'g) trainer =
  tr_model :: "'c encoder"
  tr_optimizer :: 'o
  tr_generator :: 'g

text \<open>One pass of the training loop, which \<open>run_once\<close> and the distributed task have in common: the next state and
  the loss. \<open>loss.backward()\<close> and \<open>optimizer.step()\<close> act on the loss as a function of the parameters.\<close>

definition train_epoch :: "('c, 'o, 'g, 'w) torch \<Rightarrow> prep \<Rightarrow> nat list \<Rightarrow> nat list \<Rightarrow> ('c, 'o, 'g) trainer \<Rightarrow> ('c, 'o, 'g) trainer \<times> real" where
  "train_epoch T p src dst st =
    (let train = train_pos p;
         (neg, g) = sample_pairs (randint T) src dst (length train) (positives p) (self_rel p) (tr_generator st);
         scores = (\<lambda>e. let z = forward T e (mp p) in decode z train @ decode z neg);
         labels = replicate (length train) 1 @ replicate (length neg) 0;
         loss = (\<lambda>e. bce T (scores e) labels);
         (e, opt) = adam_step T loss (tr_model st) (tr_optimizer st) in
     (\<lparr>tr_model = e, tr_optimizer = opt, tr_generator = g\<rparr>, loss (tr_model st)))"

text \<open>\<open>torch.unique\<close> sorts and drops repetitions.\<close>

definition unique :: "nat list \<Rightarrow> nat list" where
  "unique xs = sort (remdups xs)"

definition test_pools :: "prep \<Rightarrow> nat list \<times> nat list" where
  "test_pools p =
    (let test = test_pos p in
     if self_rel p then let pool = unique (map fst test @ map snd test) in (pool, pool)
     else (unique (map fst test), unique (map snd test)))"

definition evaluate :: "('c, 'o, 'g, 'w) torch \<Rightarrow> prep \<Rightarrow> ('c, 'o, 'g) trainer \<Rightarrow> real option \<times> real option" where
  "evaluate T p st =
    (let z = forward T (tr_model st) (mp p); test = test_pos p; (test_src, test_dst) = test_pools p;
         (neg, g) = sample_pairs (randint T) test_src test_dst (length test) (positives p) (self_rel p) (tr_generator st);
         scores = decode z test @ decode z neg;
         labels = replicate (length test) 1 @ replicate (length neg) 0 in
     (roc_auc (argsort T) scores labels, average_precision (argsort_descending T) scores labels))"

definition src_nodes :: "prep \<Rightarrow> nat list" where
  "src_nodes p = [0..<n_src p]"

definition dst_nodes :: "prep \<Rightarrow> nat list" where
  "dst_nodes p = (if self_rel p then [0..<n_src p] else [offset p..<num_nodes p])"

definition train_from :: "('c, 'o, 'g, 'w) torch \<Rightarrow> prep \<Rightarrow> nat \<Rightarrow> ('c, 'o, 'g) trainer \<Rightarrow> ('c, 'o, 'g) trainer" where
  "train_from T p n = (\<lambda>st. fst (train_epoch T p (src_nodes p) (dst_nodes p) st)) ^^ n"

text \<open>\<open>view\<close> reads a split result of the library.\<close>

definition run_once :: "('c, 'o, 'g, 'w) torch \<Rightarrow> ('r, 'p, 'role) library \<Rightarrow> ('p \<Rightarrow> split_data) \<Rightarrow> 'r \<Rightarrow> string
    \<Rightarrow> (string \<times> string) list option \<Rightarrow> bool \<Rightarrow> string \<Rightarrow> nat \<Rightarrow> int \<Rightarrow> int \<Rightarrow> real \<Rightarrow> study_error + real option \<times> real option" where
  "run_once T lib view records regime holdout undirected model width epochs seed lr =
    (let w = manual_seed T seed;
         spec = \<lparr>sp_edge = supervision_edge (rec_schema lib records), sp_roles = roles (rec_schema lib records),
           sp_regime = regime, sp_holdout = holdout, sp_ratios = (0.8, 0.1, 0.1), sp_seed = seed, sp_undirected = undirected\<rparr> in
     bindR (or_library (split_records lib records spec)) (\<lambda>result.
       let p = prepare (view result);
           (e, w) = encoder_new T (num_nodes p) width (model = ''SAGE'') w;
           st = \<lparr>tr_model = e, tr_optimizer = adam_new T e lr, tr_generator = generator_seed T seed\<rparr> in
       Inr (evaluate T p (train_from T p (nat epochs) st))))"

section \<open>What the decoder is given\<close>

lemma set_unique [simp]: "set (unique xs) = set xs"
  by (simp add: unique_def)

lemma test_pools_in_space:
  assumes "split_data_ok r" "p = prepare r"
  shows "x \<in> set (fst (test_pools p)) \<Longrightarrow> x < n_src p" "y \<in> set (snd (test_pools p)) \<Longrightarrow> offset p \<le> y \<and> y < num_nodes p"
proof -
  have t: "a < n_src p \<and> offset p \<le> b \<and> b < num_nodes p" if "(a, b) \<in> set (test_pos p)" for a b
    using prepare_typed(1) [OF assms(1), of a b] that by (simp add: assms(2))
  have self: "self_rel p \<Longrightarrow> offset p = 0 \<and> num_nodes p = n_src p" by (simp add: assms(2) prepare_def Let_def)
  show "x \<in> set (fst (test_pools p)) \<Longrightarrow> x < n_src p" using t self by (fastforce simp: test_pools_def Let_def split: if_splits)
  show "y \<in> set (snd (test_pools p)) \<Longrightarrow> offset p \<le> y \<and> y < num_nodes p"
    using t self by (cases "self_rel p") (force simp: test_pools_def Let_def)+
qed


lemma inputs_in_space:
  assumes "split_data_ok r" "p = prepare r" "draws_below (randint T)"
    and "src_pool = src_nodes p \<and> dst_pool = dst_nodes p \<or> test_pools p = (src_pool, dst_pool)"
    and "neg = fst (sample_pairs (randint T) src_pool dst_pool k (positives p) (self_rel p) g)"
  shows "(\<forall>(x, y) \<in> set (train_pos p) \<union> set (test_pos p) \<union> set neg. x < n_src p \<and> offset p \<le> y \<and> y < num_nodes p)
    \<and> (\<forall>(x, y) \<in> set (mp p). x < num_nodes p \<and> y < num_nodes p \<and> (y, x) \<in> set (mp p))
    \<and> (\<forall>(x, y) \<in> set neg. (x, y - offset p) \<notin> set (record_codes r) \<and> (self_rel p \<longrightarrow> x \<noteq> y \<and> (y, x) \<notin> set (record_codes r)))"
proof -
  have self: "self_rel p \<Longrightarrow> offset p = 0 \<and> num_nodes p = n_src p" by (simp add: assms(2) prepare_def Let_def)
  have rec: "pair_of (self_rel p) x (y + offset p) \<in> positives p" if "(x, y) \<in> set (record_codes r)" for x y
    using that by (force simp: assms(2) prepare_def Let_def positive_set_def combine_def)
  have neg: "x \<in> set src_pool \<and> y \<in> set dst_pool \<and> pair_of (self_rel p) x y \<notin> positives p \<and> (self_rel p \<longrightarrow> x \<noteq> y)" if "(x, y) \<in> set neg" for x y
    using sample_pairs_sound [OF assms(3) assms(5) [symmetric]] that by blast
  have pools: "x < n_src p" "offset p \<le> y \<and> y < num_nodes p" if "x \<in> set src_pool" "y \<in> set dst_pool" for x y
    using that assms(4) test_pools_in_space [OF assms(1,2)] self by (auto simp: src_nodes_def dst_nodes_def split: if_splits)
  have out: "(x, y - offset p) \<notin> set (record_codes r)" if "(x, y) \<in> set neg" for x y
    using neg [OF that] pools(2) [of x y] rec [of x "y - offset p"] by auto
  have rev: "(y, x) \<notin> set (record_codes r)" if "(x, y) \<in> set neg" "self_rel p" for x y
    using neg [OF that(1)] rec [of y x] self [OF that(2)] that(2) by (auto simp: pair_of_def min.commute max.commute)
  show ?thesis using neg pools out rev prepare_typed [OF assms(1)] prepare_symmetric [of _ _ r] unfolding assms(2) by blast
qed

text \<open>C36: Every index the model is trained or evaluated on is typed: in the combined node space of a split, positives
  and sampled negatives go from a source node to a destination node, message passing edges stay inside the space
  and are symmetric, and a sampled negative is never a record of the data set, in either direction when both
  endpoints have one type.\<close>

theorem model_inputs_typed:
  assumes "split_data_ok r" "p = prepare r" "draws_below (randint T)"
    and "src_pool = src_nodes p \<and> dst_pool = dst_nodes p \<or> test_pools p = (src_pool, dst_pool)"
    and "neg = fst (sample_pairs (randint T) src_pool dst_pool k (positives p) (self_rel p) g)"
  shows "(\<forall>(x, y) \<in> set (train_pos p) \<union> set (test_pos p) \<union> set neg. x < n_source r
        \<and> (if is_self_relation r then y < n_source r else n_source r \<le> y \<and> y < n_source r + n_destination r))
    \<and> (\<forall>(x, y) \<in> set (mp p). x < num_nodes p \<and> y < num_nodes p \<and> (y, x) \<in> set (mp p))
    \<and> (\<forall>(x, y) \<in> set neg. if is_self_relation r then x \<noteq> y \<and> (x, y) \<notin> set (record_codes r) \<and> (y, x) \<notin> set (record_codes r)
        else (x, y - n_source r) \<notin> set (record_codes r))"
proof -
  have p: "n_src p = n_source r" "self_rel p = is_self_relation r" "offset p = (if is_self_relation r then 0 else n_source r)"
    "num_nodes p = (if is_self_relation r then n_source r else n_source r + n_destination r)"
    by (simp_all add: assms(2) prepare_def Let_def)
  show ?thesis using inputs_in_space [OF assms] unfolding p by (cases "is_self_relation r") (simp_all, blast+)
qed

lemma evaluate_range:
  assumes "sorts (argsort T)" "\<And>xs. mset (argsort_descending T xs) = mset [0..<length xs]" "evaluate T p st = (auc, ap)"
  shows "auc = Some a \<Longrightarrow> 0 \<le> a \<and> a \<le> 1" "ap = Some b \<Longrightarrow> 0 < b \<and> b \<le> 1"
proof -
  obtain neg g where n: "sample_pairs (randint T) (fst (test_pools p)) (snd (test_pools p)) (length (test_pos p)) (positives p)
      (self_rel p) (tr_generator st) = (neg, g)" by fastforce
  define scores where "scores = decode (forward T (tr_model st) (mp p)) (test_pos p) @ decode (forward T (tr_model st) (mp p)) neg"
  define labels where "labels = replicate (length (test_pos p)) (1 :: nat) @ replicate (length neg) 0"
  have e: "auc = roc_auc (argsort T) scores labels" "ap = average_precision (argsort_descending T) scores labels"
    using assms(3) n by (simp_all add: evaluate_def Let_def case_prod_unfold scores_def labels_def)
  have l: "length labels = length scores" "set labels \<subseteq> {0, 1}" by (auto simp: labels_def scores_def decode_def)
  show "auc = Some a \<Longrightarrow> 0 \<le> a \<and> a \<le> 1" using roc_auc_pairs [OF assms(1) refl refl, of scores labels] e(1) by simp
  have "labels ! i \<le> 1" if "i \<in> set (argsort_descending T scores)" for i
  proof -
    have "i < length labels" using that assms(2) [of scores] l(1) by (metis atLeastLessThan_iff mset_eq_setD set_upt)
    then show ?thesis using l(2) nth_mem by fastforce
  qed
  from average_precision_range [OF _ this] show "ap = Some b \<Longrightarrow> 0 < b \<and> b \<le> 1" using e(2) by metis
qed


lemma evaluate_defined:
  assumes "\<And>xs. mset (argsort_descending T xs) = mset [0..<length xs]" "test_pos p \<noteq> []" "neg \<noteq> []"
    and "neg = fst (sample_pairs (randint T) (fst (test_pools p)) (snd (test_pools p)) (length (test_pos p)) (positives p) (self_rel p) (tr_generator st))"
  shows "\<exists>auc ap. evaluate T p st = (Some auc, Some ap)"
proof -
  let ?z = "forward T (tr_model st) (mp p)"
  let ?s = "decode ?z (test_pos p) @ decode ?z neg" and ?l = "replicate (length (test_pos p)) (1 :: nat) @ replicate (length neg) 0"
  have sel: "select (xs @ ys) (replicate (length xs) 1 @ replicate (length ys) 0) l = (if l = 1 then xs else if l = 0 then ys else [])" for xs ys l
  proof -
    have h: "map fst (filter (\<lambda>sl. snd sl = l) (zip xs (replicate (length xs) k))) = (if l = k then xs else [])" for xs :: "real list" and k l :: nat
      by (induction xs) auto
    show ?thesis using h [where l = l and k = 1] h [where l = l and k = 0] by (simp only: select_def zip_append length_replicate filter_append map_append) simp
  qed
  have len: "length (decode ?z es) = length es" for es by (simp add: decode_def)
  have "roc_auc (argsort T) ?s ?l \<noteq> None"
    using sel [of "decode ?z (test_pos p)" "decode ?z neg"] assms(2,3) by (simp add: roc_auc_def Let_def len) (auto simp: decode_def)
  moreover have "average_precision (argsort_descending T) ?s ?l \<noteq> None"
  proof -
    have "set (argsort_descending T ?s) = {..<length ?s}" using assms(1) [of ?s] by (metis atLeast_upt mset_eq_setD)
    moreover have "0 < length (test_pos p)" "0 < length ?s" using assms(2) by (simp_all add: decode_def)
    ultimately have one: "1 \<in> set (map (\<lambda>i. real (?l ! i)) (argsort_descending T ?s))" by (force simp: nth_append)
    define lab where "lab = map (\<lambda>i. real (?l ! i)) (argsort_descending T ?s)"
    have "sum_list lab \<noteq> 0" using one sum_list_nonneg_eq_0_iff [of lab] by (fastforce simp flip: lab_def simp: lab_def)
    then show ?thesis by (simp add: average_precision_def Let_def lab_def)
  qed
  ultimately show ?thesis by (auto simp: evaluate_def Let_def case_prod_unfold assms(4))
qed

section \<open>An instance\<close>

definition ex_torch :: "(unit, unit, nat, unit) torch" where
  "ex_torch = \<lparr>manual_seed = (\<lambda>_. ()), embedding_new = (\<lambda>n d w. (map (\<lambda>i. replicate d (real i)) [0..<n], w)), sage_new = (\<lambda>_ _ w. ((), w)),
    sage = (\<lambda>_ x _. x), bce = (\<lambda>_ _. 0), adam_new = (\<lambda>_ _. ()), adam_step = (\<lambda>_ e opt. (e, opt)), generator_seed = nat,
    randint = cycle_randint, argsort = stable_argsort, argsort_descending = (\<lambda>xs. rev (stable_argsort xs)),
    torch_save = (\<lambda>d. replicate (sv_generator d) 1 @ [0] @ map (\<lambda>r. length r mod 256) (embedding (sv_model d))),
    torch_load = (\<lambda>bs. let g = length (takeWhile ((=) 1) bs) in Some \<lparr>sv_model = \<lparr>embedding =
      map (\<lambda>i. replicate (bs ! Suc (g + i)) (real i)) [0..<length bs - Suc g], convs = None\<rparr>, sv_optimizer = (), sv_generator = g, sv_rng = ()\<rparr>),
    load_model = (\<lambda>_ e. Some e), load_optimizer = (\<lambda>_ opt. Some opt)\<rparr>"

definition ex_split :: split_data where
  "ex_split = \<lparr>is_self_relation = False, n_source = 2, n_destination = 3, message_passing = [(0, 0)], train_supervision = [(0, 0)],
    test_supervision = [(0, 0), (1, 1), (1, 2)], record_codes = [(0, 0), (1, 1), (1, 2)]\<rparr>"

theorem model_inputs_typed_witness:
  "split_data_ok ex_split \<and> draws_below (randint ex_torch)
    \<and> fst (sample_pairs (randint ex_torch) [0, 1] [2, 3, 4] 1 (positives (prepare ex_split)) False 0) = [(0, 3)]
    \<and> (0, 3 - n_source ex_split) \<notin> set (record_codes ex_split)"
proof -
  have p: "src_nodes (prepare ex_split) = [0, 1]" "dst_nodes (prepare ex_split) = [2, 3, 4]" "self_rel (prepare ex_split) = False" by code_simp+
  have ok: "split_data_ok ex_split" by (simp add: split_data_ok_def ex_split_def in_space_def)
  have r: "randint ex_torch = cycle_randint" by (simp add: ex_torch_def)
  have n: "fst (sample_pairs cycle_randint [0, 1] [2, 3, 4] 1 (positives (prepare ex_split)) False 0) = [(0, 3)]" by code_simp
  show ?thesis
    using model_inputs_typed [OF ok refl, of ex_torch "[0, 1]" "[2, 3, 4]" "[(0, 3)]" 1 0] ok n by (simp add: p r cycle_randint_below) (simp add: ex_split_def)
qed

end
