(* ===== verification/Task.thy ===== *)
theory Task
  imports Training
begin

text \<open>
  The checkpointed experiment the grid runs (\<open>examples/heterosplit/task.py\<close>): load and split the records, build the
  model, restore a checkpoint if the attempt was given one, train with one checkpoint per epoch, evaluate, and write
  the metrics. The result is the list of file operations and printed lines, and a value or the exception.
\<close>

section \<open>The task\<close>

record task_config =
  cf_study :: string
  cf_dataset :: string
  cf_data :: string
  cf_regime :: string
  cf_model :: string
  cf_seed :: int
  cf_epochs :: int
  cf_dim :: nat
  cf_max_rows :: int

datatype task_error = Study_failed study_error | Sdk_failed sdk_error | Checkpoint_mismatch | Empty_split | Torch_failed | Not_a_number

datatype task_event = File fs_op | Say pystr

text \<open>What else the task meets: fresh names for checkpoints, the stream's buffering, Python's text for a float and whether
  a float literal equals an integer, and the library's manifest and split views.\<close>

record 'p surroundings =
  uuid :: "int \<Rightarrow> string"
  pieces :: "pystr \<Rightarrow> pystr list"
  float_text :: "real \<Rightarrow> pystr"
  float_is :: "pystr \<Rightarrow> int \<Rightarrow> bool"
  manifest_save :: "'p \<Rightarrow> string \<Rightarrow> fs_op list"
  view :: "'p \<Rightarrow> split_data"

text \<open>Events up to an exception or a value, and what follows.\<close>

definition follow :: "task_event list \<times> (task_error + 'a) \<Rightarrow> ('a \<Rightarrow> task_event list \<times> (task_error + 'b)) \<Rightarrow> task_event list \<times> (task_error + 'b)" where
  "follow m f = (case m of (evs, Inl e) \<Rightarrow> (evs, Inl e) | (evs, Inr a) \<Rightarrow> apfst ((@) evs) (f a))"

definition quiet :: "task_error + 'a \<Rightarrow> task_event list \<times> (task_error + 'a)" where
  "quiet r = ([], r)"

definition study :: "study_error + 'a \<Rightarrow> task_error + 'a" where
  "study r = (case r of Inl e \<Rightarrow> Inl (Study_failed e) | Inr a \<Rightarrow> Inr a)"

definition sdk :: "sdk_error + 'a \<Rightarrow> task_error + 'a" where
  "sdk r = (case r of Inl e \<Rightarrow> Inl (Sdk_failed e) | Inr a \<Rightarrow> Inr a)"

definition torch_ok :: "'a option \<Rightarrow> task_error + 'a" where
  "torch_ok r = (case r of None \<Rightarrow> Inl Torch_failed | Some a \<Rightarrow> Inr a)"

definition task_records :: "('r, 'p, 'role) library \<Rightarrow> task_config \<Rightarrow> study_error + 'r \<times> 'p" where
  "task_records lib args =
    bindR (load_records lib (cf_dataset args) (cf_data args) (cf_max_rows args) (cf_study args)) (\<lambda>records.
    bindR (split_protocol lib records (cf_dataset args) (cf_regime args) (cf_seed args) (cf_study args)) (\<lambda>result.
      Inr (records, result)))"

definition task_model :: "('c, 'o, 'g, 'w) torch \<Rightarrow> prep \<Rightarrow> task_config \<Rightarrow> ('c, 'o, 'g) trainer \<times> 'w" where
  "task_model T p args =
    (let (e, w) = encoder_new T (num_nodes p) (cf_dim args) (cf_model args = ''SAGE'') (manual_seed T (cf_seed args)) in
     (\<lparr>tr_model = e, tr_optimizer = adam_new T e 0.01, tr_generator = generator_seed T (cf_seed args)\<rparr>, w))"

definition identity :: "task_config \<Rightarrow> string \<Rightarrow> (pystr \<times> json) list" where
  "identity args dg =
    [(asc ''study'', J_Str (asc (cf_study args))), (asc ''dataset'', J_Str (asc (cf_dataset args))),
     (asc ''regime'', J_Str (asc (cf_regime args))), (asc ''model'', J_Str (asc (cf_model args))), (asc ''seed'', J_Int (cf_seed args)),
     (asc ''epochs'', J_Int (cf_epochs args)), (asc ''dim'', J_Int (int (cf_dim args))), (asc ''manifest_digest'', J_Str (asc dg))]"

text \<open>Python's equality of a parsed value and the identity: dictionaries compare without order, and \<open>True == 1\<close>.\<close>

fun same_scalar :: "(pystr \<Rightarrow> int \<Rightarrow> bool) \<Rightarrow> json \<Rightarrow> json \<Rightarrow> bool" where
  "same_scalar fi (J_Bool b) (J_Int i) \<longleftrightarrow> i = of_bool b"
| "same_scalar fi (J_Float s) (J_Int i) \<longleftrightarrow> fi s i"
| "same_scalar fi v w \<longleftrightarrow> v = w"

definition same_dict :: "(pystr \<Rightarrow> int \<Rightarrow> bool) \<Rightarrow> json \<Rightarrow> (pystr \<times> json) list \<Rightarrow> bool" where
  "same_dict fi v kvs = (case v of
     J_Obj kvs' \<Rightarrow> set (map fst kvs') = set (map fst kvs)
       \<and> list_all (\<lambda>(k, w). case map_of kvs' k of None \<Rightarrow> False | Some u \<Rightarrow> same_scalar fi u w) kvs
   | _ \<Rightarrow> False)"

definition decode_text :: "json \<Rightarrow> sdk_error + nat list" where
  "decode_text v = (case v of J_Str b \<Rightarrow> (case b64decode b of None \<Rightarrow> Inl ValueError | Some bs \<Rightarrow> Inr bs) | _ \<Rightarrow> Inl TypeError)"

text \<open>\<open>start\<close> stays the value read until \<open>range\<close> wants an integer.\<close>

definition restore_state :: "('c, 'o, 'g, 'w) torch \<Rightarrow> 'p surroundings \<Rightarrow> (pystr \<times> json) list \<Rightarrow> fs \<Rightarrow> string
    \<Rightarrow> ('c, 'o, 'g) trainer \<Rightarrow> task_error + ('c, 'o, 'g) trainer \<times> 'w \<times> json" where
  "restore_state T W idn s path st =
    bindR (sdk (read_json path s)) (\<lambda>state.
    bindR (sdk (get_item (asc ''identity'') state)) (\<lambda>i.
    if \<not> same_dict (float_is W) i idn then Inl Checkpoint_mismatch
    else bindR (sdk (get_item (asc ''torch'') state)) (\<lambda>t.
    bindR (sdk (decode_text t)) (\<lambda>bs.
    bindR (torch_ok (torch_load T bs)) (\<lambda>d.
    bindR (torch_ok (load_model T (tr_model st) (sv_model d))) (\<lambda>e.
    bindR (torch_ok (load_optimizer T (tr_optimizer st) (sv_optimizer d))) (\<lambda>opt.
    bindR (sdk (get_item (asc ''epoch'') state)) (\<lambda>start.
      Inr (\<lparr>tr_model = e, tr_optimizer = opt, tr_generator = sv_generator d\<rparr>, sv_rng d, start)))))))))"

definition checkpoint_state :: "('c, 'o, 'g, 'w) torch \<Rightarrow> (pystr \<times> json) list \<Rightarrow> ('c, 'o, 'g) trainer \<Rightarrow> 'w \<Rightarrow> int \<Rightarrow> json" where
  "checkpoint_state T idn st w epoch = J_Obj [(asc ''identity'', J_Obj idn), (asc ''epoch'', J_Int epoch),
     (asc ''torch'', J_Str (b64encode (torch_save T \<lparr>sv_model = tr_model st, sv_optimizer = tr_optimizer st,
        sv_generator = tr_generator st, sv_rng = w\<rparr>)))]"

text \<open>The loop over \<open>range(start, epochs)\<close> with \<open>n\<close> epochs to go.\<close>

fun train_loop :: "('c, 'o, 'g, 'w) torch \<Rightarrow> 'p surroundings \<Rightarrow> environ \<Rightarrow> prep \<Rightarrow> (pystr \<times> json) list \<Rightarrow> 'w \<Rightarrow> nat \<Rightarrow> int
    \<Rightarrow> ('c, 'o, 'g) trainer \<Rightarrow> task_event list \<times> (task_error + ('c, 'o, 'g) trainer)" where
  "train_loop T W env p idn w 0 epoch st = ([], Inr st)"
| "train_loop T W env p idn w (Suc n) epoch st =
    (let (st, loss) = train_epoch T p (src_nodes p) (dst_nodes p) st in
     case checkpoint env (uuid W epoch) (pieces W) (checkpoint_state T idn st w (epoch + 1)) of
       Inl e \<Rightarrow> ([], Inl (Sdk_failed e))
     | Inr (ops, _) \<Rightarrow>
         apfst ((@) (map File ops @ [Say (dumps (J_Obj [(asc ''epoch'', J_Int (epoch + 1)), (asc ''loss'', J_Float (float_text W loss))]))]))
           (train_loop T W env p idn w n (epoch + 1) st))"

definition metrics_json :: "('r, 'p, 'role) library \<Rightarrow> 'p surroundings \<Rightarrow> (pystr \<times> json) list \<Rightarrow> 'r \<Rightarrow> 'p \<Rightarrow> json \<Rightarrow> string \<Rightarrow> string
    \<Rightarrow> real \<Rightarrow> real \<Rightarrow> json" where
  "metrics_json lib W idn records result start job attempt auc ap = J_Obj (idn @
    [(asc ''auc'', J_Float (float_text W auc)), (asc ''ap'', J_Float (float_text W ap)),
     (asc ''records'', J_Int (int (n_records lib records))), (asc ''resumed_epoch'', start),
     (asc ''split_counts'', J_Obj (map (\<lambda>(k, n). (asc k, J_Int (int n))) (counts lib result))),
     (asc ''excluded_records'', J_Int (int (n_excluded lib result))), (asc ''context_features_used'', J_Bool False),
     (asc ''job_id'', J_Str (asc job)), (asc ''attempt_id'', J_Str (asc attempt))])"

definition environ_item :: "environ \<Rightarrow> string \<Rightarrow> sdk_error + string" where
  "environ_item env k = (case env k of None \<Rightarrow> Inl KeyError | Some v \<Rightarrow> Inr v)"

text \<open>Evaluation and the metrics file. The keys the metrics add differ from those of the identity.\<close>

definition report :: "('c, 'o, 'g, 'w) torch \<Rightarrow> ('r, 'p, 'role) library \<Rightarrow> 'p surroundings \<Rightarrow> environ \<Rightarrow> prep \<Rightarrow> (pystr \<times> json) list
    \<Rightarrow> 'r \<Rightarrow> 'p \<Rightarrow> json \<Rightarrow> ('c, 'o, 'g) trainer \<Rightarrow> task_event list \<times> (task_error + json)" where
  "report T lib W env p idn records result start st =
    (let (auc, ap) = evaluate T p st in
     follow (quiet (sdk (environ_item env ''RUNGRID_JOB_ID''))) (\<lambda>job.
     follow (quiet (sdk (environ_item env ''RUNGRID_ATTEMPT_ID''))) (\<lambda>attempt.
     follow (quiet (sdk (output_dir env))) (\<lambda>(mk, d).
       case (auc, ap) of
         (Some a, Some b) \<Rightarrow>
           let m = metrics_json lib W idn records result start job attempt a b in
           (map File (mk @ write_text (path_join d ''metrics.json'') (dumps_indent 0 m)) @ [Say (dumps m)], Inr m)
       | _ \<Rightarrow> (map File mk, Inl Not_a_number)))))"

definition task_run :: "('c, 'o, 'g, 'w) torch \<Rightarrow> ('r, 'p, 'role) library \<Rightarrow> 'p surroundings \<Rightarrow> task_config \<Rightarrow> environ \<Rightarrow> fs
    \<Rightarrow> task_event list \<times> (task_error + json)" where
  "task_run T lib W args env s =
    follow (quiet (study (task_records lib args))) (\<lambda>(records, result).
    follow (quiet (sdk (output_dir env))) (\<lambda>(mk, d).
    follow (map File (mk @ manifest_save W result (path_join d ''split-manifest.json'')), Inr ()) (\<lambda>_.
      let p = prepare (view W result);
          (st, w) = task_model T p args;
          idn = identity args (manifest_digest lib result) in
      follow (quiet (case resume_path env of None \<Rightarrow> Inr (st, w, J_Int 0) | Some path \<Rightarrow> restore_state T W idn s path st)) (\<lambda>(st, w, start).
      follow ([Say (dumps (J_Obj ((asc ''resumed_epoch'', start) # idn)))], Inr ()) (\<lambda>_.
      if train_pos p = [] \<or> test_pos p = [] then ([], Inl Empty_split)
      else follow (quiet (sdk (as_index start))) (\<lambda>k.
        follow (train_loop T W env p idn w (nat (cf_epochs args - k)) k st) (report T lib W env p idn records result start)))))))"


section \<open>Training goes on where it stopped\<close>

lemma follow_simps [simp]: "follow (evs, Inl e) f = (evs, Inl e)" "follow (evs, Inr a) f = apfst ((@) evs) (f a)"
    "follow (quiet (Inr a)) f = f a" "follow (quiet (Inl e)) f = ([], Inl e)"
  by (simp_all add: follow_def quiet_def apfst_def map_prod_def)

lemma follow_Inr: "follow m f = (evs, Inr b) \<longleftrightarrow> (\<exists>evs1 a evs2. m = (evs1, Inr a) \<and> f a = (evs2, Inr b) \<and> evs = evs1 @ evs2)"
  by (cases m rule: prod.exhaust, rename_tac x r, case_tac r) (auto simp: apfst_def map_prod_def split: prod.splits)

lemma quiet_Inr [simp]: "quiet r = (evs, Inr a) \<longleftrightarrow> evs = [] \<and> r = Inr a"
  by (auto simp: quiet_def)

lemma lifts_Inr [simp]: "study r = Inr a \<longleftrightarrow> r = Inr a" "sdk q = Inr b \<longleftrightarrow> q = Inr b" "torch_ok v = Inr c \<longleftrightarrow> v = Some c"
  by (auto simp: study_def sdk_def torch_ok_def split: sum.splits option.splits)

lemma sdk_simps [simp]: "sdk (Inr a) = Inr a" "torch_ok (Some b) = Inr b" "study (Inr c) = Inr c"
  by (simp_all add: sdk_def torch_ok_def study_def)

lemma train_from_0 [simp]: "train_from T p 0 st = st"
  by (simp add: train_from_def)

lemma train_from_Suc: "train_from T p (Suc n) st = train_from T p n (fst (train_epoch T p (src_nodes p) (dst_nodes p) st))"
  by (simp add: train_from_def funpow_Suc_right del: funpow.simps)

lemma train_from_add: "train_from T p (m + n) st = train_from T p n (train_from T p m st)"
  by (simp add: train_from_def add.commute [of m n] funpow_add)

lemma train_loop_runs:
  "env ''RUNGRID_CHECKPOINT_DIR'' \<noteq> None \<Longrightarrow> snd (train_loop T W env p idn w n k st) = Inr (train_from T p n st)"
proof (induction n arbitrary: k st)
  case (Suc n)
  obtain st' l where e: "train_epoch T p (src_nodes p) (dst_nodes p) st = (st', l)" by fastforce
  from Suc.prems obtain d where d: "env ''RUNGRID_CHECKPOINT_DIR'' = Some d" by blast
  obtain ops t where c: "checkpoint env (uuid W k) (pieces W) (checkpoint_state T idn st' w (k + 1)) = Inr (ops, t)"
    using d by (auto simp: checkpoint_def Let_def)
  show ?case using Suc.IH [OF Suc.prems] by (simp add: e c train_from_Suc)
qed simp

lemma train_loop_value:
  assumes "train_loop T W env p idn w n k st = (evs, Inr st')"
  shows "st' = train_from T p n st" "n \<noteq> 0 \<Longrightarrow> env ''RUNGRID_CHECKPOINT_DIR'' \<noteq> None"
proof -
  have *: "n \<noteq> 0 \<Longrightarrow> env ''RUNGRID_CHECKPOINT_DIR'' \<noteq> None"
    using assms by (cases n) (auto simp: checkpoint_def Let_def split: prod.splits option.splits)
  then show "n \<noteq> 0 \<Longrightarrow> env ''RUNGRID_CHECKPOINT_DIR'' \<noteq> None" .
  show "st' = train_from T p n st"
  proof (cases "n = 0")
    case False
    then show ?thesis using train_loop_runs [of env T W p idn w n k st] * assms by simp
  qed (use assms in simp)
qed

lemma train_loop_publishes:
  assumes "train_loop T W env p idn w n k st = (evs, Inr st')" "m < n"
  shows "\<exists>ops target. checkpoint env (uuid W (k + int m)) (pieces W) (checkpoint_state T idn (train_from T p (Suc m) st) w (k + int m + 1))
      = Inr (ops, target) \<and> sublist (map File ops) evs"
  using assms
proof (induction n arbitrary: k st m evs)
  case (Suc n)
  obtain st1 l where e: "train_epoch T p (src_nodes p) (dst_nodes p) st = (st1, l)" by fastforce
  from Suc.prems obtain ops t where c: "checkpoint env (uuid W k) (pieces W) (checkpoint_state T idn st1 w (k + 1)) = Inr (ops, t)"
    by (auto simp: e split: sum.splits)
  obtain evs1 r where r: "train_loop T W env p idn w n (k + 1) st1 = (evs1, r)" by fastforce
  from Suc.prems(1) obtain line where *: "r = Inr st'" "evs = map File ops @ [line] @ evs1" by (auto simp: e c r)
  show ?case
  proof (cases m)
    case 0
    then show ?thesis using c * by (auto simp: train_from_Suc e sublist_def intro: exI [of _ "[]"])
  next
    case (Suc m')
    then have "m' < n" using Suc.prems by simp
    from Suc.IH [OF r [unfolded *(1)] this] obtain ops' t' where **:
      "checkpoint env (uuid W (k + 1 + int m')) (pieces W) (checkpoint_state T idn (train_from T p (Suc m') st1) w (k + 1 + int m' + 1)) = Inr (ops', t')"
      "sublist (map File ops') evs1" by blast
    have "sublist (map File ops') evs" using **(2) *(2) by (metis sublist_appendI sublist_order.order_trans append.assoc append_Nil2)
    then show ?thesis using **(1) Suc by (auto simp: train_from_Suc [of T p "Suc m'"] e algebra_simps simp del: train_from_Suc)
  qed
qed simp


section \<open>Checkpoints come back\<close>

text \<open>The parameters and optimizer states that steps of the optimizer reach.\<close>

inductive trained :: "('c, 'o, 'g, 'w) torch \<Rightarrow> 'c encoder \<Rightarrow> 'o \<Rightarrow> 'c encoder \<Rightarrow> 'o \<Rightarrow> bool" for T e0 o0 where
  start: "trained T e0 o0 e0 o0"
| step: "trained T e0 o0 e opt \<Longrightarrow> adam_step T loss e opt = (e', opt') \<Longrightarrow> trained T e0 o0 e' opt'"

text \<open>What the task relies on in \<open>torch\<close>: saved training states load as they were, and their parts load into the model and
  optimizer they were trained from.\<close>

definition restorable :: "('c, 'o, 'g, 'w) torch \<Rightarrow> ('c, 'o, 'g) trainer \<Rightarrow> bool" where
  "restorable T st0 \<longleftrightarrow> (\<forall>e opt g w. trained T (tr_model st0) (tr_optimizer st0) e opt \<longrightarrow>
     (let d = \<lparr>sv_model = e, sv_optimizer = opt, sv_generator = g, sv_rng = w\<rparr> in
        is_bytes (torch_save T d) \<and> torch_load T (torch_save T d) = Some d
      \<and> load_model T (tr_model st0) e = Some e \<and> load_optimizer T (tr_optimizer st0) opt = Some opt))"

lemma trained_epoch:
  assumes "trained T e0 o0 (tr_model st) (tr_optimizer st)"
  shows "trained T e0 o0 (tr_model (fst (train_epoch T p src dst st))) (tr_optimizer (fst (train_epoch T p src dst st)))"
  unfolding train_epoch_def Let_def by (auto split: prod.splits intro: trained.step [OF assms])

lemma trained_from: "trained T (tr_model st) (tr_optimizer st) (tr_model (train_from T p n st)) (tr_optimizer (train_from T p n st))"
proof (induction n)
  case (Suc n)
  have "train_from T p (Suc n) st = fst (train_epoch T p (src_nodes p) (dst_nodes p) (train_from T p n st))" by (simp add: train_from_def)
  then show ?case using trained_epoch [OF Suc] by simp
qed (simp add: trained.start)

lemma same_dict_refl: "distinct (map fst kvs) \<Longrightarrow> same_dict fi (J_Obj kvs) kvs"
proof -
  have "same_scalar fi v v" for v by (cases v) auto
  then show "distinct (map fst kvs) \<Longrightarrow> same_dict fi (J_Obj kvs) kvs" by (auto simp: same_dict_def list_all_iff)
qed

lemma identity_ok: "json_ok (J_Obj (identity args dg))" "distinct (map fst (identity args dg))"
  by (simp_all add: identity_def scalar_asc scalar_value_def)

lemma restore_checkpoint:
  assumes "restorable T st0" "idn = identity args dg" "files s path = Some f"
    and "content f = dumps (checkpoint_state T idn (train_from T p n st0) w k)"
  shows "restore_state T W idn s path st0 = Inr (train_from T p n st0, w, J_Int k)"
proof -
  let ?st = "train_from T p n st0"
  let ?d = "\<lparr>sv_model = tr_model ?st, sv_optimizer = tr_optimizer ?st, sv_generator = tr_generator ?st, sv_rng = w\<rparr>"
  have t: "is_bytes (torch_save T ?d)" "torch_load T (torch_save T ?d) = Some ?d" "load_model T (tr_model st0) (tr_model ?st) = Some (tr_model ?st)"
      "load_optimizer T (tr_optimizer st0) (tr_optimizer ?st) = Some (tr_optimizer ?st)"
    using assms(1) trained_from [of T st0 p n] unfolding restorable_def Let_def by blast+
  have "json_ok (checkpoint_state T idn ?st w k)"
    using printable_scalar [OF printable_b64 [OF t(1)]] identity_ok [of args dg] assms(2)
    by (simp add: checkpoint_state_def scalar_asc del: asc_simps)
  then have r: "read_json path s = Inr (checkpoint_state T idn ?st w k)" by (simp add: read_json_def assms(3,4) loads_dumps del: dumps.simps)
  have g: "get_item (asc ''identity'') (checkpoint_state T idn ?st w k) = Inr (J_Obj idn)" "get_item (asc ''epoch'') (checkpoint_state T idn ?st w k) = Inr (J_Int k)"
      "get_item (asc ''torch'') (checkpoint_state T idn ?st w k) = Inr (J_Str (b64encode (torch_save T ?d)))"
    by (simp_all add: get_item_def checkpoint_state_def)
  have "decode_text (J_Str (b64encode (torch_save T ?d))) = Inr (torch_save T ?d)" by (simp add: decode_text_def base64.dec_enc [OF t(1)])
  moreover have "same_dict (float_is W) (J_Obj idn) idn" unfolding assms(2) by (rule same_dict_refl [OF identity_ok(2)])
  ultimately show ?thesis using t by (simp add: restore_state_def r g del: asc_simps)
qed


section \<open>The task computes the published routine\<close>

lemma task_is_run_once:
  assumes "task_records lib args = Inr (records, result)" "p = prepare (vw result)" "task_model T p args = (st0, w)"
  shows "\<exists>records'. run_once T lib vw records' (native_regime (cf_dataset args) (cf_regime args)) (holdout_of (cf_dataset args) (cf_regime args))
      (cf_dataset args = ''DrugComb'') (cf_model args) (cf_dim args) (cf_epochs args) (cf_seed args) 0.01
    = Inr (evaluate T p (train_from T p (nat (cf_epochs args)) st0))"
proof -
  obtain e v where e: "encoder_new T (num_nodes p) (cf_dim args) (cf_model args = ''SAGE'') (manual_seed T (cf_seed args)) = (e, v)" by fastforce
  with assms(3) have st0: "st0 = \<lparr>tr_model = e, tr_optimizer = adam_new T e 0.01, tr_generator = generator_seed T (cf_seed args)\<rparr>" by (simp add: task_model_def)
  from assms(1) have "split_protocol lib records (cf_dataset args) (cf_regime args) (cf_seed args) (cf_study args) = Inr result"
    by (auto simp: task_records_def bindR_Inr_iff)
  then obtain records' where "or_library (split_records lib records' (spec_of lib records' (cf_dataset args) (cf_regime args) (cf_seed args))) = Inr result"
    by (auto simp: split_protocol_def bindR_Inr_iff split: option.splits if_splits)
  then show ?thesis using e assms(2) by (intro exI [of _ records']) (simp add: run_once_def spec_of_def st0 Let_def)
qed

lemma task_run_eq:
  assumes "task_records lib args = Inr (records, result)" "p = prepare (view W result)" "task_model T p args = (st0, w)"
    and "idn = identity args (manifest_digest lib result)" "output_dir env = Inr (mk, d)"
    and "(case resume_path env of None \<Rightarrow> Inr (st0, w, J_Int 0) | Some path \<Rightarrow> restore_state T W idn s path st0) = Inr (st, w', J_Int k)"
  shows "\<exists>evs. task_run T lib W args env s = apfst ((@) evs) (if train_pos p = [] \<or> test_pos p = [] then ([], Inl Empty_split)
    else follow (train_loop T W env p idn w' (nat (cf_epochs args - k)) k st) (report T lib W env p idn records result (J_Int k)))"
  using assms(1,3,5,6) unfolding task_run_def assms(2) [symmetric]
  by (intro exI [of _ "map File (mk @ manifest_save W result (path_join d ''split-manifest.json'')) @ [Say (dumps (J_Obj ((asc ''resumed_epoch'', J_Int k) # idn)))]"])
    (simp add: assms(2,4) [symmetric] as_index_def apfst_compose comp_def del: dumps.simps asc_simps)

lemma task_run_fresh:
  assumes "task_records lib args = Inr (records, result)" "p = prepare (view W result)" "task_model T p args = (st0, w)"
    and "idn = identity args (manifest_digest lib result)" "resume_path env = None" "task_run T lib W args env s = (evs, Inr m)"
  obtains evs1 evs2 evs3 where "train_loop T W env p idn w (nat (cf_epochs args)) 0 st0 = (evs1, Inr (train_from T p (nat (cf_epochs args)) st0))"
    "report T lib W env p idn records result (J_Int 0) (train_from T p (nat (cf_epochs args)) st0) = (evs2, Inr m)" "evs = evs3 @ evs1 @ evs2"
    "train_pos p \<noteq> []" "test_pos p \<noteq> []"
proof -
  from assms(1,6) obtain mk d where out: "output_dir env = Inr (mk, d)" by (auto simp: task_run_def follow_Inr)
  have "(case resume_path env of None \<Rightarrow> Inr (st0, w, J_Int 0) | Some path \<Rightarrow> restore_state T W idn s path st0) = Inr (st0, w, J_Int 0)" by (simp add: assms(5))
  from task_run_eq [OF assms(1-4) out this, unfolded diff_0_right] obtain evs3 where eq: "task_run T lib W args env s
      = apfst ((@) evs3) (if train_pos p = [] \<or> test_pos p = [] then ([], Inl Empty_split)
         else follow (train_loop T W env p idn w (nat (cf_epochs args)) 0 st0) (report T lib W env p idn records result (J_Int 0)))" by blast
  with assms(6) have ne: "train_pos p \<noteq> []" "test_pos p \<noteq> []" by (auto split: if_splits)
  with eq assms(6) obtain evs4 where f: "follow (train_loop T W env p idn w (nat (cf_epochs args)) 0 st0) (report T lib W env p idn records result (J_Int 0))
      = (evs4, Inr m)" "evs = evs3 @ evs4" by (auto simp: apfst_def map_prod_def split: prod.splits)
  from f(1) obtain evs1 st' evs2 where *: "train_loop T W env p idn w (nat (cf_epochs args)) 0 st0 = (evs1, Inr st')"
    "report T lib W env p idn records result (J_Int 0) st' = (evs2, Inr m)" "evs4 = evs1 @ evs2" unfolding follow_Inr by blast
  show thesis using that [OF _ _ _ ne] * f(2) train_loop_value(1) [OF *(1)] by simp
qed

lemma report_resumed:
  assumes "report T lib W env p idn records result start st = (evs, Inr m)"
    and "env' = env(''RUNGRID_CHECKPOINT_PATH'' \<mapsto> path)"
  obtains auc ap job attempt evs' where "evaluate T p st = (Some auc, Some ap)"
    "m = metrics_json lib W idn records result start job attempt auc ap"
    "report T lib W env' p idn records result start' st = (evs', Inr (metrics_json lib W idn records result start' job attempt auc ap))"
proof -
  from assms(1) obtain job attempt mk d auc ap where
    "environ_item env ''RUNGRID_JOB_ID'' = Inr job" "environ_item env ''RUNGRID_ATTEMPT_ID'' = Inr attempt" "output_dir env = Inr (mk, d)"
    "evaluate T p st = (Some auc, Some ap)" "m = metrics_json lib W idn records result start job attempt auc ap"
    by (auto simp: report_def follow_Inr Let_def split: prod.splits option.splits)
  moreover from this have "environ_item env' ''RUNGRID_JOB_ID'' = Inr job" "environ_item env' ''RUNGRID_ATTEMPT_ID'' = Inr attempt" "output_dir env' = Inr (mk, d)"
    by (simp_all add: assms(2) environ_item_def output_dir_def)
  ultimately show thesis by (intro that) (auto simp: report_def Let_def)
qed


text \<open>C33: A task that was interrupted finishes with the numbers it would have had. If the uninterrupted task writes metrics,
  then after every epoch it published the checkpoint of that epoch, and the same task started from that
  checkpoint by a later attempt succeeds with the same metrics but for the epoch it resumed at; their AUC and
  average precision are those of the published routine \<open>run_once\<close> on the same records.\<close>

theorem task_resumes:
  assumes run: "task_records lib args = Inr (records, result)" "p = prepare (view W result)" "task_model T p args = (st0, w)"
    "resume_path env = None" "task_run T lib W args env s = (evs, Inr m)"
    and idn: "idn = identity args (manifest_digest lib result)"
    and torch: "restorable T st0"
    and epoch: "0 < e" "int e \<le> cf_epochs args" "ck = checkpoint_state T idn (train_from T p e st0) w (int e)"
    and later: "env' = env(''RUNGRID_CHECKPOINT_PATH'' \<mapsto> path)" "path \<noteq> ''''" "files s' path = Some f" "content f = dumps ck"
  shows "(\<exists>ops target. checkpoint env (uuid W (int e - 1)) (pieces W) ck = Inr (ops, target) \<and> sublist (map File ops) evs)
    \<and> (\<exists>evs' records' job attempt auc ap.
        m = metrics_json lib W idn records result (J_Int 0) job attempt auc ap
      \<and> task_run T lib W args env' s' = (evs', Inr (metrics_json lib W idn records result (J_Int (int e)) job attempt auc ap))
      \<and> run_once T lib (view W) records' (native_regime (cf_dataset args) (cf_regime args)) (holdout_of (cf_dataset args) (cf_regime args))
          (cf_dataset args = ''DrugComb'') (cf_model args) (cf_dim args) (cf_epochs args) (cf_seed args) 0.01 = Inr (Some auc, Some ap))"
proof -
  let ?n = "nat (cf_epochs args)"
  obtain evs1 evs2 evs3 where l: "train_loop T W env p idn w ?n 0 st0 = (evs1, Inr (train_from T p ?n st0))"
    and r: "report T lib W env p idn records result (J_Int 0) (train_from T p ?n st0) = (evs2, Inr m)" "evs = evs3 @ evs1 @ evs2"
    and ne: "train_pos p \<noteq> []" "test_pos p \<noteq> []" using task_run_fresh [OF run(1-3) idn run(4,5)] by metis
  have e: "e - 1 < ?n" "Suc (e - 1) = e" "0 + int (e - 1) = int e - 1" using epoch(1,2) by auto
  from train_loop_publishes [OF l e(1)] obtain ops target where ops: "checkpoint env (uuid W (int e - 1)) (pieces W) ck = Inr (ops, target)" "sublist (map File ops) evs1"
    unfolding e epoch(3) by auto
  moreover have "sublist evs1 evs" unfolding r(2) by (rule sublist_appendI)
  ultimately have pub: "\<exists>ops target. checkpoint env (uuid W (int e - 1)) (pieces W) ck = Inr (ops, target) \<and> sublist (map File ops) evs"
    by (meson sublist_order.order_trans)
  obtain auc ap job attempt evs4 where m: "evaluate T p (train_from T p ?n st0) = (Some auc, Some ap)"
      "m = metrics_json lib W idn records result (J_Int 0) job attempt auc ap"
      "report T lib W env' p idn records result (J_Int (int e)) (train_from T p ?n st0)
        = (evs4, Inr (metrics_json lib W idn records result (J_Int (int e)) job attempt auc ap))"
    using report_resumed [OF r(1) later(1)] by metis
  from run(1,5) obtain mk d where out: "output_dir env = Inr (mk, d)" by (auto simp: task_run_def follow_Inr)
  then have out': "output_dir env' = Inr (mk, d)" by (simp add: later(1) output_dir_def)
  have res: "(case resume_path env' of None \<Rightarrow> Inr (st0, w, J_Int 0) | Some path \<Rightarrow> restore_state T W idn s' path st0) = Inr (train_from T p e st0, w, J_Int (int e))"
    using restore_checkpoint [OF torch idn later(3), of p e w "int e"] later(1,2,4) epoch(3) by (simp add: resume_path_def)
  have dir: "env' ''RUNGRID_CHECKPOINT_DIR'' \<noteq> None" using train_loop_value(2) [OF l] e(1) later(1) by simp
  have "e + nat (cf_epochs args - int e) = ?n" using epoch(2) by linarith
  then have "snd (train_loop T W env' p idn w (nat (cf_epochs args - int e)) (int e) (train_from T p e st0)) = Inr (train_from T p ?n st0)"
    using dir train_loop_runs [of env'] train_from_add [of T p e "nat (cf_epochs args - int e)" st0] by simp
  then obtain evs5 where "train_loop T W env' p idn w (nat (cf_epochs args - int e)) (int e) (train_from T p e st0) = (evs5, Inr (train_from T p ?n st0))"
    by (metis prod.collapse)
  with task_run_eq [OF run(1-3) idn out' res] ne m(3) have
    "\<exists>evs'. task_run T lib W args env' s' = (evs', Inr (metrics_json lib W idn records result (J_Int (int e)) job attempt auc ap))" by auto
  with pub m(2) task_is_run_once [where vw = "view W", OF run(1-3)] m(1) show ?thesis by metis
qed


section \<open>A run\<close>

definition ex_config :: task_config where
  "ex_config = \<lparr>cf_study = ''expanded-v2'', cf_dataset = ''DrugComb'', cf_data = ''d'', cf_regime = ''pair_cell_cold_start'', cf_model = ''MF'',
    cf_seed = 3, cf_epochs = 2, cf_dim = 1, cf_max_rows = 10\<rparr>"

definition ex_around :: "nat surroundings" where
  "ex_around = \<lparr>uuid = ex_uuid, pieces = (\<lambda>t. [t]), float_text = (\<lambda>_. asc ''0.5''), float_is = (\<lambda>_ _. False), manifest_save = (\<lambda>_ _. []), view = (\<lambda>_. ex_split)\<rparr>"

definition ex_task_env :: environ where
  "ex_task_env = ex_cmd_env(''RUNGRID_JOB_ID'' \<mapsto> ''j'', ''RUNGRID_ATTEMPT_ID'' \<mapsto> ''a'')"

definition ex_start :: "(unit, unit, nat) trainer" where
  "ex_start = \<lparr>tr_model = \<lparr>embedding = [[0], [1], [2], [3], [4]], convs = None\<rparr>, tr_optimizer = (), tr_generator = 3\<rparr>"

lemma upto_5: "[0..<5] = [0, 1, 2, 3, 4]"
  by code_simp

lemma ex_task_setup:
  "task_records ex_lib ex_config = Inr ([], 1)" "task_model ex_torch (prepare (view ex_around 1)) ex_config = (ex_start, ())"
proof -
  show "task_records ex_lib ex_config = Inr ([], 1)"
    by (simp add: task_records_def ex_config_def load_records_def split_protocol_def ex_lib_def STUDIES_def REGIMES_def or_library_def with_pairs_def Let_def)
  show "task_model ex_torch (prepare (view ex_around 1)) ex_config = (ex_start, ())"
    by (simp add: task_model_def ex_around_def ex_config_def ex_torch_def encoder_new_def prepare_def ex_split_def ex_start_def Let_def upto_5)
qed

lemma ex_restorable: "restorable ex_torch ex_start"
  unfolding restorable_def Let_def
proof (intro allI impI)
  fix e opt and g :: nat and w :: unit assume "trained ex_torch (tr_model ex_start) (tr_optimizer ex_start) e opt"
  then have e: "e = tr_model ex_start" by induction (simp_all add: ex_torch_def)
  let ?d = "\<lparr>sv_model = e, sv_optimizer = opt, sv_generator = g, sv_rng = w\<rparr>"
  have s: "torch_save ex_torch ?d = replicate g 1 @ [0, 1, 1, 1, 1, 1]" by (simp add: ex_torch_def ex_start_def e)
  have "takeWhile ((=) 1) (replicate g (1 :: nat) @ 0 # xs) = replicate g 1" for xs by (induction g) auto
  then have "torch_load ex_torch (torch_save ex_torch ?d) = Some ?d" unfolding s by (simp add: ex_torch_def ex_start_def nth_append upto_5 e)
  moreover have "is_bytes (torch_save ex_torch ?d)" unfolding s by (auto simp: is_bytes_def list_all_iff)
  moreover have "load_model ex_torch e' e = Some e" "load_optimizer ex_torch opt' opt = Some opt" for e' opt' by (simp_all add: ex_torch_def)
  ultimately show "is_bytes (torch_save ex_torch ?d) \<and> torch_load ex_torch (torch_save ex_torch ?d) = Some ?d
      \<and> load_model ex_torch (tr_model ex_start) e = Some e \<and> load_optimizer ex_torch (tr_optimizer ex_start) opt = Some opt"
    by blast
qed


lemma ex_task_run: "\<exists>evs m. task_run ex_torch ex_lib ex_around ex_config ex_task_env ex_fs = (evs, Inr m)"
proof -
  let ?p = "prepare (view ex_around 1)" and ?idn = "identity ex_config (manifest_digest ex_lib 1)"
  have v: "view ex_around 1 = ex_split" by (simp add: ex_around_def)
  have out: "output_dir ex_task_env = Inr ([Mkdir ''/w/outputs''], ''/w/outputs'')" by (simp add: output_dir_def ex_task_env_def ex_cmd_env_def)
  have fresh: "resume_path ex_task_env = None" by (simp add: resume_path_def ex_task_env_def ex_cmd_env_def)
  have res: "(case resume_path ex_task_env of None \<Rightarrow> Inr (ex_start, (), J_Int 0) | Some path \<Rightarrow> restore_state ex_torch ex_around ?idn ex_fs path ex_start)
    = Inr (ex_start, (), J_Int 0)" by (simp add: fresh)
  let ?st = "train_from ex_torch ?p 2 ex_start"
  have "snd (train_loop ex_torch ex_around ex_task_env ?p ?idn () 2 0 ex_start) = Inr ?st"
    by (rule train_loop_runs) (simp add: ex_task_env_def ex_cmd_env_def)
  then obtain evs1 where l: "train_loop ex_torch ex_around ex_task_env ?p ?idn () 2 0 ex_start = (evs1, Inr ?st)" by (metis prod.collapse)
  have desc: "mset (argsort_descending ex_torch xs) = mset [0..<length xs]" for xs
    using stable_argsort_sorts by (simp add: ex_torch_def sorts_def)
  have ne: "train_pos ?p \<noteq> []" "test_pos ?p \<noteq> []" unfolding v by code_simp+
  have "tr_generator ?st = 19" unfolding v by code_simp
  moreover have "fst (sample_pairs cycle_randint (fst (test_pools (prepare ex_split))) (snd (test_pools (prepare ex_split))) (length (test_pos (prepare ex_split)))
      (positives (prepare ex_split)) (self_rel (prepare ex_split)) 19) \<noteq> []" by code_simp
  ultimately obtain auc ap where "evaluate ex_torch ?p ?st = (Some auc, Some ap)"
    using evaluate_defined [OF desc ne(2) _ refl, where st = ?st] unfolding v by (auto simp: ex_torch_def)
  then obtain evs2 m where "report ex_torch ex_lib ex_around ex_task_env ?p ?idn [] 1 (J_Int 0) ?st = (evs2, Inr m)"
    using out by (simp add: report_def environ_item_def) (simp add: ex_task_env_def Let_def)
  with task_run_eq [OF ex_task_setup(1) refl ex_task_setup(2) refl out res] l ne show ?thesis by (auto simp: ex_config_def)
qed


definition ex_task_checkpoint :: json where
  "ex_task_checkpoint = checkpoint_state ex_torch (identity ex_config (manifest_digest ex_lib 1))
     (train_from ex_torch (prepare (view ex_around 1)) 1 ex_start) () 1"

theorem task_resumes_witness:
  "\<exists>evs evs' job attempt auc ap.
      task_run ex_torch ex_lib ex_around ex_config ex_task_env ex_fs
        = (evs, Inr (metrics_json ex_lib ex_around (identity ex_config (manifest_digest ex_lib 1)) [] 1 (J_Int 0) job attempt auc ap))
    \<and> task_run ex_torch ex_lib ex_around ex_config (ex_task_env(''RUNGRID_CHECKPOINT_PATH'' \<mapsto> ''/w/resume.json''))
          (ex_fs\<lparr>files := [''/w/resume.json'' \<mapsto> \<lparr>content = dumps ex_task_checkpoint, synced = []\<rparr>]\<rparr>)
        = (evs', Inr (metrics_json ex_lib ex_around (identity ex_config (manifest_digest ex_lib 1)) [] 1 (J_Int 1) job attempt auc ap))"
proof -
  obtain evs m where run: "task_run ex_torch ex_lib ex_around ex_config ex_task_env ex_fs = (evs, Inr m)" using ex_task_run by blast
  have fresh: "resume_path ex_task_env = None" by (simp add: resume_path_def ex_task_env_def ex_cmd_env_def)
  have ck: "ex_task_checkpoint = checkpoint_state ex_torch (identity ex_config (manifest_digest ex_lib 1))
      (train_from ex_torch (prepare (view ex_around 1)) 1 ex_start) () (int 1)" by (simp add: ex_task_checkpoint_def)
  have "int 1 \<le> cf_epochs ex_config" by (simp add: ex_config_def)
  from task_resumes [OF ex_task_setup(1) refl ex_task_setup(2) fresh run refl ex_restorable _ this ck refl, of "''/w/resume.json''"
      "ex_fs\<lparr>files := [''/w/resume.json'' \<mapsto> \<lparr>content = dumps ex_task_checkpoint, synced = []\<rparr>]\<rparr>" "\<lparr>content = dumps ex_task_checkpoint, synced = []\<rparr>"]
  obtain evs' job attempt auc ap where "m = metrics_json ex_lib ex_around (identity ex_config (manifest_digest ex_lib 1)) [] 1 (J_Int 0) job attempt auc ap"
    "task_run ex_torch ex_lib ex_around ex_config (ex_task_env(''RUNGRID_CHECKPOINT_PATH'' \<mapsto> ''/w/resume.json''))
       (ex_fs\<lparr>files := [''/w/resume.json'' \<mapsto> \<lparr>content = dumps ex_task_checkpoint, synced = []\<rparr>]\<rparr>)
     = (evs', Inr (metrics_json ex_lib ex_around (identity ex_config (manifest_digest ex_lib 1)) [] 1 (J_Int 1) job attempt auc ap))"
    by (auto simp del: dumps.simps)
  then show ?thesis using run by metis
qed

end
