(* ===== verification/Aggregate.thy ===== *)
theory Aggregate
  imports Client Sha256 "HOL-Library.List_Lexorder"
begin

text \<open>
  Collecting the results of a study (\<open>examples/heterosplit/aggregate.py\<close>): wait until every job has ended, refuse
  anything but success, fetch the one metrics artifact of each job's last attempt, check its SHA-256 against the
  committed checksum, and tabulate the AUC values by study, data set, regime and model. The HTTP exchange of each
  polling round, the clock, the object store and Python's conversions between floats and text are parameters.
\<close>

section \<open>Reading bytes as JSON\<close>

text \<open>UTF-8 as \<open>json.loads\<close> decodes it, with surrogates let through. A text that starts like another Unicode
  encoding goes to that encoding's decoder, a parameter.\<close>

definition continues :: "nat \<Rightarrow> bool" where
  "continues b \<longleftrightarrow> 128 \<le> b \<and> b < 192"

fun utf8_decode :: "nat list \<Rightarrow> pystr option" where
  "utf8_decode [] = Some []"
| "utf8_decode (a # r) =
    (if a < 128 then map_option ((#) a) (utf8_decode r)
     else if 194 \<le> a \<and> a < 224 then
       (case r of b # r \<Rightarrow> if continues b then map_option ((#) ((a - 192) * 64 + (b - 128))) (utf8_decode r) else None | _ \<Rightarrow> None)
     else if 224 \<le> a \<and> a < 240 then
       (case r of b # c # r \<Rightarrow>
          let u = (a - 224) * 4096 + (b - 128) * 64 + (c - 128) in
          if continues b \<and> continues c \<and> 0x800 \<le> u then map_option ((#) u) (utf8_decode r) else None
        | _ \<Rightarrow> None)
     else if 240 \<le> a \<and> a < 245 then
       (case r of b # c # d # r \<Rightarrow>
          let u = (a - 240) * 262144 + (b - 128) * 4096 + (c - 128) * 64 + (d - 128) in
          if continues b \<and> continues c \<and> continues d \<and> 0x10000 \<le> u \<and> u \<le> 0x10FFFF then map_option ((#) u) (utf8_decode r) else None
        | _ \<Rightarrow> None)
     else None)"

definition other_encoding :: "nat list \<Rightarrow> bool" where
  "other_encoding bs \<longleftrightarrow> take 2 bs = [254, 255] \<or> take 2 bs = [255, 254] \<or> take 3 bs = [239, 187, 191]
     \<or> 2 \<le> length bs \<and> length bs \<noteq> 3 \<and> (bs ! 0 = 0 \<or> bs ! 1 = 0)"

definition loads_bytes :: "(nat list \<Rightarrow> pystr option) \<Rightarrow> bytes \<Rightarrow> json option" where
  "loads_bytes other data =
    (let bs = map unat data in Option.bind (if other_encoding bs then other bs else utf8_decode bs) loads)"

lemma utf8_decode_ascii: "list_all (\<lambda>b. b < 128) bs \<Longrightarrow> utf8_decode bs = Some bs"
  by (induction bs) auto

section \<open>Waiting for the jobs\<close>

datatype agg_error = Api sdk_error | Timed_out | Not_all_succeeded | No_attempt | Not_one_metrics | No_object | Checksum_mismatch

definition api :: "sdk_error + 'a \<Rightarrow> agg_error + 'a" where
  "api r = (case r of Inl e \<Rightarrow> Inl (Api e) | Inr a \<Rightarrow> Inr a)"

fun each :: "('a \<Rightarrow> 'e + 'b) \<Rightarrow> 'a list \<Rightarrow> 'e + 'b list" where
  "each f [] = Inr []"
| "each f (x # xs) = bindR (f x) (\<lambda>y. bindR (each f xs) (\<lambda>ys. Inr (y # ys)))"

text \<open>What \<open>for\<close> iterates over.\<close>

definition iter_json :: "json \<Rightarrow> sdk_error + json list" where
  "iter_json v = (case v of J_List vs \<Rightarrow> Inr vs | J_Obj kvs \<Rightarrow> Inr (map (J_Str \<circ> fst) kvs) | J_Str s \<Rightarrow> Inr (map (\<lambda>c. J_Str [c]) s)
     | _ \<Rightarrow> Inl TypeError)"

text \<open>The id as it enters the URL, which has to be ASCII.\<close>

definition id_of :: "json \<Rightarrow> sdk_error + string" where
  "id_of j = bindR (get_item (asc ''id'') j) (\<lambda>i. case i of
     J_Str s \<Rightarrow> if list_all (\<lambda>c. c < 128) s then Inr (map char_of s) else Inl ValueError
   | J_Int n \<Rightarrow> Inr (str_int n)
   | _ \<Rightarrow> Inl ValueError)"

definition succeeded :: json where
  "succeeded = J_Str (asc ''SUCCEEDED'')"

definition terminal_states :: "json list" where
  "terminal_states = [succeeded, J_Str (asc ''FAILED''), J_Str (asc ''CANCELLED'')]"

fun all_ended :: "json list \<Rightarrow> sdk_error + bool" where
  "all_ended [] = Inr True"
| "all_ended (j # js) = bindR (get_item (asc ''state'') j) (\<lambda>s. if s \<in> set terminal_states then all_ended js else Inr False)"

definition count_succeeded :: "json list \<Rightarrow> sdk_error + nat" where
  "count_succeeded js = bindR (each (get_item (asc ''state'')) js) (\<lambda>ss. Inr (length (filter ((=) succeeded) ss)))"

text \<open>\<open>http n\<close> is the client in the \<open>n\<close>th polling round, \<open>clock n\<close> the time when that round is over.\<close>

partial_function (option) wait_loop :: "(nat \<Rightarrow> http_client) \<Rightarrow> (nat \<Rightarrow> real) \<Rightarrow> real \<Rightarrow> json list \<Rightarrow> nat \<Rightarrow> (agg_error + nat \<times> json list) option" where
  "wait_loop http clock deadline listed n =
    (case each (\<lambda>j. bindR (id_of j) (client_get (http n))) listed of
       Inl e \<Rightarrow> Some (Inl (Api e))
     | Inr states \<Rightarrow>
         (case all_ended states of
            Inl e \<Rightarrow> Some (Inl (Api e))
          | Inr ended \<Rightarrow>
              if ended then Some (Inr (n, states))
              else if deadline \<le> clock n then Some (Inl Timed_out)
              else (case count_succeeded states of
                Inl e \<Rightarrow> Some (Inl (Api e))
              | Inr _ \<Rightarrow> wait_loop http clock deadline listed (Suc n))))"

section \<open>Verified rows\<close>

definition ends_with :: "pystr \<Rightarrow> json \<Rightarrow> sdk_error + bool" where
  "ends_with x v = (case v of J_Str s \<Rightarrow> Inr (suffix x s) | _ \<Rightarrow> Inl TypeError)"

fun filterR :: "('a \<Rightarrow> 'e + bool) \<Rightarrow> 'a list \<Rightarrow> 'e + 'a list" where
  "filterR p [] = Inr []"
| "filterR p (x # xs) = bindR (p x) (\<lambda>b. bindR (filterR p xs) (\<lambda>ys. Inr (if b then x # ys else ys)))"

text \<open>\<open>attempts[-1]\<close>.\<close>

definition last_item :: "json \<Rightarrow> agg_error + json" where
  "last_item v = (case v of J_List vs \<Rightarrow> if vs = [] then Inl No_attempt else Inr (last vs) | J_Obj _ \<Rightarrow> Inl (Api KeyError)
     | J_Str s \<Rightarrow> if s = [] then Inl No_attempt else Inr (J_Str [last s]) | _ \<Rightarrow> Inl (Api TypeError))"

definition metrics_artifact :: "http_client \<Rightarrow> json \<Rightarrow> agg_error + json" where
  "metrics_artifact c job =
    bindR (api (bindR (id_of job) (client_attempts c))) (\<lambda>as.
    bindR (last_item as) (\<lambda>attempt.
    bindR (api (bindR (bindR (id_of job) (client_artifacts c)) iter_json)) (\<lambda>items.
    bindR (api (filterR (\<lambda>a. bindR (get_item (asc ''attempt_id'') a) (\<lambda>x. bindR (get_item (asc ''id'') attempt) (\<lambda>y. Inr (x = y)))) items)) (\<lambda>artifacts.
    bindR (api (filterR (\<lambda>a. bindR (get_item (asc ''object_key'') a) (ends_with (asc ''-metrics.json''))) artifacts)) (\<lambda>metrics.
      case metrics of [m] \<Rightarrow> Inr m | _ \<Rightarrow> Inl Not_one_metrics)))))"

text \<open>\<open>s3 key\<close> is the body of an object of the bucket.\<close>

definition verified_row :: "(nat list \<Rightarrow> pystr option) \<Rightarrow> (json \<Rightarrow> bytes option) \<Rightarrow> http_client \<Rightarrow> json \<Rightarrow> agg_error + json" where
  "verified_row other s3 c job =
    bindR (metrics_artifact c job) (\<lambda>m.
    bindR (api (get_item (asc ''object_key'') m)) (\<lambda>key.
    case s3 key of None \<Rightarrow> Inl No_object
    | Some data \<Rightarrow>
        bindR (api (get_item (asc ''checksum'') m)) (\<lambda>sum.
        if J_Str (asc (sha256_hex data)) \<noteq> sum then Inl Checksum_mismatch
        else case loads_bytes other data of None \<Rightarrow> Inl (Api ValueError) | Some row \<Rightarrow> Inr row)))"


section \<open>The table\<close>

text \<open>The key of a row as the list of its four parts; sorting and joining keys asks for strings.\<close>

definition get_default :: "pystr \<Rightarrow> json \<Rightarrow> json \<Rightarrow> sdk_error + json" where
  "get_default k d v = (case v of J_Obj kvs \<Rightarrow> Inr (case map_of kvs k of None \<Rightarrow> d | Some w \<Rightarrow> w) | _ \<Rightarrow> Inl TypeError)"

definition text_of :: "json \<Rightarrow> sdk_error + pystr" where
  "text_of v = (case v of J_Str s \<Rightarrow> Inr s | _ \<Rightarrow> Inl TypeError)"

definition row_key :: "json \<Rightarrow> sdk_error + pystr list" where
  "row_key row =
    bindR (bindR (get_default (asc ''study'') (J_Str (asc ''original-v1'')) row) text_of) (\<lambda>study.
    bindR (each (\<lambda>k. bindR (get_item (asc k) row) text_of) [''dataset'', ''regime'', ''model'']) (\<lambda>rest. Inr (study # rest)))"

definition number_of :: "(pystr \<Rightarrow> real) \<Rightarrow> json \<Rightarrow> sdk_error + real" where
  "number_of float_value v = (case v of J_Float s \<Rightarrow> Inr (float_value s) | J_Int i \<Rightarrow> Inr (real_of_int i) | J_Bool b \<Rightarrow> Inr (of_bool b)
     | _ \<Rightarrow> Inl TypeError)"

definition row_entry :: "(pystr \<Rightarrow> real) \<Rightarrow> json \<Rightarrow> sdk_error + pystr list \<times> real" where
  "row_entry float_value row = bindR (row_key row) (\<lambda>k. bindR (bindR (get_item (asc ''auc'') row) (number_of float_value)) (\<lambda>x. Inr (k, x)))"

text \<open>\<open>defaultdict(list)\<close>: append to the group of the key, at its place.\<close>

fun add_to :: "'k \<Rightarrow> 'v \<Rightarrow> ('k \<times> 'v list) list \<Rightarrow> ('k \<times> 'v list) list" where
  "add_to k v [] = [(k, [v])]"
| "add_to k v ((k', vs) # gs) = (if k = k' then (k', vs @ [v]) # gs else (k', vs) # add_to k v gs)"

definition groups_of :: "('k \<times> 'v) list \<Rightarrow> ('k \<times> 'v list) list" where
  "groups_of es = fold (\<lambda>(k, v). add_to k v) es []"

definition mean :: "real list \<Rightarrow> real" where
  "mean xs = sum_list xs / real (length xs)"

definition stdev :: "real list \<Rightarrow> real" where
  "stdev xs = sqrt (sum_list (map (\<lambda>x. (x - mean xs)\<^sup>2) xs) / (real (length xs) - 1))"

definition table_line :: "(real \<Rightarrow> pystr) \<Rightarrow> pystr list \<times> real list \<Rightarrow> pystr" where
  "table_line fixed4 g = (case g of (key, values) \<Rightarrow>
     asc ''| '' @ join (asc '' | '') key @ asc '' | '' @ asc (str_nat (length values)) @ asc '' | '' @ fixed4 (mean values) @ asc '' | ''
       @ fixed4 (if 1 < length values then stdev values else 0) @ asc '' |'')"

definition table_head :: "pystr list" where
  "table_head = map asc [''# HeteroSplit distributed experiment results'', '''',
     ''A scheduler demonstration; reduced data/epochs are not a replication of the published study.'', '''',
     ''Context holdouts use context-blind link predictors; month holdouts are not chronological forecasting.'', '''',
     ''| Study | Dataset | Regime | Model | Seeds | AUC mean | AUC std |'', ''|---|---|---|---|---:|---:|---:|'']"

definition summary :: "(real \<Rightarrow> pystr) \<Rightarrow> (pystr list \<times> real list) list \<Rightarrow> pystr" where
  "summary fixed4 groups = join (asc [CHR 0x0A]) (table_head @ map (table_line fixed4) (sort_key fst groups)) @ asc [CHR 0x0A]"

section \<open>The script\<close>

record agg_world =
  aw_http :: "nat \<Rightarrow> http_client"
  aw_clock :: "nat \<Rightarrow> real"
  aw_start :: real
  aw_s3 :: "json \<Rightarrow> bytes option"
  aw_decode :: "nat list \<Rightarrow> pystr option"
  aw_float :: "pystr \<Rightarrow> real"
  aw_fixed4 :: "real \<Rightarrow> pystr"

text \<open>After the waiting: the operations on files, also when a later step raised.\<close>

definition collect_rows :: "agg_world \<Rightarrow> string \<Rightarrow> nat \<Rightarrow> json list \<Rightarrow> fs_op list \<times> (agg_error + unit)" where
  "collect_rows w out n states =
    (case each (\<lambda>j. api (get_item (asc ''state'') j)) states of
       Inl e \<Rightarrow> ([], Inl e)
     | Inr ss \<Rightarrow>
       if list_ex (\<lambda>s. s \<noteq> succeeded) ss then ([], Inl Not_all_succeeded)
       else (case bindR (each (verified_row (aw_decode w) (aw_s3 w) (aw_http w (Suc n))) states) (\<lambda>rows.
               bindR (api (each (row_entry (aw_float w)) rows)) (\<lambda>entries. Inr (rows, groups_of entries))) of
           Inl e \<Rightarrow> ([Mkdir out], Inl e)
         | Inr (rows, groups) \<Rightarrow>
             ([Mkdir out] @ write_text (path_join out ''metrics.json'') (dumps_indent 0 (J_List rows))
                @ write_text (path_join out ''summary.md'') (summary (aw_fixed4 w) groups), Inr ())))"

definition aggregate :: "agg_world \<Rightarrow> fs \<Rightarrow> string \<Rightarrow> string \<Rightarrow> nat \<Rightarrow> (fs_op list \<times> (agg_error + unit)) option" where
  "aggregate w s listing out timeout =
    (case bindR (read_json listing s) iter_json of
       Inl e \<Rightarrow> Some ([], Inl (Api e))
     | Inr listed \<Rightarrow>
       (case wait_loop (aw_http w) (aw_clock w) (aw_start w + real timeout) listed 0 of
          None \<Rightarrow> None
        | Some (Inl e) \<Rightarrow> Some ([], Inl e)
        | Some (Inr (n, states)) \<Rightarrow> Some (collect_rows w out n states)))"


section \<open>Loops over results\<close>

lemma each_Inr: "each f xs = Inr ys \<longleftrightarrow> list_all2 (\<lambda>x y. f x = Inr y) xs ys"
  by (induction xs arbitrary: ys) (auto simp: bindR_Inr_iff list_all2_Cons1)

lemma filterR_Inr: "filterR p xs = Inr ys \<Longrightarrow> ys = filter (\<lambda>x. p x = Inr True) xs \<and> (\<forall>x \<in> set xs. \<exists>b. p x = Inr b)"
  by (induction xs arbitrary: ys) (auto simp: bindR_Inr_iff)

lemma api_simps [simp]: "api (Inr a) = Inr a" "api (Inl e) = Inl (Api e)"
  by (simp_all add: api_def)

lemma api_Inr [simp]: "api r = Inr a \<longleftrightarrow> r = Inr a"
  by (auto simp: api_def split: sum.splits)

lemma wait_loop_returns:
  "n \<le> k \<Longrightarrow> deadline \<le> clock k \<Longrightarrow> \<exists>r. wait_loop http clock deadline listed n = Some r"
proof (induction "k - n" arbitrary: n)
  case 0
  then show ?case by (subst wait_loop.simps) (auto split: sum.splits)
next
  case (Suc d)
  then have "\<exists>r. wait_loop http clock deadline listed (Suc n) = Some r" by auto
  then show ?case by (subst wait_loop.simps) (auto split: sum.splits)
qed

lemma wait_loop_ended:
  assumes "wait_loop http clock deadline listed n = Some r"
  shows "r = Inr (k, states) \<longrightarrow>
    each (\<lambda>j. bindR (id_of j) (client_get (http k))) listed = Inr states \<and> all_ended states = Inr True"
proof (induction rule: wait_loop.raw_induct [OF _ assms])
  case (1 wait_loop http clock deadline listed n r)
  show ?case
  proof
    assume r: "r = Inr (k, states)"
    show "each (\<lambda>j. bindR (id_of j) (client_get (http k))) listed = Inr states \<and> all_ended states = Inr True"
      using 1(2) 1(1) unfolding r by (auto split: sum.splits if_splits)
  qed
qed

section \<open>Groups\<close>

lemma add_to_keys: "fst ` set (add_to k v gs) = insert k (fst ` set gs)"
  by (induction k v gs rule: add_to.induct) auto

lemma distinct_add_to: "distinct (map fst gs) \<Longrightarrow> distinct (map fst (add_to k v gs))"
  by (induction k v gs rule: add_to.induct) (simp_all add: add_to_keys)

lemma map_of_add_to: "map_of (add_to k v gs) k' =
    (if k' = k then Some ((case map_of gs k of None \<Rightarrow> [] | Some vs \<Rightarrow> vs) @ [v]) else map_of gs k')"
  by (induction k v gs rule: add_to.induct) auto

lemma groups_of_snoc: "groups_of (es @ [(k, v)]) = add_to k v (groups_of es)"
  by (simp add: groups_of_def)

lemma groups_distinct: "distinct (map fst (groups_of es))"
  by (induction es rule: rev_induct) (auto simp: groups_of_snoc distinct_add_to groups_of_def)

lemma groups_lookup:
  "map_of (groups_of es) k = (if k \<in> fst ` set es then Some (map snd (filter (\<lambda>e. fst e = k) es)) else None)"
proof (induction es rule: rev_induct)
  case (snoc e es)
  obtain k' v where e: "e = (k', v)" by fastforce
  show ?case
  proof (cases "k \<in> fst ` set es")
    case True
    then show ?thesis using snoc by (cases "k = k'") (simp_all add: e groups_of_snoc map_of_add_to)
  next
    case False
    then have "filter (\<lambda>e. fst e = k) es = []" by (auto simp: filter_empty_conv)
    then show ?thesis using snoc False by (auto simp: e groups_of_snoc map_of_add_to)
  qed
qed (simp add: groups_of_def)


section \<open>Only verified results\<close>

text \<open>The table as the groups in its order.\<close>

definition table_of :: "(pystr list \<times> real) list \<Rightarrow> (pystr list \<times> real list) list" where
  "table_of entries = sort_key fst (groups_of entries)"

lemma table_of_sorted: "sorted_wrt (<) (map fst (table_of entries))"
proof -
  have "distinct (map fst (table_of entries))" using groups_distinct [of entries] by (simp add: table_of_def distinct_map)
  then show ?thesis by (simp add: table_of_def strict_sorted_iff)
qed

lemma table_of_lookup: "map_of (table_of entries) k = (if k \<in> fst ` set entries then Some (map snd (filter (\<lambda>e. fst e = k) entries)) else None)"
proof -
  have "map_of (table_of entries) = map_of (groups_of entries)"
    using groups_distinct [of entries] by (intro map_of_eqI) (auto simp: table_of_def map_of_eq_Some_iff distinct_map)
  then show ?thesis by (simp add: groups_lookup)
qed

definition from_last_attempt :: "http_client \<Rightarrow> json \<Rightarrow> json \<Rightarrow> bool" where
  "from_last_attempt c job m \<longleftrightarrow> (\<exists>i as key. id_of job = Inr i \<and> client_attempts c i = Inr (J_List as) \<and> as \<noteq> []
     \<and> get_item (asc ''attempt_id'') m = get_item (asc ''id'') (last as)
     \<and> get_item (asc ''object_key'') m = Inr (J_Str key) \<and> suffix (asc ''-metrics.json'') key)"

lemma one_Inr: "(case xs of [] \<Rightarrow> Inl e | [m] \<Rightarrow> Inr m | m # y # ys \<Rightarrow> Inl e) = Inr x \<longleftrightarrow> xs = [x]"
  by (cases xs rule: remdups_adj.cases) auto

lemma ends_with_Inr: "ends_with x v = Inr True \<longleftrightarrow> (\<exists>s. v = J_Str s \<and> suffix x s)"
  by (cases v) (auto simp: ends_with_def)

lemma metrics_artifact_last:
  assumes "metrics_artifact c job = Inr m"
  shows "from_last_attempt c job m"
proof -
  from assms obtain i as attempt items artifacts where i: "id_of job = Inr i" "client_attempts c i = Inr as" "last_item as = Inr attempt"
    and f: "filterR (\<lambda>a. bindR (get_item (asc ''attempt_id'') a) (\<lambda>x. bindR (get_item (asc ''id'') attempt) (\<lambda>y. Inr (x = y)))) items = Inr artifacts"
      "filterR (\<lambda>a. bindR (get_item (asc ''object_key'') a) (ends_with (asc ''-metrics.json''))) artifacts = Inr [m]"
    unfolding metrics_artifact_def bindR_Inr_iff api_Inr one_Inr by blast
  from filterR_Inr [OF f(2)] have m: "m \<in> set (filter (\<lambda>a. bindR (get_item (asc ''object_key'') a) (ends_with (asc ''-metrics.json'')) = Inr True) artifacts)"
    by (metis list.set_intros(1))
  with filterR_Inr [OF f(1)] obtain x where x: "get_item (asc ''attempt_id'') m = Inr x" "get_item (asc ''id'') attempt = Inr x"
    by (auto simp: bindR_Inr_iff simp del: asc_simps)
  from m obtain key where "get_item (asc ''object_key'') m = Inr (J_Str key)" "suffix (asc ''-metrics.json'') key"
    by (auto simp: bindR_Inr_iff ends_with_Inr simp del: asc_simps)
  moreover from x(2) i(3) obtain vs where "as = J_List vs" "vs \<noteq> []" "attempt = last vs"
    by (auto simp: last_item_def get_item_def split: json.splits if_splits)
  ultimately show ?thesis using i x unfolding from_last_attempt_def by auto
qed

definition vouched :: "agg_world \<Rightarrow> http_client \<Rightarrow> json \<Rightarrow> json \<Rightarrow> bool" where
  "vouched w c job row \<longleftrightarrow> (\<exists>m key data. from_last_attempt c job m \<and> get_item (asc ''object_key'') m = Inr key \<and> aw_s3 w key = Some data
     \<and> get_item (asc ''checksum'') m = Inr (J_Str (asc (sha256_hex data))) \<and> loads_bytes (aw_decode w) data = Some row)"

lemma verified_row_vouched:
  assumes "verified_row (aw_decode w) (aw_s3 w) c job = Inr row"
  shows "vouched w c job row"
proof -
  from assms obtain m key where m: "metrics_artifact c job = Inr m" "get_item (asc ''object_key'') m = Inr key"
    and d: "(case aw_s3 w key of None \<Rightarrow> Inl No_object | Some data \<Rightarrow> bindR (api (get_item (asc ''checksum'') m)) (\<lambda>sum.
        if J_Str (asc (sha256_hex data)) \<noteq> sum then Inl Checksum_mismatch
        else case loads_bytes (aw_decode w) data of None \<Rightarrow> Inl (Api ValueError) | Some row \<Rightarrow> Inr row)) = Inr row"
    unfolding verified_row_def bindR_Inr_iff api_Inr by blast
  from d obtain data where "aw_s3 w key = Some data" "get_item (asc ''checksum'') m = Inr (J_Str (asc (sha256_hex data)))"
    "loads_bytes (aw_decode w) data = Some row"
    by (auto simp: bindR_Inr_iff simp del: asc_simps split: option.splits if_splits)
  with m metrics_artifact_last [OF m(1)] show ?thesis unfolding vouched_def by blast
qed

definition result_files :: "agg_world \<Rightarrow> string \<Rightarrow> json list \<Rightarrow> (pystr list \<times> real) list \<Rightarrow> fs_op list" where
  "result_files w out rows entries =
    [Mkdir out] @ write_text (path_join out ''metrics.json'') (dumps_indent 0 (J_List rows))
      @ write_text (path_join out ''summary.md'') (join (asc [CHR 0x0A]) (table_head @ map (table_line (aw_fixed4 w)) (table_of entries)) @ asc [CHR 0x0A])"

lemma collect_rows_cases:
  assumes "collect_rows w out n states = (ops, r)"
  shows "(\<exists>e. r = Inl e \<and> set ops \<subseteq> {Mkdir out})
    \<or> (\<exists>rows entries. r = Inr () \<and> list_all (\<lambda>st. get_item (asc ''state'') st = Inr succeeded) states
        \<and> list_all2 (vouched w (aw_http w (Suc n))) states rows \<and> list_all2 (\<lambda>row e. row_entry (aw_float w) row = Inr e) rows entries
        \<and> ops = result_files w out rows entries)"
proof (cases r)
  case (Inl e)
  then show ?thesis using assms by (auto simp: collect_rows_def split: sum.splits if_splits)
next
  case (Inr u)
  from assms Inr obtain ss rows entries where ss: "each (\<lambda>j. api (get_item (asc ''state'') j)) states = Inr ss" "\<not> list_ex (\<lambda>s. s \<noteq> succeeded) ss"
    and rows: "each (verified_row (aw_decode w) (aw_s3 w) (aw_http w (Suc n))) states = Inr rows" "each (row_entry (aw_float w)) rows = Inr entries"
    and ops: "ops = [Mkdir out] @ write_text (path_join out ''metrics.json'') (dumps_indent 0 (J_List rows))
                @ write_text (path_join out ''summary.md'') (summary (aw_fixed4 w) (groups_of entries))"
    by (auto simp: collect_rows_def bindR_Inr_iff simp del: asc_simps dumps_indent.simps split: sum.splits if_splits)
  have "list_all (\<lambda>st. get_item (asc ''state'') st = Inr succeeded) states"
    using ss unfolding each_Inr by (auto simp: list_all2_conv_all_nth list_all_length list_ex_length simp del: asc_simps)
  moreover have "list_all2 (vouched w (aw_http w (Suc n))) states rows"
    using rows(1) unfolding each_Inr by (rule list_all2_mono) (rule verified_row_vouched)
  moreover have "r = Inr ()" using Inr by simp
  ultimately show ?thesis using rows(2) ops unfolding each_Inr summary_def table_of_def result_files_def by blast
qed

text \<open>C34: The summary of a study holds verified results only. Once the clock passes the deadline the script has ended; if
  it fails it has written no result file, and if it ends without an error, every listed job was \<open>SUCCEEDED\<close> in one
  polling round, the rows are in order one per job, each read from an object whose SHA-256 is the checksum
  committed for the metrics artifact of that job's last attempt, and the table has one line for every combination of
  study, data set, regime and model in order, made from exactly the AUC values of its rows.\<close>

theorem aggregate_verified:
  assumes "aw_start w + real timeout \<le> aw_clock w k"
  shows "\<exists>ops r. aggregate w s listing out timeout = Some (ops, r)
    \<and> ((\<exists>e. r = Inl e \<and> set ops \<subseteq> {Mkdir out})
      \<or> (\<exists>v listed n states rows entries. r = Inr () \<and> read_json listing s = Inr v \<and> iter_json v = Inr listed
          \<and> list_all2 (\<lambda>j st. bindR (id_of j) (client_get (aw_http w n)) = Inr st \<and> get_item (asc ''state'') st = Inr succeeded) listed states
          \<and> list_all2 (vouched w (aw_http w (Suc n))) states rows
          \<and> list_all2 (\<lambda>row e. row_entry (aw_float w) row = Inr e) rows entries
          \<and> sorted_wrt (<) (map fst (table_of entries))
          \<and> (\<forall>key. map_of (table_of entries) key
                = (if key \<in> fst ` set entries then Some (map snd (filter (\<lambda>e. fst e = key) entries)) else None))
          \<and> ops = result_files w out rows entries))"
proof (cases "bindR (read_json listing s) iter_json")
  case (Inl e)
  then show ?thesis by (auto simp: aggregate_def)
next
  case (Inr listed)
  then obtain v where v: "read_json listing s = Inr v" "iter_json v = Inr listed" by (auto simp: bindR_Inr_iff)
  obtain r where r: "wait_loop (aw_http w) (aw_clock w) (aw_start w + real timeout) listed 0 = Some r"
    using wait_loop_returns [of 0 k] assms by blast
  show ?thesis
  proof (cases r)
    case (Inl e)
    then show ?thesis using Inr r by (auto simp: aggregate_def)
  next
    case (Inr nst)
    then obtain n states where n: "r = Inr (n, states)" by (cases nst) auto
    obtain ops r' where c: "collect_rows w out n states = (ops, r')" by fastforce
    then have agg: "aggregate w s listing out timeout = Some (ops, r')" using \<open>bindR _ _ = Inr listed\<close> r n by (simp add: aggregate_def)
    have got: "list_all2 (\<lambda>j st. bindR (id_of j) (client_get (aw_http w n)) = Inr st) listed states"
      using wait_loop_ended [OF r] n by (auto simp: each_Inr)
    from collect_rows_cases [OF c] show ?thesis
    proof
      assume "\<exists>e. r' = Inl e \<and> set ops \<subseteq> {Mkdir out}"
      then show ?thesis using agg by blast
    next
      assume "\<exists>rows entries. r' = Inr () \<and> list_all (\<lambda>st. get_item (asc ''state'') st = Inr succeeded) states
        \<and> list_all2 (vouched w (aw_http w (Suc n))) states rows \<and> list_all2 (\<lambda>row e. row_entry (aw_float w) row = Inr e) rows entries
        \<and> ops = result_files w out rows entries"
      then obtain rows entries where *: "r' = Inr ()" "list_all (\<lambda>st. get_item (asc ''state'') st = Inr succeeded) states"
        "list_all2 (vouched w (aw_http w (Suc n))) states rows" "list_all2 (\<lambda>row e. row_entry (aw_float w) row = Inr e) rows entries"
        "ops = result_files w out rows entries"
        by blast
      have "list_all2 (\<lambda>j st. bindR (id_of j) (client_get (aw_http w n)) = Inr st \<and> get_item (asc ''state'') st = Inr succeeded) listed states"
        using got *(2) by (simp add: list_all2_conv_all_nth list_all_length del: asc_simps)
      then show ?thesis using agg *(1,5) v *(3,4) table_of_sorted [of entries] table_of_lookup [of entries]
        by (intro exI [of _ ops] exI [of _ r'] conjI disjI2 exI [of _ v] exI [of _ listed] exI [of _ n] exI [of _ states] exI [of _ rows] exI [of _ entries] allI)
    qed
  qed
qed


section \<open>A study of one job\<close>

definition ex_metrics_row :: json where
  "ex_metrics_row = J_Obj [(asc ''dataset'', J_Str (asc ''MovieLens'')), (asc ''regime'', J_Str (asc ''random'')), (asc ''model'', J_Str (asc ''MF'')),
     (asc ''auc'', J_Int 1)]"

definition ex_object :: bytes where
  "ex_object = map of_nat (dumps ex_metrics_row)"

definition ex_answer :: "http_request \<Rightarrow> sdk_error + json" where
  "ex_answer r =
    (if hr_url r = ''/v1/jobs/j'' then Inr (J_Obj [(asc ''id'', J_Str (asc ''j'')), (asc ''state'', succeeded)])
     else if hr_url r = ''/v1/jobs/j/attempts?limit=1000'' then Inr (J_List [J_Obj [(asc ''id'', J_Str (asc ''a''))]])
     else Inr (J_List [J_Obj [(asc ''attempt_id'', J_Str (asc ''a'')), (asc ''object_key'', J_Str (asc ''k-metrics.json'')),
       (asc ''checksum'', J_Str (asc (sha256_hex ex_object)))]]))"

definition ex_agg :: agg_world where
  "ex_agg = \<lparr>aw_http = (\<lambda>_. \<lparr>hc_url = '''', hc_open = ex_answer, hc_uuid = ''u''\<rparr>), aw_clock = (\<lambda>_. 10), aw_start = 0,
     aw_s3 = (\<lambda>k. if k = J_Str (asc ''k-metrics.json'') then Some ex_object else None), aw_decode = (\<lambda>_. None), aw_float = (\<lambda>_. 0),
     aw_fixed4 = (\<lambda>_. asc ''1.0000'')\<rparr>"

definition ex_listing :: fs where
  "ex_listing = \<lparr>dirs = {}, files = [''jobs.json'' \<mapsto> \<lparr>content = dumps (J_List [J_Obj [(asc ''id'', J_Str (asc ''j''))]]), synced = []\<rparr>]\<rparr>"

lemma ex_object_loads: "loads_bytes other ex_object = Some ex_metrics_row"
proof -
  have ok: "json_ok ex_metrics_row" by (simp add: ex_metrics_row_def scalar_value_def)
  have p: "list_all printable (dumps ex_metrics_row)" by (rule printable_dumps [OF ok])
  then have b: "map unat ex_object = dumps ex_metrics_row"
    by (auto simp: ex_object_def list_all_iff printable_def unat_of_nat take_bit_nat_eq_self simp del: dumps.simps intro!: map_idI)
  have "\<exists>r. dumps ex_metrics_row = 123 # 34 # r" by (simp add: ex_metrics_row_def dumps_str_def)
  then have "\<not> other_encoding (dumps ex_metrics_row)" by (auto simp: other_encoding_def)
  moreover have "utf8_decode (dumps ex_metrics_row) = Some (dumps ex_metrics_row)" by (rule utf8_decode_ascii) (use p in \<open>auto simp: list_all_iff printable_def\<close>)
  ultimately show ?thesis by (simp add: loads_bytes_def b loads_dumps [OF ok] del: dumps.simps)
qed


lemma ex_client:
  "client_get (aw_http ex_agg n) ''j'' = Inr (J_Obj [(asc ''id'', J_Str (asc ''j'')), (asc ''state'', succeeded)])"
  "client_attempts (aw_http ex_agg n) ''j'' = Inr (J_List [J_Obj [(asc ''id'', J_Str (asc ''a''))]])"
  "client_artifacts (aw_http ex_agg n) ''j'' = Inr (J_List [J_Obj [(asc ''attempt_id'', J_Str (asc ''a'')), (asc ''object_key'', J_Str (asc ''k-metrics.json'')),
       (asc ''checksum'', J_Str (asc (sha256_hex ex_object)))]])"
  by (simp_all add: client_get_def client_attempts_def client_artifacts_def http_call_def http_request_of_def ex_agg_def ex_answer_def)

lemma ex_id: "id_of (J_Obj ((asc ''id'', J_Str (asc ''j'')) # kvs)) = Inr ''j''"
proof -
  have "char_of (106 :: nat) = CHR ''j''" by code_simp
  then show ?thesis by (simp add: id_of_def get_item_def)
qed

lemma ex_verified: "verified_row (aw_decode ex_agg) (aw_s3 ex_agg) (aw_http ex_agg n) (J_Obj [(asc ''id'', J_Str (asc ''j'')), (asc ''state'', st)]) = Inr ex_metrics_row"
proof -
  note i = ex_id [of "[(asc ''state'', st)]"]
  have s3: "aw_s3 ex_agg (J_Str (asc ''k-metrics.json'')) = Some ex_object" by (simp add: ex_agg_def)
  have suf: "suffix (asc ''-metrics.json'') (asc ''k-metrics.json'')" by (simp add: suffix_def)
  show ?thesis
    by (simp add: verified_row_def metrics_artifact_def i ex_client last_item_def iter_json_def get_item_def ends_with_def suf s3 ex_object_loads del: asc_simps)
qed

lemma ex_aggregate: "\<exists>ops. aggregate ex_agg ex_listing ''jobs.json'' ''out'' 5 = Some (ops, Inr ())"
proof -
  let ?job = "J_Obj [(asc ''id'', J_Str (asc ''j''))]" and ?st = "J_Obj [(asc ''id'', J_Str (asc ''j'')), (asc ''state'', succeeded)]"
  have ok: "json_ok (J_List [?job])" by (simp add: scalar_value_def)
  have r: "bindR (read_json ''jobs.json'' ex_listing) iter_json = Inr [?job]"
    by (simp add: read_json_def ex_listing_def loads_dumps [OF ok] iter_json_def del: dumps.simps asc_simps)
  note i = ex_id [of "[]"]
  have g: "get_item (asc ''state'') ?st = Inr succeeded" by (simp add: get_item_def)
  have w: "wait_loop (aw_http ex_agg) (aw_clock ex_agg) (aw_start ex_agg + real 5) [?job] 0 = Some (Inr (0, [?st]))"
    by (subst wait_loop.simps) (simp add: i ex_client g terminal_states_def del: asc_simps)
  have e: "row_entry (aw_float ex_agg) ex_metrics_row = Inr ([asc ''original-v1'', asc ''MovieLens'', asc ''random'', asc ''MF''], 1)"
    by (simp add: row_entry_def row_key_def get_default_def text_of_def get_item_def number_of_def ex_metrics_row_def)
  show ?thesis
    using r w by (simp add: aggregate_def collect_rows_def g ex_verified e api_def del: asc_simps dumps_indent.simps)
qed

theorem aggregate_verified_witness:
  "\<exists>ops rows. aggregate ex_agg ex_listing ''jobs.json'' ''out'' 5 = Some (ops, Inr ()) \<and> aw_start ex_agg + real 5 \<le> aw_clock ex_agg 0
    \<and> list_all2 (vouched ex_agg (aw_http ex_agg 1)) [J_Obj [(asc ''id'', J_Str (asc ''j'')), (asc ''state'', succeeded)]] rows"
proof -
  obtain ops where a: "aggregate ex_agg ex_listing ''jobs.json'' ''out'' 5 = Some (ops, Inr ())" using ex_aggregate by blast
  have c: "aw_start ex_agg + real 5 \<le> aw_clock ex_agg 0" by (simp add: ex_agg_def)
  have http: "aw_http ex_agg n = aw_http ex_agg 1" for n by (simp add: ex_agg_def)
  obtain v listed n states rows where v: "read_json ''jobs.json'' ex_listing = Inr v" "iter_json v = Inr listed"
    and st: "list_all2 (\<lambda>j st. bindR (id_of j) (client_get (aw_http ex_agg n)) = Inr st \<and> get_item (asc ''state'') st = Inr succeeded) listed states"
    and rows: "list_all2 (vouched ex_agg (aw_http ex_agg (Suc n))) states rows"
    using aggregate_verified [OF c, of ex_listing "''jobs.json''" "''out''"] a by auto
  have "json_ok (J_List [J_Obj [(asc ''id'', J_Str (asc ''j''))]])" by (simp add: scalar_value_def)
  then have "v = J_List [J_Obj [(asc ''id'', J_Str (asc ''j''))]]"
    using v(1) by (simp add: read_json_def ex_listing_def loads_dumps del: dumps.simps asc_simps)
  then have "states = [J_Obj [(asc ''id'', J_Str (asc ''j'')), (asc ''state'', succeeded)]]"
    using v(2) st ex_id [of "[]"] by (auto simp: iter_json_def list_all2_Cons1 ex_client simp del: asc_simps)
  with rows have "list_all2 (vouched ex_agg (aw_http ex_agg 1)) [J_Obj [(asc ''id'', J_Str (asc ''j'')), (asc ''state'', succeeded)]] rows"
    by (simp only: http [of "Suc n"])
  with a c show ?thesis by blast
qed

end
