(* ===== verification/Http_Server.thy ===== *)
theory Http_Server
  imports Store_Service Json "HOL-Library.Product_Lexorder"
begin

text \<open>
  The HTTP interface of the control plane (\<open>internal/api/http.go\<close>) with the store's read-only queries
  (\<open>List\<close> and \<open>ReadRows\<close> of \<open>internal/store/store.go\<close>, \<open>Workers\<close> of \<open>workers.go\<close>): routing, the decoding of job
  definitions, paging, and every answer as a JSON value. The order of an object's members is that of the Go
  struct or of \<open>jsonb\<close>. A request comes with its clean path as segments, its query parsed, and its body as the
  one JSON value it holds (\<open>None\<close> for any other text and for more than 4 MiB). The text of times and error
  messages, the numbers of the event sequence and the orders the queries leave to the database are parameters.
\<close>

section \<open>Text\<close>

text \<open>Go strings are bytes. \<open>encoding/json\<close> writes them as UTF-8 text with U+FFFD for every byte that is not part of a
  valid sequence, and reads a lone surrogate as U+FFFD.\<close>

definition follows :: "nat \<Rightarrow> bool" where
  "follows b \<longleftrightarrow> 128 \<le> b \<and> b < 192"

definition surrogate :: "nat \<Rightarrow> bool" where
  "surrogate c \<longleftrightarrow> 0xD800 \<le> c \<and> c \<le> 0xDFFF"

text \<open>The character that starts with byte \<open>a\<close>, and how many of the following bytes belong to it.\<close>

definition rune :: "nat \<Rightarrow> nat list \<Rightarrow> (nat \<times> nat) option" where
  "rune a r =
    (if a < 128 then Some (a, 0)
     else if 194 \<le> a \<and> a < 224 then
       (case r of b # _ \<Rightarrow> if follows b then Some ((a - 192) * 64 + (b - 128), 1) else None | _ \<Rightarrow> None)
     else if 224 \<le> a \<and> a < 240 then
       (case r of b # c # _ \<Rightarrow>
          let u = (a - 224) * 4096 + (b - 128) * 64 + (c - 128) in
          if follows b \<and> follows c \<and> 0x800 \<le> u \<and> \<not> surrogate u then Some (u, 2) else None
        | _ \<Rightarrow> None)
     else if 240 \<le> a \<and> a < 245 then
       (case r of b # c # d # _ \<Rightarrow>
          let u = (a - 240) * 262144 + (b - 128) * 4096 + (c - 128) * 64 + (d - 128) in
          if follows b \<and> follows c \<and> follows d \<and> 0x10000 \<le> u \<and> u \<le> 0x10FFFF then Some (u, 3) else None
        | _ \<Rightarrow> None)
     else None)"

function runes :: "nat list \<Rightarrow> pystr" where
  "runes [] = []"
| "runes (a # r) = (case rune a r of None \<Rightarrow> 0xFFFD # runes r | Some (c, k) \<Rightarrow> c # runes (drop k r))"
  by pat_completeness auto
termination
  by (relation "measure length") auto

definition go_text :: "string \<Rightarrow> pystr" where
  "go_text s = runes (map of_char s)"

definition go_string :: "pystr \<Rightarrow> string" where
  "go_string s = utf8 (map (\<lambda>c. if surrogate c then 0xFFFD else c) s)"

section \<open>Decoding a job definition\<close>

text \<open>\<open>encoding/json\<close> into the Go struct: members match field names up to case (two letters outside ASCII fold
  into it), \<open>null\<close> leaves a scalar or struct as it was and empties a slice or map, an unknown member or
  a value of another type is an error. A repeated member is decoded over what the earlier one left.\<close>

definition fold_rune :: "nat \<Rightarrow> nat" where
  "fold_rune c = (if 65 \<le> c \<and> c \<le> 90 then c + 32 else if c = 0x17F then 115 else if c = 0x212A then 107 else c)"

definition is_field :: "string \<Rightarrow> pystr \<Rightarrow> bool" where
  "is_field name k \<longleftrightarrow> map fold_rune k = asc name"

definition go_int :: "int \<Rightarrow> json \<Rightarrow> int option" where
  "go_int old v = (case v of J_Null \<Rightarrow> Some old | J_Int i \<Rightarrow> if - (2 ^ 63) \<le> i \<and> i < 2 ^ 63 then Some i else None | _ \<Rightarrow> None)"

definition go_str :: "string \<Rightarrow> json \<Rightarrow> string option" where
  "go_str old v = (case v of J_Null \<Rightarrow> Some old | J_Str s \<Rightarrow> Some (go_string s) | _ \<Rightarrow> None)"

fun go_strs :: "string list \<Rightarrow> json list \<Rightarrow> string list option" where
  "go_strs old [] = Some []"
| "go_strs old (v # vs) =
    Option.bind (go_str (case old of [] \<Rightarrow> '''' | s # _ \<Rightarrow> s) v) (\<lambda>s. map_option ((#) s) (go_strs (drop 1 old) vs))"

definition go_slice :: "string list \<Rightarrow> json \<Rightarrow> string list option" where
  "go_slice old v = (case v of J_Null \<Rightarrow> Some [] | J_List vs \<Rightarrow> go_strs old vs | _ \<Rightarrow> None)"

text \<open>A map is kept sorted by its keys, as it is marshalled.\<close>

fun put_key :: "string \<Rightarrow> string \<Rightarrow> (string \<times> string) list \<Rightarrow> (string \<times> string) list" where
  "put_key k v [] = [(k, v)]"
| "put_key k v ((k', v') # m) = (if k < k' then (k, v) # (k', v') # m else if k = k' then (k, v) # m else (k', v') # put_key k v m)"

fun go_entries :: "(string \<times> string) list \<Rightarrow> (pystr \<times> json) list \<Rightarrow> (string \<times> string) list option" where
  "go_entries m [] = Some m"
| "go_entries m ((k, v) # kvs) = Option.bind (go_str '''' v) (\<lambda>s. go_entries (put_key (go_string k) s m) kvs)"

definition go_map :: "(string \<times> string) list option \<Rightarrow> json \<Rightarrow> (string \<times> string) list option option" where
  "go_map old v = (case v of J_Null \<Rightarrow> Some None
     | J_Obj kvs \<Rightarrow> map_option Some (go_entries (case old of None \<Rightarrow> [] | Some m \<Rightarrow> m) kvs) | _ \<Rightarrow> None)"

definition go_resource :: "resources \<Rightarrow> pystr \<Rightarrow> json \<Rightarrow> resources option" where
  "go_resource r k v =
    (if is_field ''cpu'' k then map_option (\<lambda>i. r\<lparr>CPU := i\<rparr>) (go_int (CPU r) v)
     else if is_field ''memory_mb'' k then map_option (\<lambda>i. r\<lparr>MemoryMB := i\<rparr>) (go_int (MemoryMB r) v)
     else if is_field ''gpu'' k then map_option (\<lambda>i. r\<lparr>GPU := i\<rparr>) (go_int (GPU r) v)
     else None)"

fun go_members :: "('s \<Rightarrow> pystr \<Rightarrow> json \<Rightarrow> 's option) \<Rightarrow> 's \<Rightarrow> (pystr \<times> json) list \<Rightarrow> 's option" where
  "go_members f s [] = Some s"
| "go_members f s ((k, v) # kvs) = Option.bind (f s k v) (\<lambda>s. go_members f s kvs)"

definition go_struct :: "('s \<Rightarrow> pystr \<Rightarrow> json \<Rightarrow> 's option) \<Rightarrow> 's \<Rightarrow> json \<Rightarrow> 's option" where
  "go_struct f old v = (case v of J_Null \<Rightarrow> Some old | J_Obj kvs \<Rightarrow> go_members f old kvs | _ \<Rightarrow> None)"

definition go_job_field :: "job \<Rightarrow> pystr \<Rightarrow> json \<Rightarrow> job option" where
  "go_job_field j k v =
    (if is_field ''name'' k then map_option (\<lambda>s. j\<lparr>Name := s\<rparr>) (go_str (Name j) v)
     else if is_field ''command'' k then map_option (\<lambda>s. j\<lparr>Command := s\<rparr>) (go_slice (Command j) v)
     else if is_field ''environment'' k then map_option (\<lambda>s. j\<lparr>Environment := s\<rparr>) (go_map (Environment j) v)
     else if is_field ''resources'' k then map_option (\<lambda>s. j\<lparr>Resources := s\<rparr>) (go_struct go_resource (Resources j) v)
     else if is_field ''max_attempts'' k then map_option (\<lambda>s. j\<lparr>MaxAttempts := s\<rparr>) (go_int (MaxAttempts j) v)
     else if is_field ''timeout_seconds'' k then map_option (\<lambda>s. j\<lparr>TimeoutSeconds := s\<rparr>) (go_int (TimeoutSeconds j) v)
     else if is_field ''idempotency_key'' k then map_option (\<lambda>s. j\<lparr>IdempotencyKey := s\<rparr>) (go_str (IdempotencyKey j) v)
     else if is_field ''artifact_prefix'' k then map_option (\<lambda>s. j\<lparr>ArtifactPrefix := s\<rparr>) (go_str (ArtifactPrefix j) v)
     else None)"

definition zero_job :: job where
  "zero_job = \<lparr>Name = '''', Command = [], Environment = None, Resources = zero_res, MaxAttempts = 0, TimeoutSeconds = 0,
     IdempotencyKey = '''', ArtifactPrefix = ''''\<rparr>"

definition decode_job :: "json \<Rightarrow> job option" where
  "decode_job v = go_struct go_job_field zero_job v"

fun decode_all :: "json list \<Rightarrow> job list option" where
  "decode_all [] = Some []"
| "decode_all (v # vs) = Option.bind (decode_job v) (\<lambda>j. map_option ((#) j) (decode_all vs))"

definition decode_jobs :: "json \<Rightarrow> job list option" where
  "decode_jobs v = (case v of J_Null \<Rightarrow> Some [] | J_List vs \<Rightarrow> decode_all vs | _ \<Rightarrow> None)"


section \<open>Answers\<close>

record server =
  sv_ping :: bool
  sv_metrics :: "string option"
  sv_go_time :: "real \<Rightarrow> pystr"
  sv_pg_time :: "real \<Rightarrow> pystr"
  sv_message :: "store_error \<Rightarrow> pystr"
  sv_serial :: "nat \<Rightarrow> int"
  sv_by_time :: "artifact_row list \<Rightarrow> artifact_row list"
  sv_by_name :: "worker_row list \<Rightarrow> worker_row list"

definition obj :: "(string \<times> json) list \<Rightarrow> json" where
  "obj kvs = J_Obj (map (apfst asc) kvs)"

definition text_json :: "string \<Rightarrow> json" where
  "text_json s = J_Str (go_text s)"

fun or_null :: "('a \<Rightarrow> json) \<Rightarrow> 'a option \<Rightarrow> json" where
  "or_null f None = J_Null"
| "or_null f (Some a) = f a"

fun state_name :: "job_state \<Rightarrow> string" where
  "state_name QUEUED = ''QUEUED''"
| "state_name LEASED = ''LEASED''"
| "state_name RUNNING = ''RUNNING''"
| "state_name SUCCEEDED = ''SUCCEEDED''"
| "state_name FAILED = ''FAILED''"
| "state_name CANCELLED = ''CANCELLED''"

fun attempt_state_name :: "attempt_state \<Rightarrow> string" where
  "attempt_state_name A_LEASED = ''LEASED''"
| "attempt_state_name A_RUNNING = ''RUNNING''"
| "attempt_state_name A_SUCCEEDED = ''SUCCEEDED''"
| "attempt_state_name A_FAILED = ''FAILED''"
| "attempt_state_name A_EXPIRED = ''EXPIRED''"
| "attempt_state_name A_CANCELLED = ''CANCELLED''"

fun worker_state_name :: "worker_state \<Rightarrow> string" where
  "worker_state_name ACTIVE = ''ACTIVE''"
| "worker_state_name DRAINING = ''DRAINING''"

definition resources_json :: "resources \<Rightarrow> json" where
  "resources_json r = obj [(''cpu'', J_Int (CPU r)), (''memory_mb'', J_Int (MemoryMB r)), (''gpu'', J_Int (GPU r))]"

definition definition_json :: "job \<Rightarrow> json" where
  "definition_json j = obj [(''name'', text_json (Name j)), (''command'', J_List (map text_json (Command j))),
     (''environment'', or_null (\<lambda>m. J_Obj (map (\<lambda>(k, v). (go_text k, text_json v)) m)) (Environment j)),
     (''resources'', resources_json (Resources j)), (''max_attempts'', J_Int (MaxAttempts j)),
     (''timeout_seconds'', J_Int (TimeoutSeconds j)), (''idempotency_key'', text_json (IdempotencyKey j)),
     (''artifact_prefix'', text_json (ArtifactPrefix j))]"

definition job_json :: "server \<Rightarrow> job_row \<Rightarrow> json" where
  "job_json sv j = obj [(''id'', text_json (j_id j)), (''definition'', definition_json (j_def j)), (''state'', text_json (state_name (j_state j))),
     (''max_attempts'', J_Int (j_max j)), (''created_at'', J_Str (sv_go_time sv (j_created j))), (''updated_at'', J_Str (sv_go_time sv (j_updated j)))]"

text \<open>\<open>to_jsonb(a)-'lease_token'\<close>.\<close>

definition attempt_json :: "server \<Rightarrow> attempt_row \<Rightarrow> json" where
  "attempt_json sv a = obj [(''id'', text_json (a_id a)), (''state'', text_json (attempt_state_name (a_state a))), (''job_id'', text_json (a_job a)),
     (''exit_code'', or_null J_Int (a_exit a)), (''worker_id'', text_json (a_worker a)),
     (''created_at'', J_Str (sv_pg_time sv (a_created a))), (''started_at'', or_null (J_Str \<circ> sv_pg_time sv) (a_started a)),
     (''deadline_at'', J_Str (sv_pg_time sv (a_deadline a))), (''finished_at'', or_null (J_Str \<circ> sv_pg_time sv) (a_finished a)),
     (''attempt_number'', J_Int (a_number a)), (''failure_reason'', or_null text_json (a_reason a)),
     (''lease_expires_at'', J_Str (sv_pg_time sv (a_expires a)))]"

definition artifact_json :: "server \<Rightarrow> artifact_row \<Rightarrow> json" where
  "artifact_json sv x = obj [(''id'', text_json (art_id x)), (''kind'', text_json (Kind (art x))), (''job_id'', text_json (art_job x)),
     (''checksum'', text_json (Checksum (art x))), (''attempt_id'', text_json (art_attempt x)), (''created_at'', J_Str (sv_pg_time sv (art_created x))),
     (''object_key'', text_json (ObjectKey (art x))), (''size_bytes'', J_Int (SizeBytes (art x))), (''content_type'', text_json (ContentType (art x)))]"

text \<open>A nil list of log lines is shown like an empty one.\<close>

fun payload_json :: "event_payload \<Rightarrow> json" where
  "payload_json EP_Submitted = obj []"
| "payload_json (EP_Action rid) = obj [(''request_id'', text_json rid)]"
| "payload_json (EP_Leased rid wid n) = obj [(''worker_id'', text_json wid), (''request_id'', text_json rid), (''attempt_number'', J_Int n)]"
| "payload_json (EP_Attempt rid wid logs reason code) = obj [(''logs'', J_List (map text_json logs)), (''reason'', text_json reason),
     (''exit_code'', J_Int code), (''worker_id'', text_json wid), (''request_id'', text_json rid)]"
| "payload_json EP_Expired = obj [(''reason'', text_json ''lease or attempt deadline expired'')]"

definition event_json :: "server \<Rightarrow> int \<times> event_row \<Rightarrow> json" where
  "event_json sv = (\<lambda>(i, x). obj [(''id'', J_Int i), (''job_id'', text_json (e_job x)), (''payload'', payload_json (e_payload x)),
     (''attempt_id'', or_null text_json (e_attempt x)), (''created_at'', J_Str (sv_pg_time sv (e_created x))), (''event_type'', text_json (e_type x))])"

text \<open>\<open>jsonb\<close> keeps the shorter keys first.\<close>

definition resources_jsonb :: "resources \<Rightarrow> json" where
  "resources_jsonb r = obj [(''cpu'', J_Int (CPU r)), (''gpu'', J_Int (GPU r)), (''memory_mb'', J_Int (MemoryMB r))]"

definition worker_json :: "server \<Rightarrow> db \<Rightarrow> worker_row \<Rightarrow> json" where
  "worker_json sv d w = obj [(''id'', text_json (w_id w)), (''state'', text_json (worker_state_name (w_state w))), (''hostname'', text_json (w_hostname w)),
     (''registered_at'', J_Str (sv_pg_time sv (w_registered w))), (''total_resources'', resources_jsonb (w_res w)),
     (''last_heartbeat_at'', J_Str (sv_pg_time sv (w_heartbeat w))), (''available_resources'', resources_jsonb (sub_res (w_res w) (used (w_id w) d)))]"

definition checkpoint_json :: "artifact \<Rightarrow> json" where
  "checkpoint_json a = obj [(''object_key'', text_json (ObjectKey a)), (''content_type'', text_json (ContentType a)), (''size_bytes'', J_Int (SizeBytes a)),
     (''checksum'', text_json (Checksum a)), (''kind'', text_json (Kind a))]"

text \<open>What a receipt stores and a repeated request is answered with; a lease carries its token.\<close>

fun response_json :: "server \<Rightarrow> response \<Rightarrow> json" where
  "response_json sv R_Registered = obj [(''registered'', J_Bool True)]"
| "response_json sv R_Released = obj [(''released'', J_Bool True)]"
| "response_json sv R_Alive = obj [(''alive'', J_Bool True)]"
| "response_json sv R_Idle = obj [(''idle'', J_Bool True)]"
| "response_json sv (R_Lease l) = obj ([(''job'', job_json sv (l_job l)), (''attempt_id'', text_json (l_attempt l)), (''attempt_number'', J_Int (l_number l)),
     (''lease_token'', text_json (l_token l)), (''lease_expires_at'', J_Str (sv_go_time sv (l_expires l))), (''server_time'', J_Str (sv_go_time sv (l_server l)))]
     @ (case l_checkpoint l of None \<Rightarrow> [] | Some c \<Rightarrow> [(''checkpoint'', checkpoint_json c)]))"
| "response_json sv (R_Heartbeat expires now) = obj [(''lease_expires_at'', J_Str (sv_go_time sv expires)), (''server_time'', J_Str (sv_go_time sv now))]"
| "response_json sv R_Accepted = obj [(''accepted'', J_Bool True)]"
| "response_json sv (R_Job j) = job_json sv j"


section \<open>Queries\<close>

text \<open>\<open>LIMIT\<close> and \<open>OFFSET\<close>.\<close>

definition window :: "int \<Rightarrow> int \<Rightarrow> 'a list \<Rightarrow> 'a list" where
  "window limit offset rows = take (nat limit) (drop (nat offset) rows)"

definition Get :: "db \<Rightarrow> string \<Rightarrow> store_error + job_row" where
  "Get d i = (case get_job (uuid_value i) d of None \<Rightarrow> Inl ErrNotFound | Some j \<Rightarrow> Inr j)"

definition List_jobs :: "db \<Rightarrow> int \<Rightarrow> int \<Rightarrow> job_row list" where
  "List_jobs d limit offset = window limit offset (sort_key (\<lambda>j. (j_created j, j_id j)) (jobs d))"

datatype row_kind = Attempts_of_job | Events_of_job | Artifacts_of_job

fun kind_name :: "row_kind \<Rightarrow> string" where
  "kind_name Attempts_of_job = ''attempts''"
| "kind_name Events_of_job = ''events''"
| "kind_name Artifacts_of_job = ''artifacts''"

fun all_rows :: "server \<Rightarrow> db \<Rightarrow> row_kind \<Rightarrow> string \<Rightarrow> json list" where
  "all_rows sv d Attempts_of_job i = map (attempt_json sv) (sort_key a_number (attempts_of (uuid_value i) d))"
| "all_rows sv d Events_of_job i = map (event_json sv)
     (filter (\<lambda>(n, x). e_job x = uuid_value i) (zip (map (sv_serial sv) [0..<length (events d)]) (events d)))"
| "all_rows sv d Artifacts_of_job i = map (artifact_json sv) (sv_by_time sv (filter (\<lambda>x. art_job x = uuid_value i) (artifacts d)))"

definition ReadRows :: "server \<Rightarrow> db \<Rightarrow> row_kind \<Rightarrow> string \<Rightarrow> int \<Rightarrow> int \<Rightarrow> json list" where
  "ReadRows sv d kind i limit offset = window limit offset (all_rows sv d kind i)"

definition Workers :: "server \<Rightarrow> db \<Rightarrow> json list" where
  "Workers sv d = map (worker_json sv d) (take 1000 (sv_by_name sv (workers d)))"

section \<open>Requests\<close>

record http_in =
  in_method :: string
  in_path :: "string list"
  in_query :: "(string \<times> string) list"
  in_body :: "json option"
  in_request_id :: string

datatype http_out = Json_out nat json | Text_out nat string

fun status_of_out :: "http_out \<Rightarrow> nat" where
  "status_of_out (Json_out n v) = n"
| "status_of_out (Text_out n t) = n"

fun status_code :: "store_error \<Rightarrow> nat" where
  "status_code ErrInvalid = 400"
| "status_code ErrNotFound = 404"
| "status_code ErrConflict = 409"
| "status_code ErrDB = 500"

definition reply :: "server \<Rightarrow> store_error + json \<Rightarrow> http_out" where
  "reply sv r = (case r of
     Inl e \<Rightarrow> Json_out (status_code e) (obj [(''error'', J_Str (if e = ErrDB then asc ''internal error'' else sv_message sv e))])
   | Inr v \<Rightarrow> Json_out 200 v)"

text \<open>\<open>r.URL.Query().Get\<close> and \<open>strconv.Atoi\<close>.\<close>

definition query_get :: "(string \<times> string) list \<Rightarrow> string \<Rightarrow> string" where
  "query_get q k = (case map_of q k of None \<Rightarrow> '''' | Some v \<Rightarrow> v)"

definition atoi_nat :: "string \<Rightarrow> int option" where
  "atoi_nat s = (if s \<noteq> '''' \<and> list_all is_digit s then Some (int (digits_val (asc s))) else None)"

definition atoi :: "string \<Rightarrow> int option" where
  "atoi s = Option.bind (case s of [] \<Rightarrow> None
       | c # t \<Rightarrow> if c = CHR ''-'' then map_option uminus (atoi_nat t) else if c = CHR ''+'' then atoi_nat t else atoi_nat s)
     (\<lambda>i. if - (2 ^ 63) \<le> i \<and> i < 2 ^ 63 then Some i else None)"

definition int_param :: "(string \<times> string) list \<Rightarrow> string \<Rightarrow> int \<Rightarrow> store_error + int" where
  "int_param q k missing = (let v = query_get q k in
     if v = '''' then Inr missing else case atoi v of None \<Rightarrow> Inl ErrInvalid | Some i \<Rightarrow> Inr i)"

definition page :: "(string \<times> string) list \<Rightarrow> store_error + int \<times> int" where
  "page q = bindR (int_param q ''limit'' 100) (\<lambda>limit. bindR (int_param q ''offset'' 0) (\<lambda>offset.
     if limit < 1 \<or> limit > 1000 \<or> offset < 0 then Inl ErrInvalid else Inr (limit, offset)))"

section \<open>Routes\<close>

datatype route = Health | Ready | Metrics string | Submit_One | Submit_Batch | List_Jobs | Get_Job string | Job_Rows row_kind string
  | Job_Action action string | List_Workers

text \<open>The patterns of the mux that a path matches.\<close>

definition patterns :: "string option \<Rightarrow> string list \<Rightarrow> (string \<times> route) list" where
  "patterns metrics p = (case p of
     [a] \<Rightarrow> if a = ''healthz'' then [(''GET'', Health)] else if a = ''readyz'' then [(''GET'', Ready)]
            else if a = ''metrics'' then (case metrics of None \<Rightarrow> [] | Some t \<Rightarrow> [(''GET'', Metrics t)]) else []
   | [v, a] \<Rightarrow> if v = ''v1'' \<and> a = ''jobs'' then [(''POST'', Submit_One), (''GET'', List_Jobs)]
               else if v = ''v1'' \<and> a = ''workers'' then [(''GET'', List_Workers)] else []
   | [v, a, i] \<Rightarrow> if v = ''v1'' \<and> a = ''jobs'' then (if i = ''batch'' then [(''POST'', Submit_Batch)] else []) @ [(''GET'', Get_Job i)] else []
   | [v, a, i, k] \<Rightarrow> if v \<noteq> ''v1'' \<or> a \<noteq> ''jobs'' then []
       else if k = ''attempts'' then [(''GET'', Job_Rows Attempts_of_job i)] else if k = ''events'' then [(''GET'', Job_Rows Events_of_job i)]
       else if k = ''artifacts'' then [(''GET'', Job_Rows Artifacts_of_job i)]
       else if k = ''cancel'' then [(''POST'', Job_Action Cancel i)] else if k = ''retry'' then [(''POST'', Job_Action Retry i)] else []
   | _ \<Rightarrow> [])"

text \<open>A pattern for \<open>GET\<close> also takes \<open>HEAD\<close>.\<close>

definition takes :: "string \<Rightarrow> string \<Rightarrow> bool" where
  "takes pattern meth \<longleftrightarrow> meth = pattern \<or> pattern = ''GET'' \<and> meth = ''HEAD''"

section \<open>Handlers\<close>

text \<open>A transaction's answer and the database it leaves.\<close>

definition answered :: "server \<Rightarrow> ('r \<Rightarrow> json) \<Rightarrow> 'r tx \<Rightarrow> db \<Rightarrow> http_out \<times> db" where
  "answered sv enc t d = (case t d of Inl e \<Rightarrow> (reply sv (Inl e), d) | Inr (r, d') \<Rightarrow> (reply sv (Inr (enc r)), d'))"

definition post_job :: "server \<Rightarrow> txenv \<Rightarrow> json option \<Rightarrow> db \<Rightarrow> http_out \<times> db" where
  "post_job sv e b d = (case Option.bind b decode_job of
     None \<Rightarrow> (reply sv (Inl ErrInvalid), d)
   | Some j \<Rightarrow> answered sv (\<lambda>rows. job_json sv (hd rows)) (Submit e [j]) d)"

definition post_batch :: "server \<Rightarrow> txenv \<Rightarrow> json option \<Rightarrow> db \<Rightarrow> http_out \<times> db" where
  "post_batch sv e b d = (case Option.bind b decode_jobs of
     None \<Rightarrow> (reply sv (Inl ErrInvalid), d)
   | Some js \<Rightarrow> answered sv (\<lambda>rows. J_List (map (job_json sv) rows)) (Submit e js) d)"

definition get_jobs :: "server \<Rightarrow> (string \<times> string) list \<Rightarrow> db \<Rightarrow> store_error + json" where
  "get_jobs sv q d = bindR (page q) (\<lambda>(limit, offset). Inr (J_List (map (job_json sv) (List_jobs d limit offset))))"

definition get_one :: "server \<Rightarrow> string \<Rightarrow> db \<Rightarrow> store_error + json" where
  "get_one sv i d = (if \<not> idPattern i then Inl ErrInvalid else bindR (Get d i) (\<lambda>j. Inr (job_json sv j)))"

definition get_rows :: "server \<Rightarrow> row_kind \<Rightarrow> string \<Rightarrow> (string \<times> string) list \<Rightarrow> db \<Rightarrow> store_error + json" where
  "get_rows sv kind i q d =
    (if \<not> idPattern i then Inl ErrInvalid
     else bindR (page q) (\<lambda>(limit, offset). bindR (Get d i) (\<lambda>_. Inr (J_List (ReadRows sv d kind i limit offset)))))"

fun handle_route :: "server \<Rightarrow> txenv \<Rightarrow> http_in \<Rightarrow> route \<Rightarrow> db \<Rightarrow> http_out \<times> db" where
  "handle_route sv e rq Health d = (reply sv (Inr (obj [(''status'', text_json ''ok'')])), d)"
| "handle_route sv e rq Ready d = (if sv_ping sv then reply sv (Inr (obj [(''status'', text_json ''ready'')])) else Text_out 503 ''database unavailable'', d)"
| "handle_route sv e rq (Metrics t) d = (Text_out 200 t, d)"
| "handle_route sv e rq Submit_One d = post_job sv e (in_body rq) d"
| "handle_route sv e rq Submit_Batch d = post_batch sv e (in_body rq) d"
| "handle_route sv e rq List_Jobs d = (reply sv (get_jobs sv (in_query rq) d), d)"
| "handle_route sv e rq (Get_Job i) d = (reply sv (get_one sv i d), d)"
| "handle_route sv e rq (Job_Rows kind i) d = (reply sv (get_rows sv kind i (in_query rq) d), d)"
| "handle_route sv e rq (Job_Action act i) d =
    (if \<not> idPattern i then (reply sv (Inl ErrInvalid), d) else answered sv (response_json sv) (Action e i act (in_request_id rq)) d)"
| "handle_route sv e rq List_Workers d = (reply sv (Inr (J_List (Workers sv d))), d)"

definition Handler :: "server \<Rightarrow> txenv \<Rightarrow> http_in \<Rightarrow> db \<Rightarrow> http_out \<times> db" where
  "Handler sv e rq d =
    (let ps = patterns (sv_metrics sv) (in_path rq) in
     case find (\<lambda>(m, r). takes m (in_method rq)) ps of
       Some (m, r) \<Rightarrow> handle_route sv e rq r d
     | None \<Rightarrow> (if ps = [] then Text_out 404 ''404 page not found'' else Text_out 405 ''Method Not Allowed'', d))"


section \<open>What a request may change\<close>

lemma reply_status: "status_of_out (reply sv r) = (case r of Inl e \<Rightarrow> status_code e | Inr v \<Rightarrow> 200)"
  by (cases r) (simp_all add: reply_def)

lemma status_code_values: "status_code e \<in> {400, 404, 409, 500}"
  by (cases e) simp_all

lemma status_code_error: "status_code e \<noteq> 200"
  by (cases e) simp_all

lemma answered_committed:
  "snd (answered sv enc t d) = committed t d"
  "status_of_out (fst (answered sv enc t d)) \<noteq> 200 \<Longrightarrow> snd (answered sv enc t d) = d"
  "status_of_out (fst (answered sv enc t d)) \<in> {200, 400, 404, 409, 500}"
  using status_code_values by (auto simp: answered_def committed_def reply_status split: sum.splits)

text \<open>What a route that writes does to the database: one transaction of the store, or nothing.\<close>

definition writes :: "txenv \<Rightarrow> db \<Rightarrow> http_out \<times> db \<Rightarrow> bool" where
  "writes e d r \<longleftrightarrow> (snd r = d \<or> (\<exists>p. op_env p = e \<and> snd r = exec p d)) \<and> (status_of_out (fst r) \<noteq> 200 \<longrightarrow> snd r = d)
     \<and> status_of_out (fst r) \<in> {200, 400, 404, 409, 500}"

lemma writes_answered: "op_env p = e \<Longrightarrow> exec p d = committed t d \<Longrightarrow> writes e d (answered sv enc t d)"
  using answered_committed [of sv enc t d] by (auto simp: writes_def)

lemma writes_reply: "writes e d (reply sv (Inl err), d)"
  using status_code_values [of err] by (simp add: writes_def reply_status)

fun writing :: "route \<Rightarrow> bool" where
  "writing Submit_One = True"
| "writing Submit_Batch = True"
| "writing (Job_Action act i) = True"
| "writing _ = False"

lemma route_writes:
  assumes "writing route"
  shows "writes e d (handle_route sv e rq route d)"
proof -
  have submit: "writes e d (answered sv enc (Submit e js) d)" for enc js by (rule writes_answered [of "Op_Submit e js"]) simp_all
  have act: "writes e d (answered sv enc (Action e i act rid) d)" for enc i act rid by (rule writes_answered [of "Op_Action e i act rid"]) simp_all
  show ?thesis using assms submit act writes_reply by (cases route) (auto simp: post_job_def post_batch_def split: option.splits)
qed

lemma route_reads:
  assumes "\<not> writing route"
  shows "snd (handle_route sv e rq route d) = d" "status_of_out (fst (handle_route sv e rq route d)) \<in> {200, 400, 404, 409, 500, 503}"
  using assms status_code_values by (cases route; auto simp: reply_status split: sum.splits)+

lemma patterns_methods: "list_all (\<lambda>(m, r). (m = ''POST'') = writing r) (patterns metrics p)"
  by (simp add: patterns_def split: list.split option.split)

lemma find_pattern:
  assumes "find (\<lambda>(m, r). takes m meth) (patterns metrics p) = Some (m, route)"
  shows "takes m meth" "m = ''POST'' \<longleftrightarrow> writing route"
proof -
  from assms have m: "takes m meth" "(m, route) \<in> set (patterns metrics p)" by (auto simp: find_Some_iff in_set_conv_nth)
  show "takes m meth" by (rule m(1))
  show "m = ''POST'' \<longleftrightarrow> writing route" using patterns_methods [of metrics p] m(2) by (auto simp: list_all_iff)
qed


lemma Handler_cases:
  obtains "fst (Handler sv e rq d) = Text_out 404 ''404 page not found'' \<or> fst (Handler sv e rq d) = Text_out 405 ''Method Not Allowed''"
    "snd (Handler sv e rq d) = d"
  | m route where "takes m (in_method rq)" "m = ''POST'' \<longleftrightarrow> writing route" "Handler sv e rq d = handle_route sv e rq route d"
proof (cases "find (\<lambda>(m, r). takes m (in_method rq)) (patterns (sv_metrics sv) (in_path rq))")
  case None
  then show ?thesis by (intro that(1)) (simp_all add: Handler_def)
next
  case (Some mr)
  obtain m route where mr: "mr = (m, route)" by (cases mr)
  show ?thesis by (rule that(2) [OF find_pattern [OF Some [unfolded mr]]]) (simp add: Handler_def Some mr)
qed



section \<open>Lease tokens stay inside\<close>

text \<open>Replacing every lease token in the database, in the attempts and in the stored replies.\<close>

fun retoken_response :: "(string \<Rightarrow> string) \<Rightarrow> response \<Rightarrow> response" where
  "retoken_response f (R_Lease l) = R_Lease (l\<lparr>l_token := f (l_token l)\<rparr>)"
| "retoken_response f r = r"

definition retoken_attempt :: "(string \<Rightarrow> string) \<Rightarrow> attempt_row \<Rightarrow> attempt_row" where
  "retoken_attempt f a = a\<lparr>a_token := f (a_token a)\<rparr>"

definition retoken_request :: "(string \<Rightarrow> string) \<Rightarrow> request_row \<Rightarrow> request_row" where
  "retoken_request f q = q\<lparr>rq_response := map_option (retoken_response f) (rq_response q)\<rparr>"

definition retoken :: "(string \<Rightarrow> string) \<Rightarrow> db \<Rightarrow> db" where
  "retoken f d = d\<lparr>attempts := map (retoken_attempt f) (attempts d), requests := map (retoken_request f) (requests d)\<rparr>"

text \<open>A transaction that works the same whatever the tokens are.\<close>

definition blind :: "(string \<Rightarrow> string) \<Rightarrow> 'r tx \<Rightarrow> db \<Rightarrow> bool" where
  "blind f t d \<longleftrightarrow> t (retoken f d) = map_sum id (apsnd (retoken f)) (t d)"

lemma retoken_sel [simp]: "jobs (retoken f d) = jobs d" "workers (retoken f d) = workers d" "artifacts (retoken f d) = artifacts d"
    "events (retoken f d) = events d" "attempts (retoken f d) = map (retoken_attempt f) (attempts d)"
    "requests (retoken f d) = map (retoken_request f) (requests d)"
  by (simp_all add: retoken_def)

lemma retoken_attempt_sel [simp]: "a_id (retoken_attempt f a) = a_id a" "a_job (retoken_attempt f a) = a_job a" "a_number (retoken_attempt f a) = a_number a"
    "a_worker (retoken_attempt f a) = a_worker a" "a_state (retoken_attempt f a) = a_state a"
  by (simp_all add: retoken_attempt_def)

lemma get_job_retoken [simp]: "get_job i (retoken f d) = get_job i d"
  by (simp add: get_job_def)

lemma retoken_updates [simp]:
  "retoken f d\<lparr>jobs := js\<rparr> = retoken f (d\<lparr>jobs := js\<rparr>)" "set_job i g (retoken f d) = retoken f (set_job i g d)"
  "event jid aid kind p now (retoken f d) = retoken f (event jid aid kind p now d)"
  by (simp_all add: retoken_def set_job_def event_def)

lemma update_where_map: "(\<And>x. x \<in> set xs \<Longrightarrow> p (g x) = p x) \<Longrightarrow> (\<And>x. x \<in> set xs \<Longrightarrow> p x \<Longrightarrow> u (g x) = g (v x)) \<Longrightarrow>
    update_where p u (map g xs) = map g (update_where p v xs)"
  by (induction xs) (auto simp: update_where_def)

lemma lookup_by_map: "(\<And>x. x \<in> set xs \<Longrightarrow> key (g x) = key x) \<Longrightarrow> lookup_by key k (map g xs) = map_option g (lookup_by key k xs)"
  by (induction xs) (auto simp: lookup_by_def)

lemma blind_submit_one: "blind f (submit_one i now j) d"
proof -
  have ins: "insert_job i j now (retoken f d) = map_sum id (apsnd (retoken f)) (insert_job i j now d)" by (simp add: insert_job_def)
  have jobs: "jobs (retoken f d1) = jobs d1" for d1 by simp
  show ?thesis unfolding blind_def submit_one_def ins
    by (cases "insert_job i j now d") (auto simp: jobs split: option.splits)
qed

lemma blind_submit_loop: "blind f (submit_loop e n js) d"
proof (induction js arbitrary: n d)
  case (Cons j js n d)
  show ?case
  proof (cases "submit_one (Ids e n) (Clk e n) j d")
    case (Inl err)
    then show ?thesis using blind_submit_one [of f "Ids e n" "Clk e n" j d] by (simp add: blind_def)
  next
    case (Inr rd)
    obtain row d1 where rd: "rd = (row, d1)" by (cases rd)
    have "submit_one (Ids e n) (Clk e n) j (retoken f d) = Inr (row, retoken f d1)"
      using blind_submit_one [of f "Ids e n" "Clk e n" j d] Inr rd by (simp add: blind_def)
    then show ?thesis using Cons [of "Suc n" d1] Inr rd by (cases "submit_loop e (Suc n) js d1") (auto simp: blind_def)
  qed
qed (simp add: blind_def)

lemma blind_Submit: "blind f (Submit e js) d"
  using blind_submit_loop [of f e 0 js d] by (auto simp: blind_def Submit_def)


lemma set_attempts_retoken:
  "(\<And>a. p (retoken_attempt f a) = p a) \<Longrightarrow> (\<And>a. g (retoken_attempt f a) = retoken_attempt f (g a)) \<Longrightarrow>
    set_attempts p g (retoken f d) = retoken f (set_attempts p g d)"
  by (simp add: set_attempts_def retoken_def update_where_map)

lemma blind_finish_action: "blind f (finish_action e i act rid st mx) d"
  by (simp add: blind_def finish_action_def Let_def split: option.splits)

lemma blind_action_tx: "blind f (action_tx e i act rid) d"
proof -
  have "set_attempts (\<lambda>a. a_job a = i \<and> active (a_state a)) (\<lambda>a. a\<lparr>a_state := A_CANCELLED, a_finished := Some (Clk e 0), a_reason := Some ''cancelled''\<rparr>) (retoken f d)
      = retoken f (set_attempts (\<lambda>a. a_job a = i \<and> active (a_state a)) (\<lambda>a. a\<lparr>a_state := A_CANCELLED, a_finished := Some (Clk e 0), a_reason := Some ''cancelled''\<rparr>) d)"
    by (rule set_attempts_retoken) (simp_all add: retoken_attempt_def)
  then show ?thesis
    using blind_finish_action [of f e i act rid] by (auto simp: blind_def action_tx_def split: option.splits action.splits)
qed

lemma retoken_request_sel [simp]: "receipt_key (retoken_request f q) = receipt_key q" "rq_hash (retoken_request f q) = rq_hash q"
    "rq_response (retoken_request f q) = map_option (retoken_response f) (rq_response q)"
  by (simp_all add: retoken_request_def receipt_key_def)

lemma retoken_requests: "retoken f d\<lparr>requests := map (retoken_request f) qs\<rparr> = retoken f (d\<lparr>requests := qs\<rparr>)"
  by (simp add: retoken_def)

definition with_receipt :: "string \<Rightarrow> string \<Rightarrow> string \<Rightarrow> db \<Rightarrow> db" where
  "with_receipt scope i h d = (if (scope, i) \<in> receipt_key ` set (requests d) then d
     else d\<lparr>requests := requests d @ [\<lparr>rq_scope = scope, rq_id = i, rq_hash = h, rq_response = None\<rparr>]\<rparr>)"

lemma with_receipt_retoken: "with_receipt scope i h (retoken f d) = retoken f (with_receipt scope i h d)"
  by (simp add: with_receipt_def image_image retoken_def retoken_request_def receipt_key_def)

lemma Mutate_eq: "Mutate scope i h fn d =
    (if i = [] \<or> length i > 256 then Inl ErrInvalid
     else case lookup_by receipt_key (scope, i) (requests (with_receipt scope i h d)) of
       None \<Rightarrow> Inl ErrDB
     | Some q \<Rightarrow> if rq_hash q \<noteq> h then Inl ErrConflict
         else (case rq_response q of Some r \<Rightarrow> Inr (r, with_receipt scope i h d)
           | None \<Rightarrow> bindR (fn (with_receipt scope i h d)) (\<lambda>(r, d). Inr (r, d\<lparr>requests :=
               update_where (\<lambda>q. receipt_key q = (scope, i)) (\<lambda>q. q\<lparr>rq_response := Some r\<rparr>) (requests d)\<rparr>))))"
  unfolding Mutate_def with_receipt_def Let_def by (rule refl)

lemma blind_Mutate:
  assumes fn: "\<And>d. blind f fn d" "\<And>d r d'. fn d = Inr (r, d') \<Longrightarrow> retoken_response f r = r"
    and old: "\<And>q r. q \<in> set (requests d) \<Longrightarrow> receipt_key q = (scope, i) \<Longrightarrow> rq_response q = Some r \<Longrightarrow> retoken_response f r = r"
  shows "blind f (Mutate scope i h fn) d"
proof -
  let ?d = "with_receipt scope i h d"
  have look: "lookup_by receipt_key (scope, i) (map (retoken_request f) (requests ?d)) = map_option (retoken_request f) (lookup_by receipt_key (scope, i) (requests ?d))"
    by (simp add: lookup_by_map)
  have fresh: "retoken_response f r = r" if "lookup_by receipt_key (scope, i) (requests ?d) = Some q" "rq_response q = Some r" for q r
    using lookup_by_Some [OF that(1)] that(2) old [of q r] by (auto simp: with_receipt_def split: if_splits)
  have upd: "retoken f d1\<lparr>requests := update_where (\<lambda>q. receipt_key q = (scope, i)) (\<lambda>q. q\<lparr>rq_response := Some r\<rparr>) (map (retoken_request f) (requests d1))\<rparr>
      = retoken f (d1\<lparr>requests := update_where (\<lambda>q. receipt_key q = (scope, i)) (\<lambda>q. q\<lparr>rq_response := Some r\<rparr>) (requests d1)\<rparr>)"
    if "retoken_response f r = r" for d1 r
    unfolding retoken_requests [symmetric]
    by (subst update_where_map [where v = "\<lambda>q. q\<lparr>rq_response := Some r\<rparr>"]) (simp_all add: retoken_request_def receipt_key_def that)
  show ?thesis
  proof (cases "lookup_by receipt_key (scope, i) (requests ?d)")
    case None
    then show ?thesis by (simp add: blind_def Mutate_eq with_receipt_retoken look)
  next
    case (Some q)
    show ?thesis
    proof (cases "rq_response q")
      case None
      then show ?thesis using Some fn(1) [of ?d] fn(2) [of ?d] upd
        by (cases "fn ?d") (auto simp: blind_def Mutate_eq with_receipt_retoken look)
    next
      case (Some r)
      with \<open>lookup_by _ _ _ = Some q\<close> fresh [OF \<open>lookup_by _ _ _ = Some q\<close> Some]
      show ?thesis by (simp add: blind_def Mutate_eq with_receipt_retoken look)
    qed
  qed
qed


text \<open>The receipts of client actions hold job rows, never a lease.\<close>

definition job_scope :: "string \<Rightarrow> bool" where
  "job_scope s \<longleftrightarrow> s = ''job:cancel'' \<or> s = ''job:retry''"

definition job_receipts :: "db \<Rightarrow> bool" where
  "job_receipts d \<longleftrightarrow> (\<forall>q \<in> set (requests d). job_scope (rq_scope q) \<longrightarrow> (\<forall>r. rq_response q = Some r \<longrightarrow> (\<exists>j. r = R_Job j)))"

lemma job_receipts_update:
  assumes "\<And>q. q \<in> set qs \<Longrightarrow> job_scope (rq_scope q) \<Longrightarrow> \<forall>r. rq_response q = Some r \<longrightarrow> (\<exists>j. r = R_Job j)"
    and "job_scope scope \<Longrightarrow> \<exists>j. r = R_Job j"
    and "q \<in> set (update_where (\<lambda>q. receipt_key q = (scope, i)) (\<lambda>q. q\<lparr>rq_response := Some r\<rparr>) qs)" "job_scope (rq_scope q)" "rq_response q = Some r'"
  shows "\<exists>j. r' = R_Job j"
proof -
  from assms(3) obtain q0 where "q0 \<in> set qs" "q = q0 \<or> receipt_key q0 = (scope, i) \<and> q = q0\<lparr>rq_response := Some r\<rparr>"
    by (auto simp: set_update_where)
  with assms(1) [of q0] assms(2,4,5) show ?thesis by (auto simp: receipt_key_def)
qed

lemma Mutate_receipts:
  assumes "job_receipts d" "Mutate scope i h fn d = Inr (r, d')"
    and fn: "\<And>d r d'. fn d = Inr (r, d') \<Longrightarrow> requests d' = requests d \<and> (job_scope scope \<longrightarrow> (\<exists>j. r = R_Job j))"
  shows "job_receipts d'"
proof -
  let ?d = "with_receipt scope i h d"
  have d: "job_receipts ?d" using assms(1) by (auto simp: with_receipt_def job_receipts_def)
  from assms(2) consider "d' = ?d"
    | d1 where "fn ?d = Inr (r, d1)" "d' = d1\<lparr>requests := update_where (\<lambda>q. receipt_key q = (scope, i)) (\<lambda>q. q\<lparr>rq_response := Some r\<rparr>) (requests d1)\<rparr>"
    by (auto simp: Mutate_eq bindR_Inr_iff split: option.splits if_splits)
  then show ?thesis
  proof cases
    case 2
    with fn [OF 2(1)] d show ?thesis unfolding job_receipts_def 2(2) by (auto intro: job_receipts_update)
  qed (simp add: d)
qed

lemma action_tx_row: "action_tx e i act rid d = Inr (r, d') \<Longrightarrow> \<exists>j. r = R_Job j"
  by (auto simp: action_tx_def finish_action_def Let_def split: option.splits action.splits if_splits)

lemma exec_receipts:
  assumes "job_receipts d"
  shows "job_receipts (exec p d)"
proof (cases p)
  case (Op_Submit e js)
  have "requests (exec p d) = requests d" by (auto simp: Op_Submit committed_def Submit_def dest: requests_submit_loop split: sum.splits if_splits)
  with assms show ?thesis by (simp add: job_receipts_def)
next
  case (Op_Action e i act rid)
  have "job_receipts d'" if "Action e i act rid d = Inr (r, d')" for r d'
    using assms that [unfolded Action_def] by (rule Mutate_receipts) (auto dest: action_tx_row requests_action_tx)
  with assms show ?thesis by (auto simp: Op_Action committed_def split: sum.splits)
next
  case (Op_RPC e m rq)
  have "\<not> job_scope (''rpc:'' @ s)" for s by (simp add: job_scope_def)
  then have "job_receipts d'" if "RPC e m rq d = Inr (r, d')" for r d'
    using assms that by (auto simp: RPC_def dest: requests_worker_tx elim!: Mutate_receipts split: if_splits)
  with assms show ?thesis by (auto simp: Op_RPC committed_def split: sum.splits)
next
  case (Op_Reap e)
  have "requests (exec p d) = requests d" by (auto simp: Op_Reap committed_def Reap_def intro: requests_reap_loop split: prod.splits)
  with assms show ?thesis by (simp add: job_receipts_def)
qed

lemma reachable_receipts: "reachable d \<Longrightarrow> job_receipts d"
proof (induction rule: reachable.induct)
  case reach_init
  then show ?case by (simp add: job_receipts_def empty_db_def)
qed (rule exec_receipts)


lemma blind_Action:
  assumes "job_receipts d"
  shows "blind f (Action e i act rid) d"
  unfolding Action_def
proof (rule blind_Mutate [OF blind_action_tx])
  show "retoken_response f r = r" if "action_tx e (uuid_value i) act rid d1 = Inr (r, d2)" for d1 r d2 using action_tx_row [OF that] by auto
  show "retoken_response f r = r" if "q \<in> set (requests d)" "receipt_key q = (''job:'' @ action_name act, rid)" "rq_response q = Some r" for q r
  proof -
    note q = that
    have "job_scope (rq_scope q)" using q(2) by (cases act) (auto simp: receipt_key_def job_scope_def)
    then obtain j where "r = R_Job j" using assms q(1,3) unfolding job_receipts_def by blast
    then show ?thesis by simp
  qed
qed

lemma answered_blind: "blind f t d \<Longrightarrow> answered sv enc t (retoken f d) = apsnd (retoken f) (answered sv enc t d)"
  by (cases "t d") (auto simp: blind_def answered_def)

lemma attempt_json_retoken [simp]: "attempt_json sv (retoken_attempt f a) = attempt_json sv a"
  by (simp add: attempt_json_def retoken_attempt_def)

lemma sort_key_map_same:
  assumes "\<And>x. key (g x) = key x"
  shows "sort_key key (map g xs) = map g (sort_key key xs)"
proof -
  have "insort_key key (g x) (map g ys) = map g (insort_key key x ys)" for x ys by (induction ys) (simp_all add: assms)
  then show ?thesis by (induction xs) simp_all
qed

lemma all_rows_retoken: "all_rows sv (retoken f d) kind i = all_rows sv d kind i"
proof (cases kind)
  case Attempts_of_job
  then show ?thesis by (simp add: attempts_of_def filter_map comp_def sort_key_map_same)
qed simp_all

lemma used_retoken: "used i (retoken f d) = used i d"
proof -
  have r: "reservation (retoken f d) (retoken_attempt f a) = reservation d a" for a by (simp add: reservation_def)
  show ?thesis by (simp add: used_def filter_map foldr_map comp_def r)
qed

lemma reads_retoken:
  "get_jobs sv q (retoken f d) = get_jobs sv q d" "get_one sv i (retoken f d) = get_one sv i d"
  "get_rows sv kind i q (retoken f d) = get_rows sv kind i q d" "Workers sv (retoken f d) = Workers sv d"
  by (simp_all add: get_jobs_def List_jobs_def get_one_def get_rows_def Get_def ReadRows_def all_rows_retoken Workers_def worker_json_def used_retoken)

lemma handle_route_blind:
  assumes "job_receipts d"
  shows "handle_route sv e rq route (retoken f d) = apsnd (retoken f) (handle_route sv e rq route d)"
proof (cases route)
  case Submit_One
  then show ?thesis using answered_blind [OF blind_Submit] by (auto simp: post_job_def split: option.splits)
next
  case Submit_Batch
  then show ?thesis using answered_blind [OF blind_Submit] by (auto simp: post_batch_def split: option.splits)
next
  case (Job_Action act i)
  then show ?thesis using answered_blind [OF blind_Action [OF assms]] by auto
qed (simp_all add: reads_retoken)

text \<open>C13: HTTP clients learn nothing about lease tokens. Replace the token of every attempt and in every stored reply by
  any function of it: each request is answered exactly the same, and leaves the database with the
  replaced tokens, in every database a history can reach. This rests on the fact that the receipts a client action may repeat
  hold job rows only.\<close>

theorem tokens_not_revealed:
  assumes "reachable d"
  shows "fst (Handler sv e rq (retoken f d)) = fst (Handler sv e rq d)
    \<and> snd (Handler sv e rq (retoken f d)) = retoken f (snd (Handler sv e rq d))"
proof (cases "find (\<lambda>(m, r). takes m (in_method rq)) (patterns (sv_metrics sv) (in_path rq))")
  case (Some mr)
  then show ?thesis using handle_route_blind [OF reachable_receipts [OF assms], of sv e rq "snd mr" f] by (cases mr) (simp add: Handler_def)
qed (simp add: Handler_def)


section \<open>Definitions come back\<close>

lemma rune_utf8_char:
  assumes "scalar_value c" "utf8_char c = a # r"
  shows "rune a (r @ t) = Some (c, length r)"
proof -
  have c: "\<not> surrogate c" "c \<le> 0x10FFFF" using assms(1) by (auto simp: scalar_value_def surrogate_def)
  have d: "c = c div 64 * 64 + c mod 64" "c div 64 = c div 4096 * 64 + c div 64 mod 64" "c div 4096 = c div 262144 * 64 + c div 4096 mod 64"
    using div_mult2_eq [of c 64 64] div_mult2_eq [of c 4096 64] by (simp_all add: div_mult_mod_eq)
  consider "c < 0x80" | "0x80 \<le> c" "c < 0x800" | "0x800 \<le> c" "c < 0x10000" | "0x10000 \<le> c" by linarith
  then show ?thesis
  proof cases
    case 1
    then show ?thesis using assms(2) by (simp add: utf8_char_def rune_def)
  next
    case 2
    then have a: "a = 192 + c div 64" "r = [128 + c mod 64]" using assms(2) by (simp_all add: utf8_char_def)
    have "2 \<le> c div 64" "c div 64 < 32" using 2 by auto
    then show ?thesis using d(1) by (simp add: a rune_def follows_def)
  next
    case 3
    then have a: "a = 224 + c div 4096" "r = [128 + c div 64 mod 64, 128 + c mod 64]" using assms(2) by (simp_all add: utf8_char_def)
    have "c div 4096 < 16" using 3 by auto
    moreover have "c div 4096 * 4096 + c div 64 mod 64 * 64 + c mod 64 = c" using d(1,2) by linarith
    ultimately show ?thesis using 3 c(1) by (simp add: a rune_def follows_def Let_def)
  next
    case 4
    then have a: "a = 240 + c div 262144" "r = [128 + c div 4096 mod 64, 128 + c div 64 mod 64, 128 + c mod 64]"
      using assms(2) by (simp_all add: utf8_char_def)
    have "c div 262144 < 5" using c(2) by auto
    moreover have "c div 262144 * 262144 + c div 4096 mod 64 * 4096 + c div 64 mod 64 * 64 + c mod 64 = c" using d by linarith
    ultimately show ?thesis using 4 c(2) by (simp add: a rune_def follows_def Let_def)
  qed
qed

lemma runes_utf8: "list_all scalar_value s \<Longrightarrow> runes (concat (map utf8_char s)) = s"
proof (induction s)
  case (Cons c s)
  obtain a r where u: "utf8_char c = a # r" by (cases "utf8_char c") (auto simp: utf8_char_def split: if_splits)
  from rune_utf8_char [OF _ u] Cons show ?case by (simp add: u)
qed simp

lemma utf8_bytes: "list_all scalar_value s \<Longrightarrow> map of_char (utf8 s) = concat (map utf8_char s)"
proof -
  assume "list_all scalar_value s"
  then have "b < 256" if "b \<in> set (concat (map utf8_char s))" for b
    using that by (auto simp: list_all_iff scalar_value_def utf8_char_def split: if_splits)
  then have "map (\<lambda>b. b mod 256) (concat (map utf8_char s)) = concat (map utf8_char s)" by (intro map_idI) auto
  then show ?thesis by (simp add: utf8_def comp_def)
qed

text \<open>A Go string that came from JSON.\<close>

definition proper :: "string \<Rightarrow> bool" where
  "proper s \<longleftrightarrow> (\<exists>t. list_all scalar_value t \<and> s = utf8 t)"

lemma go_string_text: "proper s \<Longrightarrow> go_string (go_text s) = s"
proof -
  assume "proper s"
  then obtain t where t: "list_all scalar_value t" "s = utf8 t" by (auto simp: proper_def)
  have "map (\<lambda>c. if surrogate c then 0xFFFD else c) t = t" using t(1) by (auto simp: list_all_iff scalar_value_def surrogate_def intro!: map_idI)
  then show ?thesis by (simp add: t(2) go_text_def utf8_bytes [OF t(1)] runes_utf8 [OF t(1)] go_string_def)
qed

lemma proper_go_string: "list_all (\<lambda>c. c \<le> 0x10FFFF) s \<Longrightarrow> proper (go_string s)"
  unfolding proper_def go_string_def
  by (rule exI [of _ "map (\<lambda>c. if surrogate c then 0xFFFD else c) s"]) (auto simp: list_all_iff scalar_value_def surrogate_def)


fun unicode :: "json \<Rightarrow> bool" where
  "unicode (J_Str s) \<longleftrightarrow> list_all (\<lambda>c. c \<le> 0x10FFFF) s"
| "unicode (J_List vs) \<longleftrightarrow> list_all unicode vs"
| "unicode (J_Obj kvs) \<longleftrightarrow> list_all (\<lambda>(k, v). list_all (\<lambda>c. c \<le> 0x10FFFF) k \<and> unicode v) kvs"
| "unicode _ \<longleftrightarrow> True"

text \<open>A definition as the decoder builds it.\<close>

definition proper_map :: "(string \<times> string) list \<Rightarrow> bool" where
  "proper_map m \<longleftrightarrow> sorted_wrt (<) (map fst m) \<and> list_all (\<lambda>(k, v). proper k \<and> proper v) m"

definition proper_job :: "job \<Rightarrow> bool" where
  "proper_job j \<longleftrightarrow> proper (Name j) \<and> list_all proper (Command j) \<and> pred_option proper_map (Environment j)
     \<and> proper (IdempotencyKey j) \<and> proper (ArtifactPrefix j)"

lemma proper_empty [simp]: "proper ''''"
  unfolding proper_def by (rule exI [of _ "[]"]) (simp add: utf8_def)

lemma go_str_proper: "go_str old v = Some s \<Longrightarrow> unicode v \<Longrightarrow> proper old \<Longrightarrow> proper s"
  by (cases v) (auto simp: go_str_def proper_go_string)

lemma go_strs_proper: "go_strs old vs = Some ss \<Longrightarrow> list_all unicode vs \<Longrightarrow> list_all proper old \<Longrightarrow> list_all proper ss"
proof (induction old vs arbitrary: ss rule: go_strs.induct)
  case (2 old v vs)
  from 2(2) obtain s r where s: "go_str (case old of [] \<Rightarrow> '''' | s # _ \<Rightarrow> s) v = Some s" "go_strs (drop 1 old) vs = Some r" "ss = s # r"
    by (auto simp: bind_eq_Some_conv)
  have "proper s" using go_str_proper [OF s(1)] 2(3,4) by (cases old) auto
  moreover have "list_all proper r" using 2(1) [OF s(1,2)] 2(3,4) by (cases old) auto
  ultimately show ?case by (simp add: s(3))
qed simp

lemma put_key_keys: "fst ` set (put_key k v m) = insert k (fst ` set m)"
  by (induction k v m rule: put_key.induct) auto

lemma put_key_proper: "proper_map m \<Longrightarrow> proper k \<Longrightarrow> proper v \<Longrightarrow> proper_map (put_key k v m)"
proof (induction k v m rule: put_key.induct)
  case (2 k v k' v' m)
  have keys: "set (map fst (put_key k v m)) = insert k (set (map fst m))" using put_key_keys [of k v m] by simp
  have less: "k' < a" if "(a, b) \<in> set m" for a b using 2(2) that by (force simp: proper_map_def)
  have "proper_map m" using 2(2) by (auto simp: proper_map_def)
  with 2 keys less show ?case by (cases k k' rule: linorder_cases) (auto simp: proper_map_def dest: order.strict_trans)
qed (simp add: proper_map_def)

lemma go_entries_proper:
  "go_entries m kvs = Some m' \<Longrightarrow> list_all (\<lambda>(k, v). list_all (\<lambda>c. c \<le> 0x10FFFF) k \<and> unicode v) kvs \<Longrightarrow> proper_map m \<Longrightarrow> proper_map m'"
proof (induction m kvs rule: go_entries.induct)
  case (2 m k v kvs)
  then obtain s where s: "go_str '''' v = Some s" "go_entries (put_key (go_string k) s m) kvs = Some m'" by (auto simp: bind_eq_Some_conv)
  then show ?case using 2 go_str_proper [OF s(1)] put_key_proper proper_go_string by auto
qed simp

lemma go_members_keep:
  assumes "\<And>s k v s'. I s \<Longrightarrow> P (k, v) \<Longrightarrow> f s k v = Some s' \<Longrightarrow> I s'" "I s" "list_all P kvs" "go_members f s kvs = Some s'"
  shows "I s'"
  using assms(2-4)
proof (induction kvs arbitrary: s)
  case (Cons kv kvs)
  obtain k v where kv: "kv = (k, v)" by (cases kv)
  with Cons.prems obtain y where "f s k v = Some y" "go_members f y kvs = Some s'" by (auto simp: bind_eq_Some_conv)
  with Cons kv assms(1) [of s k v y] show ?case by simp
qed simp

lemma go_job_field_proper:
  assumes "proper_job j" "unicode v" "go_job_field j k v = Some j'"
  shows "proper_job j'"
proof -
  have slice: "list_all proper ss" if "go_slice (Command j) v = Some ss" for ss
    using that assms(1,2) go_strs_proper by (cases v) (auto simp: go_slice_def proper_job_def)
  have env: "pred_option proper_map m" if "go_map (Environment j) v = Some m" for m
    using that assms(1,2) go_entries_proper by (cases v; cases "Environment j") (auto simp: go_map_def proper_job_def proper_map_def [of "[]"])
  show ?thesis using assms slice env go_str_proper
    by (auto simp: go_job_field_def proper_job_def split: if_splits)
qed

lemma decode_job_proper:
  assumes "decode_job v = Some j" "unicode v"
  shows "proper_job j"
proof -
  have z: "proper_job zero_job" by (simp add: proper_job_def zero_job_def)
  show ?thesis
  proof (cases v)
    case (J_Obj kvs)
    have "list_all (\<lambda>(k, v). unicode v) kvs" using assms(2) J_Obj by (auto simp: list_all_iff)
    moreover have "go_members go_job_field zero_job kvs = Some j" using assms(1) J_Obj by (simp add: decode_job_def go_struct_def)
    ultimately show ?thesis by (rule go_members_keep [where I = proper_job, rotated 2]) (use z in \<open>auto intro: go_job_field_proper\<close>)
  qed (use assms z in \<open>auto simp: decode_job_def go_struct_def\<close>)
qed


lemma go_strs_texts: "list_all proper ss \<Longrightarrow> go_strs [] (map text_json ss) = Some ss"
  by (induction ss) (simp_all add: go_str_def text_json_def go_string_text)

lemma put_key_last: "(\<And>x. x \<in> fst ` set m \<Longrightarrow> x < k) \<Longrightarrow> put_key k v m = m @ [(k, v)]"
  by (induction k v m rule: put_key.induct) (auto dest: order.asym)

lemma go_entries_texts:
  "proper_map (m @ r) \<Longrightarrow> go_entries m (map (\<lambda>(k, v). (go_text k, text_json v)) r) = Some (m @ r)"
proof (induction r arbitrary: m)
  case (Cons kv r)
  obtain k v where kv: "kv = (k, v)" by (cases kv)
  from Cons.prems have p: "proper k" "proper v" "x < k" if "x \<in> fst ` set m" for x
    using that by (auto simp: kv proper_map_def sorted_wrt_append)
  have kv': "proper k" "proper v" using Cons.prems by (auto simp: kv proper_map_def)
  have "put_key k v m = m @ [(k, v)]" using p(3) by (intro put_key_last)
  with Cons.IH [of "m @ [(k, v)]"] Cons.prems kv' show ?case by (simp add: kv go_str_def text_json_def go_string_text)
qed simp

text \<open>C15: A definition survives storage. Every definition the server decodes and admits is marshalled to JSON that decodes
  to the very same definition: what the database keeps as \<open>jsonb\<close>, a worker's lease carries and \<open>GET\<close>
  returns is the job that was posted, with its environment sorted and \<open>null\<close> where it was left out.\<close>

theorem definition_comes_back:
  assumes "decode_job v = Some j" "unicode v" "Validate j = None"
  shows "decode_job (definition_json j) = Some j"
proof -
  have p: "proper (Name j)" "list_all proper (Command j)" "pred_option proper_map (Environment j)" "proper (IdempotencyKey j)" "proper (ArtifactPrefix j)"
    using decode_job_proper [OF assms(1,2)] by (auto simp: proper_job_def)
  have texts: "go_str old (text_json s) = Some s" if "proper s" for old s by (simp add: go_str_def text_json_def go_string_text [OF that])
  have cmd: "go_slice [] (J_List (map text_json (Command j))) = Some (Command j)" by (simp add: go_slice_def go_strs_texts [OF p(2)])
  have env: "go_map None (or_null (\<lambda>m. J_Obj (map (\<lambda>(k, v). (go_text k, text_json v)) m)) (Environment j)) = Some (Environment j)"
    using p(3) go_entries_texts [of "[]"] by (cases "Environment j") (auto simp: go_map_def)
  have ints: "go_int old (J_Int i) = Some i" if "- 1000000000 \<le> i" "i \<le> 1000000000" for old i using that by (simp add: go_int_def)
  have bounds: "Valid (Resources j)" "1 \<le> MaxAttempts j" "MaxAttempts j \<le> 100" "1 \<le> TimeoutSeconds j" "TimeoutSeconds j \<le> 604800"
    using assms(3) by (auto simp: Validate_def split: if_splits)
  have lim: "go_int old (J_Int (MaxAttempts j)) = Some (MaxAttempts j)" "go_int old (J_Int (TimeoutSeconds j)) = Some (TimeoutSeconds j)" for old
    using bounds(2-5) by (simp_all add: ints)
  have res: "go_struct go_resource zero_res (resources_json (Resources j)) = Some (Resources j)"
    using bounds(1) by (simp add: go_struct_def resources_json_def obj_def go_resource_def is_field_def fold_rune_def Valid_def ints zero_res_def)
  have dec: "decode_job (J_Obj kvs) = go_members go_job_field zero_job kvs" for kvs by (simp add: decode_job_def go_struct_def)
  show ?thesis
    by (simp add: dec definition_json_def obj_def go_job_field_def is_field_def fold_rune_def zero_job_def
        texts p(1,4,5) cmd env res lim)
qed


section \<open>Instances\<close>

definition ex_server :: server where
  "ex_server = \<lparr>sv_ping = True, sv_metrics = None, sv_go_time = (\<lambda>_. asc ''2026-01-01T00:00:00Z''), sv_pg_time = (\<lambda>_. asc ''2026-01-01T00:00:00+00:00''),
     sv_message = (\<lambda>_. asc ''invalid request''), sv_serial = int, sv_by_time = sort_key art_created, sv_by_name = sort_key w_id\<rparr>"

definition ex_cancel :: http_in where
  "ex_cancel = \<lparr>in_method = ''POST'', in_path = [''v1'', ''jobs'', ex_id 0, ''cancel''], in_query = [], in_body = None, in_request_id = ''r''\<rparr>"


theorem tokens_not_revealed_witness:
  "fst (Handler ex_server (ex_env 9) ex_cancel (retoken (\<lambda>_. ''x'') (ex_db 3))) = fst (Handler ex_server (ex_env 9) ex_cancel (ex_db 3))"
  using tokens_not_revealed [OF reachable_ex] by blast

definition ex_posted :: json where
  "ex_posted = obj [(''Name'', J_Str (asc ''n'')), (''command'', J_List [J_Str (asc ''run'')]),
     (''resources'', obj [(''cpu'', J_Int 1), (''memory_mb'', J_Int 1)]), (''max_attempts'', J_Int 2), (''timeout_seconds'', J_Int 100),
     (''idempotency_key'', J_Str (asc ''k''))]"

theorem definition_comes_back_witness:
  "decode_job ex_posted = Some (ex_job\<lparr>Environment := None\<rparr>) \<and> decode_job (definition_json (ex_job\<lparr>Environment := None\<rparr>)) = Some (ex_job\<lparr>Environment := None\<rparr>)"
proof -
  have d: "decode_job ex_posted = Some (ex_job\<lparr>Environment := None\<rparr>)"
    by (simp add: ex_posted_def obj_def decode_job_def go_struct_def go_job_field_def go_resource_def is_field_def fold_rune_def go_int_def go_str_def
        go_slice_def go_string_def surrogate_def utf8_def utf8_char_def zero_job_def zero_res_def ex_job_def char_of_def bit_0)
  have "unicode ex_posted" by (simp add: ex_posted_def obj_def)
  moreover have "Validate (ex_job\<lparr>Environment := None\<rparr>) = None" by (simp add: Validate_def ex_job_def Valid_def NUL_def env_of_def)
  ultimately show ?thesis using d definition_comes_back [OF d] by blast
qed

text \<open>A NUL character in the name passes the validation and fails in the database, so the client is told of an internal
  error where the request was at fault.\<close>

lemma nul_name_internal_error:
  assumes "decode_job v = Some j" "Validate j = None" "\<not> job_text j"
    and "rq = \<lparr>in_method = ''POST'', in_path = [''v1'', ''jobs''], in_query = q, in_body = Some v, in_request_id = r\<rparr>"
  shows "status_of_out (fst (Handler sv e rq d)) = 500"
proof -
  have "Submit e [j] d = Inl ErrDB" using assms(2,3) by (simp add: Submit_def submit_one_def insert_job_def)
  then show ?thesis by (simp add: assms(1,4) Handler_def patterns_def takes_def Let_def post_job_def answered_def reply_status)
qed

end
