(* ===== verification/Http_Link.thy ===== *)
theory Http_Link
  imports Http_Server Client Artifacts "HOL-Library.Multiset"
begin

text \<open>
  The SDK's client (\<open>sdk/python/rungrid/client.py\<close>) talking to the control plane's HTTP interface: the URL of a request
  taken apart, the handler run on a database, and its answer handed back, an error status as an exception.
  The client's URLs hold no percent escapes as long as identifiers do not.
\<close>

section \<open>URLs\<close>

fun split_on :: "char \<Rightarrow> string \<Rightarrow> string list" where
  "split_on c [] = [[]]"
| "split_on c (x # s) = (if x = c then [] # split_on c s else case split_on c s of [] \<Rightarrow> [[x]] | p # ps \<Rightarrow> (x # p) # ps)"

definition cut_at :: "char \<Rightarrow> string \<Rightarrow> string \<times> string" where
  "cut_at c s = (takeWhile ((\<noteq>) c) s, drop 1 (dropWhile ((\<noteq>) c) s))"

definition url_path :: "string \<Rightarrow> string list" where
  "url_path u = drop 1 (split_on (CHR ''/'') (fst (cut_at (CHR ''?'') u)))"

definition url_query :: "string \<Rightarrow> (string \<times> string) list" where
  "url_query u = map (cut_at (CHR ''='')) (filter (\<lambda>s. s \<noteq> '''') (split_on (CHR ''&'') (snd (cut_at (CHR ''?'') u))))"

definition request_in :: "string \<Rightarrow> http_request \<Rightarrow> http_in" where
  "request_in base r = (let u = drop (length base) (hr_url r) in
     \<lparr>in_method = hr_method r, in_path = url_path u, in_query = url_query u, in_body = Option.bind (hr_body r) loads,
      in_request_id = hr_request_id r\<rparr>)"

fun answer_of :: "http_out \<Rightarrow> sdk_error + json" where
  "answer_of (Json_out n v) = (if n < 400 then Inr v else Inl Raised)"
| "answer_of (Text_out n t) = (if n < 400 then (case loads (asc t) of None \<Rightarrow> Inl ValueError | Some v \<Rightarrow> Inr v) else Inl Raised)"

text \<open>A client of the server with database \<open>d\<close>.\<close>

definition client_of :: "server \<Rightarrow> txenv \<Rightarrow> db \<Rightarrow> string \<Rightarrow> string \<Rightarrow> http_client" where
  "client_of sv e d base u = \<lparr>hc_url = base, hc_open = (\<lambda>r. answer_of (fst (Handler sv e (request_in base r) d))), hc_uuid = u\<rparr>"

section \<open>Taking the client's URLs apart\<close>

lemma split_on_free: "c \<notin> set s \<Longrightarrow> split_on c s = [s]"
  by (induction s) auto

lemma split_on_append: "c \<notin> set s \<Longrightarrow> split_on c (s @ c # t) = s # split_on c t"
  by (induction s) auto

lemma cut_at_append: "c \<notin> set s \<Longrightarrow> cut_at c (s @ c # t) = (s, t)"
proof -
  assume "c \<notin> set s"
  then have "takeWhile ((\<noteq>) c) (s @ c # t) = s" "dropWhile ((\<noteq>) c) (s @ c # t) = c # t" by (induction s) auto
  then show ?thesis by (simp add: cut_at_def)
qed

lemma cut_at_free: "c \<notin> set s \<Longrightarrow> cut_at c s = (s, '''')"
proof -
  assume "c \<notin> set s"
  then have "takeWhile ((\<noteq>) c) s = s" "dropWhile ((\<noteq>) c) s = []" by (induction s) auto
  then show ?thesis by (simp only: cut_at_def drop_Nil)
qed

lemma id_free:
  assumes "idPattern i"
  shows "CHR ''/'' \<notin> set i" "CHR ''?'' \<notin> set i"
  using idPattern_chars [OF assms] by (auto simp: is_hex_def)

lemma job_url:
  assumes "idPattern i"
  shows "url_path (''/v1/jobs/'' @ i) = [''v1'', ''jobs'', i]" "url_query (''/v1/jobs/'' @ i) = []"
    "CHR ''/'' \<notin> set k \<Longrightarrow> CHR ''?'' \<notin> set k \<Longrightarrow> url_path (''/v1/jobs/'' @ i @ ''/'' @ k) = [''v1'', ''jobs'', i, k]"
    "CHR ''/'' \<notin> set k \<Longrightarrow> CHR ''?'' \<notin> set k \<Longrightarrow> url_path (''/v1/jobs/'' @ i @ ''/'' @ k @ ''?'' @ q) = [''v1'', ''jobs'', i, k]"
    "CHR ''?'' \<notin> set k \<Longrightarrow> url_query (''/v1/jobs/'' @ i @ ''/'' @ k @ ''?'' @ q) = map (cut_at (CHR ''='')) (filter (\<lambda>s. s \<noteq> '''') (split_on (CHR ''&'') q))"
proof -
  note f = id_free [OF assms]
  have c: "cut_at (CHR ''?'') (''/v1/jobs/'' @ i) = (''/v1/jobs/'' @ i, '''')" using f(2) by (intro cut_at_free) auto
  have p: "split_on (CHR ''/'') (''/v1/jobs/'' @ s) = '''' # ''v1'' # ''jobs'' # split_on (CHR ''/'') s" for s by simp
  show "url_path (''/v1/jobs/'' @ i) = [''v1'', ''jobs'', i]" "url_query (''/v1/jobs/'' @ i) = []"
    unfolding url_path_def url_query_def c fst_conv snd_conv p by (simp_all add: split_on_free f(1))
  show "url_path (''/v1/jobs/'' @ i @ ''/'' @ k) = [''v1'', ''jobs'', i, k]" if k: "CHR ''/'' \<notin> set k" "CHR ''?'' \<notin> set k"
  proof -
    have c: "cut_at (CHR ''?'') (''/v1/jobs/'' @ i @ ''/'' @ k) = (''/v1/jobs/'' @ i @ ''/'' @ k, '''')" using f(2) k by (intro cut_at_free) auto
    show ?thesis unfolding url_path_def c fst_conv p using split_on_append [OF f(1), of k] by (simp add: split_on_free k)
  qed
  have c: "cut_at (CHR ''?'') (''/v1/jobs/'' @ i @ ''/'' @ k @ ''?'' @ q) = (''/v1/jobs/'' @ i @ ''/'' @ k, q)" if "CHR ''?'' \<notin> set k"
    using cut_at_append [of "CHR ''?''" "''/v1/jobs/'' @ i @ ''/'' @ k" q] f(2) that by simp
  show "url_path (''/v1/jobs/'' @ i @ ''/'' @ k @ ''?'' @ q) = [''v1'', ''jobs'', i, k]" if k: "CHR ''/'' \<notin> set k" "CHR ''?'' \<notin> set k"
    unfolding url_path_def c [OF k(2)] fst_conv p using split_on_append [OF f(1), of k] by (simp add: split_on_free k)
  show "url_query (''/v1/jobs/'' @ i @ ''/'' @ k @ ''?'' @ q) = map (cut_at (CHR ''='')) (filter (\<lambda>s. s \<noteq> '''') (split_on (CHR ''&'') q))"
    if "CHR ''?'' \<notin> set k" unfolding url_query_def c [OF that] by simp
qed

section \<open>What the client reads\<close>

lemma atoi_str_int:
  assumes "0 \<le> n" "n < 2 ^ 63"
  shows "atoi (str_int n) = Some n" "str_int n \<noteq> ''''"
proof -
  have s: "str_int n = str_nat (nat n)" using assms(1) by (simp add: str_int_def)
  have d: "is_digit c" if "c \<in> set (str_nat m)" for c m
  proof -
    from str_nat_digits [OF that] obtain k where "k < 10" "c = digit_char k" by blast
    then show ?thesis by (auto simp: is_digit_def less_eq_char_def of_char_digit)
  qed
  obtain c t where ct: "str_nat (nat n) = c # t" by (cases "str_nat (nat n)") (simp_all add: str_nat_nonempty)
  have "is_digit c" using d [of c "nat n"] ct by simp
  then have "c \<noteq> CHR ''-''" "c \<noteq> CHR ''+''" by (auto simp: is_digit_def less_eq_char_def)
  moreover have "atoi_nat (c # t) = Some n"
    using d [of _ "nat n"] digits_val_str_nat [of "nat n"] assms(1) ct by (simp add: atoi_nat_def list_all_iff)
  ultimately show "atoi (str_int n) = Some n" using assms by (simp add: s ct atoi_def)
  show "str_int n \<noteq> ''''" by (simp add: s ct)
qed

lemma handler_get:
  "Handler sv e \<lparr>in_method = ''GET'', in_path = [''v1'', ''jobs'', i], in_query = q, in_body = b, in_request_id = r\<rparr> d = (reply sv (get_one sv i d), d)"
  "Handler sv e \<lparr>in_method = ''GET'', in_path = [''v1'', ''jobs''], in_query = q, in_body = b, in_request_id = r\<rparr> d = (reply sv (get_jobs sv q d), d)"
  "Handler sv e \<lparr>in_method = ''GET'', in_path = [''v1'', ''jobs'', i, kind_name k], in_query = q, in_body = b, in_request_id = r\<rparr> d = (reply sv (get_rows sv k i q d), d)"
  by (cases k; simp add: Handler_def patterns_def takes_def Let_def)+

lemma answer_reply: "answer_of (reply sv (Inr v)) = Inr v"
  by (simp add: reply_def)

lemma page_limit: "page (url_query (''/v1/jobs/'' @ i @ ''/'' @ k @ ''?limit=1000'')) = Inr (1000, 0)" if "idPattern i" "CHR ''?'' \<notin> set k"
proof -
  have "url_query (''/v1/jobs/'' @ i @ ''/'' @ k @ ''?limit=1000'') = [(''limit'', ''1000'')]"
    using job_url(5) [OF that, of "''limit=1000''"] by (simp add: cut_at_def)
  moreover have "atoi ''1000'' = Some 1000" by code_simp
  ultimately show ?thesis by (simp add: page_def int_param_def query_get_def)
qed

lemma kind_name_free: "CHR ''/'' \<notin> set (kind_name k)" "CHR ''?'' \<notin> set (kind_name k)"
  by (cases k; simp)+

lemma client_of_rows:
  assumes "idPattern i" "get_job (uuid_value i) d = Some j"
  shows "http_call (client_of sv e d base u) ''GET'' (''/v1/jobs/'' @ i @ ''/'' @ kind_name k @ ''?limit=1000'') None None
    = Inr (J_List (take 1000 (all_rows sv d k i)))"
proof -
  have "get_rows sv k i (url_query (''/v1/jobs/'' @ i @ ''/'' @ kind_name k @ ''?limit=1000'')) d = Inr (J_List (take 1000 (all_rows sv d k i)))"
    unfolding get_rows_def page_limit [OF assms(1) kind_name_free(2)] using assms by (simp add: Get_def ReadRows_def window_def)
  then show ?thesis
    using job_url(4) [OF assms(1) kind_name_free, of k "''limit=1000''"]
    by (simp add: http_call_def http_request_of_def client_of_def request_in_def Let_def handler_get answer_reply)
qed

lemma client_of_listings:
  assumes "idPattern i" "get_job (uuid_value i) d = Some j"
  shows "client_attempts (client_of sv e d base u) i = Inr (J_List (take 1000 (all_rows sv d Attempts_of_job i)))"
    "client_artifacts (client_of sv e d base u) i = Inr (J_List (take 1000 (all_rows sv d Artifacts_of_job i)))"
    "client_get (client_of sv e d base u) i = Inr (job_json sv j)"
proof -
  show "client_attempts (client_of sv e d base u) i = Inr (J_List (take 1000 (all_rows sv d Attempts_of_job i)))"
    using client_of_rows [OF assms, of sv e base u Attempts_of_job] by (simp add: client_attempts_def)
  show "client_artifacts (client_of sv e d base u) i = Inr (J_List (take 1000 (all_rows sv d Artifacts_of_job i)))"
    using client_of_rows [OF assms, of sv e base u Artifacts_of_job] by (simp add: client_artifacts_def)
  show "client_get (client_of sv e d base u) i = Inr (job_json sv j)"
    using job_url(1) [OF assms(1)] assms
    by (simp add: client_get_def http_call_def http_request_of_def client_of_def request_in_def Let_def handler_get get_one_def Get_def answer_reply)
qed


section \<open>Paging\<close>

lemma str_int_free:
  assumes "0 \<le> n" "\<not> is_digit c"
  shows "c \<notin> set (str_int n)"
proof
  assume "c \<in> set (str_int n)"
  then have "c \<in> set (str_nat (nat n))" using assms(1) by (simp add: str_int_def)
  from str_nat_digits [OF this] obtain k where "k < 10" "c = digit_char k" by blast
  then show False using assms(2) by (auto simp: is_digit_def less_eq_char_def of_char_digit)
qed

lemma list_url:
  assumes "0 \<le> l" "0 \<le> n"
  shows "url_path (''/v1/jobs?limit='' @ str_int l @ ''&offset='' @ str_int n) = [''v1'', ''jobs'']"
    "url_query (''/v1/jobs?limit='' @ str_int l @ ''&offset='' @ str_int n) = [(''limit'', str_int l), (''offset'', str_int n)]"
proof -
  have nd: "\<not> is_digit (CHR ''&'')" "\<not> is_digit (CHR ''='')" by (simp_all add: is_digit_def less_eq_char_def)
  have c: "cut_at (CHR ''?'') (''/v1/jobs?limit='' @ str_int l @ ''&offset='' @ str_int n) = (''/v1/jobs'', ''limit='' @ str_int l @ ''&offset='' @ str_int n)"
    using cut_at_append [of "CHR ''?''" "''/v1/jobs''" "''limit='' @ str_int l @ ''&offset='' @ str_int n"] by simp
  have q: "split_on (CHR ''&'') (''limit='' @ str_int l @ ''&offset='' @ str_int n) = [''limit='' @ str_int l, ''offset='' @ str_int n]"
    using split_on_append [of "CHR ''&''" "''limit='' @ str_int l" "''offset='' @ str_int n"] split_on_free [of "CHR ''&''" "''offset='' @ str_int n"]
      str_int_free [OF assms(1) nd(1)] str_int_free [OF assms(2) nd(1)] by simp
  show "url_path (''/v1/jobs?limit='' @ str_int l @ ''&offset='' @ str_int n) = [''v1'', ''jobs'']" unfolding url_path_def c by simp
  show "url_query (''/v1/jobs?limit='' @ str_int l @ ''&offset='' @ str_int n) = [(''limit'', str_int l), (''offset'', str_int n)]"
    unfolding url_query_def c snd_conv q
    using cut_at_append [of "CHR ''=''" "''limit''" "str_int l"] cut_at_append [of "CHR ''=''" "''offset''" "str_int n"] by simp
qed

lemma client_of_list:
  assumes "1 \<le> l" "l \<le> 1000" "0 \<le> n" "n < 2 ^ 63"
  shows "client_list (client_of sv e d base u) l n = Inr (J_List (map (job_json sv) (List_jobs d l n)))"
proof -
  have l: "atoi (str_int l) = Some l" "str_int l \<noteq> ''''" using atoi_str_int [of l] assms(1,2) by auto
  have o: "atoi (str_int n) = Some n" "str_int n \<noteq> ''''" using atoi_str_int [OF assms(3,4)] by auto
  have p: "page [(''limit'', str_int l), (''offset'', str_int n)] = Inr (l, n)"
    using assms l o by (simp add: page_def int_param_def query_get_def Let_def)
  have u: "url_path (''/v1/jobs?limit='' @ str_int l @ ''&offset='' @ str_int n) = [''v1'', ''jobs'']"
    "url_query (''/v1/jobs?limit='' @ str_int l @ ''&offset='' @ str_int n) = [(''limit'', str_int l), (''offset'', str_int n)]"
    using list_url [of l n] assms by auto
  have "get_jobs sv [(''limit'', str_int l), (''offset'', str_int n)] d = Inr (J_List (map (job_json sv) (List_jobs d l n)))" by (simp add: get_jobs_def p)
  then show ?thesis using u
    by (simp add: client_list_def http_call_def http_request_of_def client_of_def request_in_def Let_def handler_get answer_reply)
qed

lemma concat_windows: "concat (map (\<lambda>k. take l (drop (k * l) xs)) [0..<n]) = take (n * l) xs"
  by (induction n) (simp_all add: take_add [symmetric] add.commute)

lemma sorted_older: "sorted_wrt older (sort_key (\<lambda>j. (j_created j, j_id j)) js)"
proof -
  have "sorted (map (\<lambda>j. (j_created j, j_id j)) (sort_key (\<lambda>j. (j_created j, j_id j)) js))" by simp
  then have "sorted_wrt (\<lambda>a b. (j_created a, j_id a) \<le> (j_created b, j_id b)) (sort_key (\<lambda>j. (j_created j, j_id j)) js)"
    by (simp add: sorted_map)
  then show ?thesis by (rule sorted_wrt_mono_rel [rotated]) (auto simp: older_def less_eq_prod_def)
qed



section \<open>Texts and identifiers of a listing\<close>

lemma rune_ascii_after: "list_all (\<lambda>b. b < 128) t \<Longrightarrow> rune a (r @ t) = rune a r"
proof -
  assume t: "list_all (\<lambda>b. b < 128) t"
  consider "t = []" | b s where "t = b # s" "\<not> follows b" "s = [] \<or> (\<exists>c s'. s = c # s' \<and> \<not> follows c)"
    using t by (cases t; cases "tl t") (auto simp: follows_def)
  then show ?thesis
  proof cases
    case 2
    then show ?thesis
      by (cases r; cases "tl r"; cases "tl (tl r)"; cases s) (auto simp: rune_def Let_def split: list.splits)
  qed simp
qed

lemma rune_width: "rune a r = Some (c, k) \<Longrightarrow> k \<le> length r"
  by (auto simp: rune_def Let_def split: if_splits list.splits)

lemma runes_ascii: "list_all (\<lambda>b. b < 128) t \<Longrightarrow> runes t = t"
  by (induction t) (simp_all add: rune_def)

lemma runes_append: "list_all (\<lambda>b. b < 128) t \<Longrightarrow> runes (s @ t) = runes s @ t"
proof (induction s rule: runes.induct)
  case (2 a r)
  show ?case
  proof (cases "rune a r")
    case None
    with 2 show ?thesis by (simp add: rune_ascii_after)
  next
    case (Some ck)
    obtain c k where ck: "ck = (c, k)" by (cases ck)
    have "drop k (r @ t) = drop k r @ t" using rune_width Some ck by fastforce
    with 2 Some ck show ?thesis by (simp add: rune_ascii_after)
  qed
qed (simp add: runes_ascii)

lemma go_text_ascii: "list_all (\<lambda>b. b < 128) (asc s) \<Longrightarrow> go_text s = asc s"
  by (simp add: go_text_def asc_def runes_ascii)

lemma go_text_suffix: "list_all (\<lambda>b. b < 128) (asc t) \<Longrightarrow> suffix t s \<Longrightarrow> suffix (asc t) (go_text s)"
  by (auto simp: suffix_def go_text_def asc_def runes_append)

lemma hex_ascii: "is_hex c \<Longrightarrow> of_char c < (128 :: nat)"
  by (auto simp: is_hex_def)

lemma id_ascii:
  assumes "idPattern i"
  shows "list_all (\<lambda>b. b < 128) (asc i)"
proof -
  have "of_char c < (128 :: nat)" if "c \<in> set i" for c
    using idPattern_chars [OF assms that] hex_ascii by auto
  then show ?thesis by (simp add: list_all_iff asc_def)
qed

lemma id_text: "idPattern i \<Longrightarrow> go_text i = asc i"
  by (rule go_text_ascii [OF id_ascii])

lemma checksum_text:
  assumes "checksumPattern s"
  shows "go_text s = asc s"
proof (rule go_text_ascii)
  have "of_char c < (128 :: nat)" if "c \<in> set s" for c
    using assms that hex_ascii [OF lower_hex_is_hex] unfolding checksumPattern_def list_all_iff by blast
  then show "list_all (\<lambda>b. b < 128) (asc s)" by (simp add: list_all_iff asc_def)
qed

text \<open>A recorded artifact carries an attempt identifier in the server's form.\<close>

definition stamped :: "db \<Rightarrow> bool" where
  "stamped d \<longleftrightarrow> (\<forall>x \<in> set (artifacts d). idPattern (art_attempt x))"

lemma stamped_record:
  "record_artifacts e n j aid as d = Inr d' \<Longrightarrow> idPattern aid \<Longrightarrow> stamped d \<Longrightarrow> stamped d'"
proof (induction as arbitrary: n d)
  case (Cons a as)
  from Cons.prems(1) obtain n1 d1 where "record_artifacts e n1 j aid as d1 = Inr d'"
    "d1 = d \<or> (\<exists>i t. d1 = d\<lparr>artifacts := artifacts d @ [\<lparr>art_id = i, art_job = j_id j, art_attempt = aid, art = a, art_created = t\<rparr>]\<rparr>)"
    by (auto split: if_splits option.splits)
  moreover from this(2) have "stamped d1" using Cons.prems(2,3) by (auto simp: stamped_def)
  ultimately show ?case using Cons.IH Cons.prems(2) by blast
qed simp

lemma stamped_attempt_tx:
  assumes "stamped d" and run: "attempt_tx e m r d = Inr (resp, d')"
  shows "stamped d'"
  using run
proof (cases rule: attempt_tx_Inr)
  case (1 a j)
  have aid: "idPattern (AttemptID r)" using run by (auto simp: attempt_tx_def split: if_splits)
  show ?thesis
  proof (cases "m = Heartbeat \<or> m = StartAttempt")
    case True
    then have "artifacts d' = artifacts d" using 1(4) by (auto simp: heartbeat_tx_def start_tx_def Let_def split: if_splits)
    with assms(1) show ?thesis by (simp add: stamped_def)
  next
    case False
    with 1(4) have "report_tx e m r j a d = Inr (resp, d')" by (auto split: if_splits)
    then show ?thesis
    proof (cases rule: report_tx_Inr)
      case (1 xs)
      have "artifacts d' = artifacts (d\<lparr>artifacts := artifacts d @ xs\<rparr>)" unfolding 1(5) by (simp add: finish_attempt_def)
      with stamped_record [OF 1(2) aid assms(1)] show ?thesis by (simp add: stamped_def)
    qed
  qed
qed

lemma stamped_worker_tx:
  assumes "stamped d" and run: "worker_tx e m r d = Inr (resp, d')"
  shows "stamped d'"
proof -
  let ?d = "set_worker (WorkerID r) (\<lambda>w. w\<lparr>w_heartbeat := Clk e 0\<rparr>) d"
  have "artifacts d' = artifacts d \<or> attempt_tx e m r ?d = Inr (resp, d')"
    using run by (auto simp: worker_tx_def register_tx_def Let_def split: if_splits option.splits dest: artifacts_lease_tx)
  then show ?thesis using assms(1) stamped_attempt_tx [of ?d] by (auto simp: stamped_def)
qed

interpretation stamps: step_invariant stamped
proof unfold_locales
  show "stamped (d\<lparr>requests := q\<rparr>) = stamped d" for d q by (simp add: stamped_def)
  show "stamped d'" if "stamped d" "submit_one i now j d = Inr (row, d')" for d i now j row d'
    using that artifacts_submit_one [OF that(2)] by (simp add: stamped_def)
  show "stamped d'" if "stamped d" "action_tx e i act rid d = Inr (r, d')" for d e i act rid r d'
    using that artifacts_action_tx [OF that(2)] by (simp add: stamped_def)
  show "stamped d'" if "stamped d" "worker_tx e m rq d = Inr (r, d')" for d e m rq r d' by (rule stamped_worker_tx [OF that])
  show "stamped d'" if "stamped d" "reap_one e n i d = (k, d')" for d e n i k d'
    using that artifacts_reap_one [OF that(2)] by (simp add: stamped_def)
qed

lemma reachable_stamped: "reachable d \<Longrightarrow> stamped d"
  by (rule stamps.reachable_keeps) (simp_all add: stamped_def empty_db_def)



end
