(* ===== verification/Spec2Isabelle.thy ===== *)
theory Spec2Isabelle
  imports Task Aggregate Http_Link
begin

text \<open>
  RunGrid is a job scheduler: a Go control plane over PostgreSQL, Python workers that run the jobs' commands, a Python
  SDK that commands and users call, and a research example (HeteroSplit) whose grid of training jobs exercises all of
  them. This development models the parts that decide what happens to a job and its data, and proves what
  makes them correct. Paths are relative to \<open>src/\<close>.

  \<^bold>\<open>How the parts interact.\<close> A client submits job definitions over HTTP; the store keeps them in tables. A worker
  registers, leases jobs by RPC, runs each command in a process group, renews the lease in a heartbeat thread, uploads
  outputs and checkpoints to an object store and reports them with their checksums, and reports one final outcome. The
  reaper takes back expired leases; a later attempt of the job gets the newest checkpoint and resumes from it.

  \<^bold>\<open>Control plane.\<close> \<open>Scheduler_Model\<close> is \<open>internal/scheduler/model.go\<close> (resources, validation, identifiers, retry
  rule). \<open>Store\<close> is \<open>migrations/001_initial.sql\<close> and the writing transactions of \<open>internal/store\<close>: a table is a list of
  rows, a transaction a function from the record of tables to an error or new tables, and \<open>Mutate\<close> wraps it in the
  receipt that makes a request idempotent. \<open>Store_Inv\<close> and \<open>Store_Steps\<close> hold the table invariant and its
  preservation, collected by the locale \<open>step_invariant\<close> of \<open>Store_Inv\<close>, which is interpreted four times on the
  transactions, and once more in \<open>Http_Link\<close>. \<open>Store_Props\<close> and \<open>Store_Service\<close> show: finished attempts are fenced, a job has one owner and one
  success, job rows follow an abstract life cycle, capacity is never exceeded, requests and submissions take effect
  once, leases place the oldest compatible job, expired leases are dead and reaped, artifacts stay in their scope.
  \<open>Store_Example\<close> is a concrete history for the witnesses.

  \<^bold>\<open>HTTP.\<close> \<open>Http_Server\<close> is \<open>internal/api/http.go\<close> with the queries \<open>Get\<close>, \<open>List\<close>, \<open>ReadRows\<close> and \<open>Workers\<close> of the store:
  a request is routed, decoded the way \<open>encoding/json\<close> fills the Go structs, run, and answered with a JSON value and a
  status. It shows that every request keeps the invariants of the tables, that no answer depends on a lease token (agreement
  of two runs over databases that differ in tokens only), and that an admitted definition is read back as it was stored.
  \<open>Http_Link\<close> connects the SDK's client to it: URLs are taken apart and the answer handed back, so that pages
  list every job once, and the aggregation below reads a database.

  \<^bold>\<open>Worker.\<close> \<open>Rpc\<close> is \<open>rungrid_worker/rpc.py\<close> with the server entry of \<open>internal/api/grpc.go\<close>: a call retried
  over a lossy network executes once, ends in time, and computes a local deadline that is never later than the lease.
  \<open>Sha256\<close> is the hash object and \<open>Artifacts\<close> is \<open>artifacts.py\<close>: digest, bounded upload, restore. \<open>Worker\<close> is
  \<open>main.py\<close>: \<open>execute\<close> is an action over traces of effects, in which the world (clock, network, process, files) is a
  parameter that answers from the trace so far. \<open>Worker_Props\<close>, \<open>Attempt\<close>, \<open>Attempt_Reports\<close>, \<open>Attempt_Ends\<close> and
  \<open>Worker_Threads\<close> show, for every world: one final report, success only after exit status zero and accepted
  artifacts, a clean end, limits kept, the whole log in the log file, a heartbeat within the lease, the command's
  environment, and a lease loop that keeps its slots and ends.

  \<^bold>\<open>SDK.\<close> \<open>Json\<close> is Python's \<open>json\<close> printer, in both layouts, and parser, with the round trip proved once over a
  predicate \<open>spells\<close>; \<open>Base64\<close> the codec of binary states. Both are interpretations of the locale \<open>codec\<close> of
  \<open>RG_Prelude\<close>. \<open>Sdk\<close> is \<open>checkpoint.py\<close> over a file system with unsynced contents: checkpoints are atomic at every
  crash point, and the counter example resumes from any of them. \<open>Client\<close> is \<open>client.py\<close> and \<open>invoke.py\<close>: a
  submitted function is called with its arguments.

  \<^bold>\<open>HeteroSplit.\<close> \<open>Protocols\<close> and \<open>Study\<close> are \<open>protocols.py\<close>, \<open>submit.py\<close> and \<open>preflight.py\<close>: calendar months, splits,
  the grid of jobs, which the store accepts as a batch, and a preflight that covers it. \<open>Research\<close> and \<open>Training\<close> are
  \<open>research.py\<close>: the rank formula counts ordered pairs, and every index the model sees is typed and every negative
  is one. \<open>Task\<close> is \<open>task.py\<close>: a task resumed from any of its checkpoints ends with the numbers of the
  uninterrupted run, which are those of \<open>run_once\<close>. \<open>Aggregate\<close> is \<open>aggregate.py\<close>: only verified metrics of succeeded
  jobs are tabulated, exactly grouped.

  \<^bold>\<open>Parameters.\<close> Code outside the repository is an argument of the definitions: gRPC transport and clocks
  (\<open>transport_ok\<close>), the object store, HTTP exchanges, importable modules, the \<open>heterosplit\<close> package (record \<open>library\<close>,
  \<open>split_data_ok\<close>), \<open>torch\<close> (record \<open>torch\<close>, with \<open>sorts\<close>, \<open>draws_below\<close> and \<open>restorable\<close> for its sorts, random indices
  and saved states), and Python's text of a float. Each hypothesis has a concrete instance in the witnesses. Floating
  point numbers are real numbers; text is a list of code points (\<open>pystr\<close>), Go strings and paths are lists of bytes.

  \<^bold>\<open>Bounds.\<close> Loops that may not end (\<open>call_loop\<close>, \<open>poll_loop\<close>, \<open>run_loop\<close>, \<open>wait_loop\<close>) are partial functions in the
  option type, and that they return is a theorem. The only fuel is that of the JSON parser, twice the length of the
  text plus one: a nested value costs two calls and at least one character, and the round trip shows that it is
  enough for every printed value.

  \<^bold>\<open>Not modelled.\<close> Telemetry, command line front ends, the worker's metrics endpoint, signal set-up and process start
  are input and output around the modelled operations. The generated protobuf code comes from \<open>protoc\<close>. The repository
  scripts and benchmarks call external tools; the smoke test of the example runs the task twice and asserts an
  instance of its resumption property. Concurrent transactions are a sequence of steps, since they take the row locks of what
  they change before they read it; the jobs that other transactions hold locked are a parameter of a lease. Floating point
  rounding is not modelled. PostgreSQL refuses text with a NUL: this is modelled for submissions and for the events of
  reports, not for the names a worker registers with. An identifier in a worker's request is compared as it is spelled, in
  lower case as the server made it. A request body over HTTP is given by the one JSON value it parses to, and
  a nil list of log lines is the empty list.
\<close>


section \<open>From the task to the summary\<close>

fun file_op :: "task_event \<Rightarrow> fs_op list" where
  "file_op (File x) = [x]"
| "file_op (Say t) = []"

definition file_ops :: "task_event list \<Rightarrow> fs_op list" where
  "file_ops evs = concat (map file_op evs)"

lemma file_ops_simps [simp]: "file_ops (evs @ evs') = file_ops evs @ file_ops evs'" "file_ops (map File ops) = ops" "file_ops [] = []"
    "file_ops (File x # evs) = x # file_ops evs" "file_ops (Say t # evs) = file_ops evs"
  by (induction ops) (simp_all add: file_ops_def)

lemma report_written:
  assumes "report T lib W env p idn records result start st = (evs, Inr m)"
  obtains mk d job attempt auc ap where "output_dir env = Inr (mk, d)" "m = metrics_json lib W idn records result start job attempt auc ap"
    "evs = map File (mk @ write_text (path_join d ''metrics.json'') (dumps_indent 0 m)) @ [Say (dumps m)]"
proof -
  obtain x y where e: "evaluate T p st = (x, y)" by fastforce
  have "x \<noteq> None \<and> y \<noteq> None" using assms by (auto simp: report_def e follow_Inr split: option.splits)
  then obtain auc ap where "x = Some auc" "y = Some ap" by auto
  then show thesis using assms that by (auto simp: report_def e follow_Inr Let_def simp del: dumps.simps dumps_indent.simps)
qed

lemma task_run_written:
  assumes "task_run T lib W args env s = (evs, Inr m)"
  obtains records result start k d job attempt auc ap f where
    "m = metrics_json lib W (identity args (manifest_digest lib result)) records result start job attempt auc ap" "as_index start = Inr k"
    "env ''RUNGRID_OUTPUT_DIR'' = Some d" "files (run_ops (file_ops evs) s) (path_join d ''metrics.json'') = Some f" "content f = dumps_indent 0 m"
proof -
  have "\<exists>records result start k st p evs2. as_index start = Inr k \<and> suffix evs2 evs
      \<and> report T lib W env p (identity args (manifest_digest lib result)) records result start st = (evs2, Inr m)"
    using assms by (auto simp: task_run_def follow_Inr Let_def case_prod_unfold simp del: follow_simps dumps.simps asc_simps split: if_splits)
      (blast intro: suffix_appendI suffix_ConsI)
  then obtain records result start k st p evs2 where k: "as_index start = Inr k" "suffix evs2 evs"
    and r: "report T lib W env p (identity args (manifest_digest lib result)) records result start st = (evs2, Inr m)" by blast
  from k(2) obtain evs1 where evs: "evs = evs1 @ evs2" by (auto simp: suffix_def)
  from r show thesis
  proof (rule report_written)
    fix mk d job attempt auc ap
    assume *: "output_dir env = Inr (mk, d)" "m = metrics_json lib W (identity args (manifest_digest lib result)) records result start job attempt auc ap"
      "evs2 = map File (mk @ write_text (path_join d ''metrics.json'') (dumps_indent 0 m)) @ [Say (dumps m)]"
    have "\<exists>f. files (run_ops (file_ops evs) s) (path_join d ''metrics.json'') = Some f \<and> content f = dumps_indent 0 m"
      unfolding evs *(3) by (simp add: write_text_def run_ops_def del: dumps.simps dumps_indent.simps)
    moreover have "env ''RUNGRID_OUTPUT_DIR'' = Some d" using *(1) by (auto simp: output_dir_def split: option.splits)
    ultimately show thesis using *(2) k(1) that by blast
  qed
qed


text \<open>The metrics file is plain ASCII.\<close>

definition plain_code :: "nat \<Rightarrow> bool" where
  "plain_code c \<longleftrightarrow> 10 \<le> c \<and> c < 128"

lemma plain_printable: "list_all printable s \<Longrightarrow> list_all plain_code s"
  by (auto simp: list_all_iff printable_def plain_code_def)

lemma plain_join: "list_all plain_code sep \<Longrightarrow> list_all (list_all plain_code) xs \<Longrightarrow> list_all plain_code (join sep xs)"
  by (induction sep xs rule: join.induct) auto

lemma plain_newline: "list_all plain_code (newline l)" "list_all plain_code (44 # newline l)"
  by (simp_all add: newline_def plain_code_def list_all_iff)

lemma plain_brackets: "plain_code 91" "plain_code 93" "plain_code 123" "plain_code 125" "plain_code 58" "plain_code 32"
  by (simp_all add: plain_code_def)

lemma plain_dumps_indent: "json_ok v \<Longrightarrow> list_all plain_code (dumps_indent l v)"
proof (induction l v rule: dumps_indent.induct)
  case (1 l vs)
  have "list_all (list_all plain_code) (map (dumps_indent (l + 2)) vs)" using 1 by (fastforce simp: list_all_iff)
  from plain_join [OF plain_newline(2) this] show ?case by (simp add: plain_newline(1) plain_brackets)
next
  case (2 l kvs)
  have "list_all (list_all plain_code) (map (\<lambda>(k, v). dumps_str k @ [58, 32] @ dumps_indent (l + 2) v) kvs)"
    using 2 plain_printable [OF printable_str] by (fastforce simp: list_all_iff plain_brackets)
  from plain_join [OF plain_newline(2) this] show ?case by (simp add: plain_newline(1) plain_brackets)
qed (simp_all only: dumps_indent.simps plain_printable [OF printable_dumps])

lemma loads_plain_bytes:
  assumes "list_all plain_code s"
  shows "loads_bytes other (map of_nat s) = loads s"
proof -
  have b: "map unat (map of_nat s :: bytes) = s"
    using assms by (auto simp: list_all_iff plain_code_def unat_of_nat take_bit_nat_eq_self intro!: map_idI)
  have "\<not> other_encoding s"
  proof -
    have p: "10 \<le> c \<and> c < 128" if "c \<in> set s" for c using assms that by (auto simp: list_all_iff plain_code_def)
    have "take k s \<noteq> c # cs" if "128 \<le> c" for k c cs using p set_take_subset [of k s] that by (metis list.set_intros(1) subsetD not_le)
    moreover have z: "s ! i \<noteq> 0" if "i < 2" "2 \<le> length s" for i using p [OF nth_mem [of i s]] that by linarith
    ultimately show ?thesis using z [of 0] z [of 1] by (auto simp: other_encoding_def)
  qed
  moreover have "utf8_decode s = Some s" by (rule utf8_decode_ascii) (use assms in \<open>auto simp: list_all_iff plain_code_def\<close>)
  ultimately show ?thesis by (simp add: loads_bytes_def Let_def b [simplified])
qed

lemma join_last: "suffix x (join sep (xs @ [x]))"
proof (induction xs)
  case (Cons y xs)
  then show ?case by (cases xs) (auto simp: suffix_appendI)
qed simp

lemma object_key_suffix: "suffix (''-'' @ name) (object_key l kind u name)"
proof -
  have "filter (\<lambda>s. s \<noteq> '''') (xs @ [u @ ''-'' @ name]) = filter (\<lambda>s. s \<noteq> '''') xs @ [u @ ''-'' @ name]" for xs by simp
  from this [of "[strip is_slash (ArtifactPrefix (j_def (l_job (h_lease l)))), j_id (l_job (h_lease l)), l_attempt (h_lease l), kind]"]
  have "suffix (u @ ''-'' @ name) (object_key l kind u name)" unfolding object_key_def Let_def by (simp add: join_last)
  then show ?thesis by (metis suffix_appendI suffix_order.order_trans suffix_order.refl)
qed

lemma suffix_asc: "suffix s t \<Longrightarrow> suffix (asc s) (asc t)"
  by (auto simp: suffix_def)

definition literal :: "pystr \<Rightarrow> bool" where
  "literal s \<longleftrightarrow> json_ok (J_Float s)"

lemma metrics_ok:
  assumes "\<And>x. literal (float_text W x)" "distinct (map fst (counts lib result))" "as_index start = Inr k"
  shows "json_ok (metrics_json lib W (identity args dg) records result start job attempt auc ap)"
proof -
  have s: "json_ok start" using assms(3) by (cases start) (auto simp: as_index_def)
  have c: "json_ok (J_Obj (map (\<lambda>(k, n). (asc k, J_Int (int n))) (counts lib result)))"
    using assms(2) by (auto simp: list_all_iff comp_def case_prod_unfold scalar_asc [unfolded list_all_iff] distinct_map inj_on_def)
  have "distinct (map fst (identity args dg @ xs)) \<longleftrightarrow> distinct (map fst xs) \<and> set (map fst (identity args dg)) \<inter> set (map fst xs) = {}" for xs
    using identity_ok(2) [of args dg] by auto
  then show ?thesis using identity_ok [of args dg] s c assms(1) [unfolded literal_def]
    by (simp add: metrics_json_def identity_def scalar_asc del: asc_simps json_ok.simps(1))
qed


lemma filterR_eq: "(\<And>x. x \<in> set xs \<Longrightarrow> p x = Inr (q x)) \<Longrightarrow> filterR p xs = Inr (filter q xs)"
  by (induction xs) auto

text \<open>What the server lists for a job: its attempts, and the artifacts, of which \<open>m\<close> is one of the last attempt while no
  other of that attempt is named as metrics.\<close>

definition lists_one :: "http_client \<Rightarrow> json \<Rightarrow> json \<Rightarrow> bool" where
  "lists_one c job m \<longleftrightarrow> (\<exists>i as attempt xs ys. id_of job = Inr i \<and> client_attempts c i = Inr (J_List as) \<and> as \<noteq> []
     \<and> get_item (asc ''id'') (last as) = Inr attempt \<and> client_artifacts c i = Inr (J_List (xs @ m # ys)) \<and> get_item (asc ''attempt_id'') m = Inr attempt
     \<and> list_all (\<lambda>x. \<exists>a k. get_item (asc ''attempt_id'') x = Inr a \<and> get_item (asc ''object_key'') x = Inr (J_Str k)
         \<and> \<not> (a = attempt \<and> suffix (asc ''-metrics.json'') k)) (xs @ ys))"

lemma metrics_artifact_listed:
  assumes "lists_one c job m" "get_item (asc ''object_key'') m = Inr (J_Str key)" "suffix (asc ''-metrics.json'') key"
  shows "metrics_artifact c job = Inr m"
proof -
  from assms(1) obtain i as attempt xs ys where i: "id_of job = Inr i" "client_attempts c i = Inr (J_List as)" "as \<noteq> []"
      "get_item (asc ''id'') (last as) = Inr attempt" "client_artifacts c i = Inr (J_List (xs @ m # ys))" "get_item (asc ''attempt_id'') m = Inr attempt"
    and l: "list_all (\<lambda>x. \<exists>a k. get_item (asc ''attempt_id'') x = Inr a \<and> get_item (asc ''object_key'') x = Inr (J_Str k)
         \<and> \<not> (a = attempt \<and> suffix (asc ''-metrics.json'') k)) (xs @ ys)"
    unfolding lists_one_def by blast
  let ?mine = "\<lambda>x. get_item (asc ''attempt_id'') x = Inr attempt"
  let ?named = "\<lambda>x. bindR (get_item (asc ''object_key'') x) (ends_with (asc ''-metrics.json''))"
  have all: "\<exists>a k. get_item (asc ''attempt_id'') x = Inr a \<and> get_item (asc ''object_key'') x = Inr (J_Str k)" if "x \<in> set (xs @ m # ys)" for x
    using that l i(6) assms(2) by (auto simp: list_all_iff simp del: asc_simps)
  have f1: "filterR (\<lambda>a. bindR (get_item (asc ''attempt_id'') a) (\<lambda>x. bindR (get_item (asc ''id'') (last as)) (\<lambda>y. Inr (x = y)))) (xs @ m # ys)
      = Inr (filter ?mine (xs @ m # ys))"
    using all by (intro filterR_eq) (fastforce simp: i(4) simp del: asc_simps)
  have f2: "filterR ?named (filter ?mine (xs @ m # ys)) = Inr (filter (\<lambda>x. ?named x = Inr True) (filter ?mine (xs @ m # ys)))"
  proof (rule filterR_eq)
    fix x assume "x \<in> set (filter ?mine (xs @ m # ys))"
    then have "x \<in> set (xs @ m # ys)" by (simp only: set_filter mem_Collect_eq)
    from all [OF this] obtain k where "get_item (asc ''object_key'') x = Inr (J_Str k)" by blast
    then show "?named x = Inr (?named x = Inr True)" by (simp add: ends_with_def del: asc_simps)
  qed
  have "filter (\<lambda>x. ?named x = Inr True) (filter ?mine zs) = []" if "set zs \<subseteq> set (xs @ ys)" for zs
    unfolding filter_empty_conv
  proof
    fix x assume x: "x \<in> set (filter ?mine zs)"
    then have "x \<in> set (xs @ ys)" using that by (metis filter_is_subset subsetD)
    then obtain a k where "get_item (asc ''attempt_id'') x = Inr a" "get_item (asc ''object_key'') x = Inr (J_Str k)"
      "\<not> (a = attempt \<and> suffix (asc ''-metrics.json'') k)" using l unfolding list_all_iff by blast
    then show "?named x \<noteq> Inr True" using x by (simp add: ends_with_def del: asc_simps)
  qed
  from this [of xs] this [of ys] have f3: "filter (\<lambda>x. ?named x = Inr True) (filter ?mine (xs @ m # ys)) = [m]"
    using i(6) assms(2,3) by (simp add: ends_with_def del: asc_simps filter_filter)
  show ?thesis using i(3) by (simp add: metrics_artifact_def i(1,2,5) last_item_def iter_json_def f1 f2 f3 del: asc_simps filter_filter filter_append)
qed

lemma sort_key_sorted: "sorted (map f xs) \<Longrightarrow> sort_key f xs = xs"
  by (induction xs) (simp_all add: insort_is_Cons)

lemma attempts_in_order:
  assumes "reachable d" "get_job i d = Some j"
  shows "sort_key a_number (attempts_of i d) = attempts_of i d"
proof -
  have "job_ok j (attempts_of i d)" using wf_job_ok [OF reachable_tables_ok [OF assms(1)]] get_job_mem [OF assms(2)] by auto
  then have "map a_number (attempts_of i d) = map int [1..<Suc (length (attempts_of i d))]" by (simp add: job_ok_def)
  moreover have "sorted (map int [1..<n])" for n by (simp add: sorted_map)
  ultimately have "sorted (map a_number (attempts_of i d))" by metis
  then show ?thesis by (rule sort_key_sorted)
qed

lemma lists_one_db:
  assumes "reachable d" "get_job i d = Some j" "idPattern i" "uuid_value i = i" "\<And>xs. mset (sv_by_time sv xs) = mset xs"
    and attempts: "attempts_of i d \<noteq> []" "length (attempts_of i d) \<le> 1000" "length (filter (\<lambda>y. art_job y = i) (artifacts d)) \<le> 1000"
    and x: "x \<in> set (artifacts d)" "art_job x = i" "art_attempt x = a_id (last (attempts_of i d))"
    and others: "\<And>y. y \<in> set (artifacts d) \<Longrightarrow> art_job y = i \<Longrightarrow> art_attempt y = art_attempt x \<Longrightarrow> y \<noteq> x
      \<Longrightarrow> \<not> suffix (asc ''-metrics.json'') (go_text (ObjectKey (art y)))"
  shows "lists_one (client_of sv e d base u) (job_json sv j) (artifact_json sv x)"
proof -
  let ?c = "client_of sv e d base u" and ?f = "filter (\<lambda>y. art_job y = i) (artifacts d)"
  let ?ys = "sv_by_time sv ?f"
  have id: "j_id j = i" using get_job_mem [OF assms(2)] by simp
  have list: "map char_of (asc i) = i" by (simp add: asc_def comp_def)
  have job: "id_of (job_json sv j) = Inr i" using id_ascii [OF assms(3)] by (simp add: id_of_def job_json_def obj_def get_item_def text_json_def id id_text [OF assms(3)] list)
  have arts: "client_artifacts ?c i = Inr (J_List (map (artifact_json sv) ?ys))"
  proof -
    have "length ?ys \<le> 1000" using attempts(3) mset_eq_length [OF assms(5)] by simp
    then show ?thesis using client_of_listings(2) [OF assms(3)] assms(2,4) by simp
  qed
  have "distinct (map (\<lambda>x. ObjectKey (art x)) (artifacts d))" using reachable_arts_ok [OF assms(1)] by (simp add: arts_ok_def)
  then have "distinct ?f" by (auto simp: distinct_map)
  then have dist: "distinct ?ys" using mset_eq_imp_distinct_iff [OF assms(5)] by blast
  have set: "set ?ys = set ?f" by (metis assms(5) set_mset_mset)
  then have "x \<in> set ?ys" using x(1,2) by simp
  then obtain us vs where ys: "?ys = us @ x # vs" by (meson split_list)
  have stamp: "idPattern (art_attempt y)" if "y \<in> set (artifacts d)" for y using reachable_stamped [OF assms(1)] that by (simp add: stamped_def)
  have other: "\<not> (text_json (art_attempt y) = text_json (a_id (last (attempts_of i d))) \<and> suffix (asc ''-metrics.json'') (go_text (ObjectKey (art y))))"
    if "y \<in> set (us @ vs)" for y
  proof -
    have y: "y \<in> set (artifacts d)" "art_job y = i" "y \<noteq> x" using that dist set unfolding ys by auto
    show ?thesis using others [OF y(1,2) _ y(3)] id_text [OF stamp [OF y(1)]] id_text [OF stamp [OF x(1)]] x(3) by (auto simp: text_json_def simp del: asc_simps)
  qed
  have item: "get_item (asc ''attempt_id'') (artifact_json sv y) = Inr (text_json (art_attempt y))"
      "get_item (asc ''object_key'') (artifact_json sv y) = Inr (text_json (ObjectKey (art y)))" for y
    by (simp_all add: get_item_def artifact_json_def obj_def)
  let ?as = "map (attempt_json sv) (attempts_of i d)"
  have as: "client_attempts ?c i = Inr (J_List ?as)" using client_of_listings(1) [OF assms(3)] assms(2,4) attempts(2) by (simp add: attempts_in_order [OF assms(1,2)])
  have last: "get_item (asc ''id'') (last ?as) = Inr (text_json (a_id (last (attempts_of i d))))"
    using attempts(1) by (simp add: last_map get_item_def attempt_json_def obj_def)
  show ?thesis
    unfolding lists_one_def using job as attempts(1) last arts other item x(3)
    by (intro exI [of _ i] exI [of _ ?as] exI [of _ "text_json (a_id (last (attempts_of i d)))"] exI [of _ "map (artifact_json sv) us"] exI [of _ "map (artifact_json sv) vs"])
      (fastforce simp: ys list_all_iff text_json_def simp del: asc_simps)
qed

text \<open>The row of a task in the table: its study, data set, regime and model, and the AUC it wrote.\<close>

lemma metrics_row_entry:
  "row_entry float_value (metrics_json lib W (identity args dg) records result start job attempt auc ap)
    = Inr (map asc [cf_study args, cf_dataset args, cf_regime args, cf_model args], float_value (float_text W auc))"
  "get_item (asc ''auc'') (metrics_json lib W (identity args dg) records result start job attempt auc ap) = Inr (J_Float (float_text W auc))"
  by (simp_all add: row_entry_def row_key_def get_default_def text_of_def get_item_def number_of_def metrics_json_def identity_def)

text \<open>C35: A task's metrics reach the summary. When a task ends with metrics, the file it left in the output directory, uploaded
  unchanged by the worker as an output and recorded by the server for the job's last attempt, no other artifact of that
  attempt being named as metrics, is read back by the aggregation through the HTTP interface as exactly the object
  the task wrote, whatever the rest of the database holds; the table counts its AUC under the study, data set, regime
  and model the task was run with. The listings the aggregation asks for hold a thousand rows.\<close>

theorem metrics_reach_summary:
  assumes task: "task_run T lib W args env s0 = (evs, Inr m)" "env ''RUNGRID_OUTPUT_DIR'' = Some p"
      "files (run_ops (file_ops evs) s0) (path_join p ''metrics.json'') = Some f"
    and texts: "\<And>x. literal (float_text W x)" "\<And>p. distinct (map fst (counts lib p))"
    and worker: "upload v ''metrics.json'' (map of_nat (content f)) l ''output'' no_puts = (Inr (Some a), s)"
      "\<And>n. u_body v n = map of_nat (content f)"
    and server: "reachable d" "get_job i d = Some j" "idPattern i" "uuid_value i = i" "\<And>xs. mset (sv_by_time sv xs) = mset xs"
    and listed: "attempts_of i d \<noteq> []" "length (attempts_of i d) \<le> 1000" "length (filter (\<lambda>y. art_job y = i) (artifacts d)) \<le> 1000"
    and recorded: "x \<in> set (artifacts d)" "art_job x = i" "art_attempt x = a_id (last (attempts_of i d))" "art x = a"
      "\<And>y. y \<in> set (artifacts d) \<Longrightarrow> art_job y = i \<Longrightarrow> art_attempt y = art_attempt x \<Longrightarrow> y \<noteq> x
        \<Longrightarrow> \<not> suffix (asc ''-metrics.json'') (go_text (ObjectKey (art y)))"
    and store: "bucket (text_json (ObjectKey a)) = Some (p_body (last (u_puts s)))"
  shows "verified_row other bucket (client_of sv e d base u) (job_json sv j) = Inr m
    \<and> (\<exists>auc. get_item (asc ''auc'') m = Inr (J_Float auc)
        \<and> row_entry float_value m = Inr (map asc [cf_study args, cf_dataset args, cf_regime args, cf_model args], float_value auc))"
proof -
  obtain records result start k p' jb att auc ap f' where
      m: "m = metrics_json lib W (identity args (manifest_digest lib result)) records result start jb att auc ap" "as_index start = Inr k"
    and f': "env ''RUNGRID_OUTPUT_DIR'' = Some p'" "files (run_ops (file_ops evs) s0) (path_join p' ''metrics.json'') = Some f'" "content f' = dumps_indent 0 m"
    using task_run_written [OF task(1)] by metis
  then have f: "content f = dumps_indent 0 m" using task(2,3) by simp
  have ok: "json_ok m" unfolding m(1) by (rule metrics_ok [OF texts m(2)])
  have a: "Checksum a = sha256_hex (map of_nat (content f))" "p_body (last (u_puts s)) = map of_nat (content f)"
    using worker by (cases rule: upload_cases; auto simp: uploaded_def digest_sha256)+
  have data: "loads_bytes other (map of_nat (content f)) = Some m"
    unfolding f using loads_plain_bytes [OF plain_dumps_indent [OF ok]] loads_dumps_indent [OF ok] by simp
  have "suffix (''-'' @ ''metrics.json'') (ObjectKey a)"
    using worker(1) by (cases rule: upload_cases) (auto simp: uploaded_def intro: object_key_suffix [of "''metrics.json''", simplified])
  then have suf: "suffix (asc ''-metrics.json'') (go_text (ObjectKey a))" using go_text_suffix [of "''-metrics.json''"] by simp
  have item: "get_item (asc ''object_key'') (artifact_json sv x) = Inr (J_Str (go_text (ObjectKey a)))"
      "get_item (asc ''checksum'') (artifact_json sv x) = Inr (J_Str (asc (Checksum a)))"
    by (simp_all add: get_item_def artifact_json_def obj_def text_json_def recorded(4) checksum_text a(1) sha256_hex_checksum)
  note one = metrics_artifact_listed [OF lists_one_db [OF server listed recorded(1-3,5)] item(1) suf]
  have "verified_row other bucket (client_of sv e d base u) (job_json sv j) = Inr m"
    using store data by (simp add: verified_row_def one item a text_json_def del: asc_simps)
  then show ?thesis unfolding m(1) by (blast intro: metrics_row_entry)
qed


section \<open>A task, its upload and its listing\<close>

definition ex_metrics_upload :: "bytes \<Rightarrow> upload_env" where
  "ex_metrics_upload b = ex_upload\<lparr>u_body := \<lambda>_. b\<rparr>"

definition ex_metrics_artifact :: "bytes \<Rightarrow> artifact" where
  "ex_metrics_artifact b = uploaded (ex_metrics_upload b) (object_key ex_held ''output'' (ex_id 7) ''metrics.json'') (digest b) ''output''"

definition ex_completed :: "bytes \<Rightarrow> op" where
  "ex_completed b = Op_RPC (ex_env 4) CompleteAttempt ((ex_request ''4'')\<lparr>Artifacts := [ex_metrics_artifact b]\<rparr>)"

lemma ex_metrics_upload_runs:
  "\<exists>s. upload (ex_metrics_upload b) ''metrics.json'' b ex_held ''output'' no_puts = (Inr (Some (ex_metrics_artifact b)), s) \<and> p_body (last (u_puts s)) = b"
  by (simp add: upload_def ex_metrics_artifact_def ex_metrics_upload_def ex_upload_def upt_rec uploaded_def no_puts_def Let_def)

lemma ex_metrics_artifact_ok: "artifact_ok (ex_row RUNNING 3) (ex_id 4) (ex_metrics_artifact b)"
proof -
  have "artifact_ok (l_job (h_lease ex_held)) (l_attempt (h_lease ex_held))
      (uploaded (ex_metrics_upload b) (object_key ex_held ''output'' (u_uuid (ex_metrics_upload b)) ''metrics.json'') (digest b) ''output'')"
    by (subst uploaded_ok) (simp_all add: ex_held_def ex_row_def ex_metrics_upload_def ex_upload_def artifact_kinds_def ex_ids ex_job_valid)
  then show ?thesis by (simp add: ex_metrics_artifact_def ex_metrics_upload_def ex_upload_def ex_held_def artifact_ok_def key_prefix_def ex_row_def)
qed

lemma ex_completed_db:
  "jobs (exec (ex_completed b) (ex_db 4)) = [ex_row SUCCEEDED 4]" "attempts (exec (ex_completed b) (ex_db 4)) = [ex_attempt A_SUCCEEDED (Some 3) (Some 4)]"
  "artifacts (exec (ex_completed b) (ex_db 4)) = [\<lparr>art_id = ex_id 8, art_job = ex_id 0, art_attempt = ex_id 4, art = ex_metrics_artifact b, art_created = 4\<rparr>]"
proof -
  have "ex_view (ex_db 4) = ([ex_row RUNNING 3], [ex_worker 3], [ex_attempt A_RUNNING (Some 3) None], [],
      [(''rpc:RegisterWorker:w'', ''1''), (''rpc:LeaseJob:w'', ''2''), (''rpc:StartAttempt:w'', ''3'')])" by code_simp
  then have v: "jobs (ex_db 4) = [ex_row RUNNING 3]" "workers (ex_db 4) = [ex_worker 3]" "attempts (ex_db 4) = [ex_attempt A_RUNNING (Some 3) None]"
    "artifacts (ex_db 4) = []" "map receipt_key (requests (ex_db 4)) = [(''rpc:RegisterWorker:w'', ''1''), (''rpc:LeaseJob:w'', ''2''), (''rpc:StartAttempt:w'', ''3'')]"
    by (simp_all add: ex_view_def)
  have k: "receipt_key ` set (requests (ex_db 4)) = {(''rpc:RegisterWorker:w'', ''1''), (''rpc:LeaseJob:w'', ''2''), (''rpc:StartAttempt:w'', ''3'')}"
    using arg_cong [OF v(5), of set] by simp
  let ?q = "\<lparr>rq_scope = ''rpc:CompleteAttempt:w'', rq_id = ''4'', rq_hash = ''4'', rq_response = None\<rparr>"
  have look: "lookup_by receipt_key (''rpc:CompleteAttempt:w'', ''4'') (requests (ex_db 4) @ [?q]) = Some ?q"
    by (rule lookup_by_append_new) (simp_all add: k, simp add: receipt_key_def)
  have ids: "idPattern (ex_id n)" for n by (rule ex_ids)
  note ok = ex_metrics_artifact_ok [unfolded ex_row_def]
  show "jobs (exec (ex_completed b) (ex_db 4)) = [ex_row SUCCEEDED 4]" "attempts (exec (ex_completed b) (ex_db 4)) = [ex_attempt A_SUCCEEDED (Some 3) (Some 4)]"
    "artifacts (exec (ex_completed b) (ex_db 4)) = [\<lparr>art_id = ex_id 8, art_job = ex_id 0, art_attempt = ex_id 4, art = ex_metrics_artifact b, art_created = 4\<rparr>]"
    by (simp_all add: ex_completed_def committed_def RPC_def ex_request_def Mutate_eq with_receipt_def k look [unfolded lookup_by_def] v worker_tx_def get_worker_def lookup_by_def
        ex_worker_def set_worker_def update_where_def attempt_tx_def ids get_attempt_def get_job_def ex_attempt_def ex_row_def fence_def active_def report_tx_def
        ok event_text_def pg_text_def finish_attempt_def set_job_def set_attempts_def attempt_event_def event_def Let_def)
qed


theorem metrics_reach_summary_witness:
  "\<exists>evs m d f. task_run ex_torch ex_lib ex_around ex_config ex_task_env ex_fs = (evs, Inr m)
    \<and> files (run_ops (file_ops evs) ex_fs) (path_join d ''metrics.json'') = Some f
    \<and> verified_row (\<lambda>_. None) (\<lambda>_. Some (map of_nat (content f)))
        (client_of ex_server (ex_env 9) (exec (ex_completed (map of_nat (content f))) (ex_db 4)) ''http://h'' ''u'')
        (job_json ex_server (ex_row SUCCEEDED 4)) = Inr m"
proof -
  obtain evs m where run: "task_run ex_torch ex_lib ex_around ex_config ex_task_env ex_fs = (evs, Inr m)" using ex_task_run by blast
  obtain d f where d: "ex_task_env ''RUNGRID_OUTPUT_DIR'' = Some d"
    and f: "files (run_ops (file_ops evs) ex_fs) (path_join d ''metrics.json'') = Some f" using task_run_written [OF run] by metis
  let ?b = "map of_nat (content f) :: bytes"
  let ?d = "exec (ex_completed ?b) (ex_db 4)"
  let ?x = "\<lparr>art_id = ex_id 8, art_job = ex_id 0, art_attempt = ex_id 4, art = ex_metrics_artifact ?b, art_created = 4\<rparr>"
  have "number (asc ''0.5'') = Some (J_Float (asc ''0.5''), [])" by code_simp
  then have t: "literal (float_text ex_around x)" for x by (simp add: literal_def ex_around_def)
  have c: "distinct (map fst (counts ex_lib p))" for p by (simp add: ex_lib_def)
  obtain s where u: "upload (ex_metrics_upload ?b) ''metrics.json'' ?b ex_held ''output'' no_puts = (Inr (Some (ex_metrics_artifact ?b)), s)"
    "p_body (last (u_puts s)) = ?b" using ex_metrics_upload_runs by blast
  have b: "u_body (ex_metrics_upload ?b) n = ?b" for n by (simp add: ex_metrics_upload_def)
  have r: "reachable ?d" by (rule reach_step [OF reachable_ex]) (simp add: ex_completed_def)
  have j: "get_job (ex_id 0) ?d = Some (ex_row SUCCEEDED 4)" by (simp add: get_job_def lookup_by_def ex_completed_db ex_row_def)
  have i: "uuid_value (ex_id 0) = ex_id 0" by code_simp
  have a: "attempts_of (ex_id 0) ?d = [ex_attempt A_SUCCEEDED (Some 3) (Some 4)]" "a_id (ex_attempt A_SUCCEEDED (Some 3) (Some 4)) = ex_id 4"
    by (simp_all add: attempts_of_def ex_completed_db ex_attempt_def)
  have m: "mset (sv_by_time ex_server xs) = mset xs" for xs by (simp add: ex_server_def)
  have "verified_row (\<lambda>_. None) (\<lambda>_. Some ?b) (client_of ex_server (ex_env 9) ?d ''http://h'' ''u'') (job_json ex_server (ex_row SUCCEEDED 4)) = Inr m"
    by (rule conjunct1 [OF metrics_reach_summary [where x = ?x and float_value = "\<lambda>_. 0", OF run d f t c u(1) b r j ex_ids i m]])
      (simp_all add: a ex_completed_db u(2))
  with run f show ?thesis by blast
qed

end
